(* ===== verification/Prelude.thy ===== *)
theory Prelude
  imports Main "HOL-Library.Word"
begin

text \<open>
  Shared vocabulary of the development: bytes and byte strings, the C++ string
  operations the sources use, list lemmas about in-place writes, and step
  relations with their reachable states and invariants.
\<close>

unbundle bit_operations_syntax

named_theorems codec_simps \<open>computation rules of the byte codecs\<close>
named_theorems frame_simps \<open>what an operation leaves unchanged or how it changes a field\<close>
named_theorems handler_defs \<open>definitions of event handlers\<close>

section \<open>Bytes and strings\<close>

type_synonym byte = "8 word"
type_synonym bytes = "byte list"
type_synonym u16 = "16 word"
type_synonym u32 = "32 word"
type_synonym u64 = "64 word"

text \<open>A C++ string or character literal, as the bytes of its ASCII characters.\<close>

abbreviation ch :: "char \<Rightarrow> byte" where
  "ch c \<equiv> of_char c"

definition ascii :: "string \<Rightarrow> bytes" where
  "ascii s = map of_char s"

lemma ascii_simps [simp]:
  "ascii [] = []"
  "ascii (c # s) = ch c # ascii s"
  by (simp_all add: ascii_def)

lemma ascii_append [simp]: "ascii (s @ t) = ascii s @ ascii t"
  by (simp add: ascii_def)

lemma length_ascii [simp]: "length (ascii s) = length s"
  by (simp add: ascii_def)

text \<open>
  Plain \<open>char\<close> is a signed type on the platforms the library is built for, so the
  comparisons of characters in the sources are signed comparisons. Between two
  literals below 128 they agree with the unsigned ones.
\<close>

lemma mod_256_shift: "128 \<le> k \<Longrightarrow> k < 256 \<Longrightarrow> (k + 128) mod 256 = k - (128 :: int)"
proof -
  assume k: "128 \<le> k" "k < 256"
  have "(k + 128) mod 256 = ((k - 128) + 256) mod 256" by (simp add: algebra_simps)
  also have "\<dots> = (k - 128) mod 256" by (rule mod_add_self2)
  also have "\<dots> = k - 128" using k by (intro mod_pos_pos_trivial) auto
  finally show ?thesis .
qed

lemma sint_byte: "sint (c :: byte) = (if c < 128 then uint c else uint c - 256)"
proof -
  have "0 \<le> uint c" "uint c < 256"
    using uint_lt2p [of c] by auto
  then show ?thesis
    by (auto simp: sint_uint signed_take_bit_eq_take_bit_shift take_bit_eq_mod word_less_def
        mod_256_shift)
qed

lemma char_between_iff [simp]:
  assumes "hi < (128 :: byte)" "lo < 128"
  shows "(lo <=s c \<and> c <=s hi) \<longleftrightarrow> lo \<le> c \<and> c \<le> hi"
proof -
  have u: "0 \<le> uint c" "uint c < 256" "0 \<le> uint lo" "0 \<le> uint hi"
    using uint_lt2p [of c] by auto
  show ?thesis
    using assms u
    by (auto simp: word_sle_eq sint_byte word_le_def word_less_def)
      (use uint_ge_0 [of lo] in linarith)
qed

lemma unat_byte_less [simp]: "unat (c :: byte) < 256"
  using unsigned_less [of c] by simp

lemma take_bit_byte_self:
  assumes "unat (x :: byte) < 2 ^ n"
  shows "take_bit n x = x"
  using assms by (simp add: word_unat_eq_iff unsigned_take_bit_eq take_bit_nat_eq_self_iff)

lemma byte_bit_high: "8 \<le> n \<Longrightarrow> bit (b :: byte) n \<longleftrightarrow> False"
  by (auto dest: bit_imp_le_length)

lemma unat_take_bit_less: "unat (take_bit n (x :: byte)) < 2 ^ n"
  by (simp only: unsigned_take_bit_eq take_bit_nat_less_exp)

text \<open>
  \<open>strlen\<close>: the bytes before the first NUL of a C string.
\<close>

definition strlen :: "bytes \<Rightarrow> nat" where
  "strlen s = length (takeWhile (\<lambda>c. c \<noteq> 0) s)"

lemma strlen_le: "strlen s \<le> length s"
  by (simp add: strlen_def length_takeWhile_le)

lemma strlen_no_nul: "0 \<notin> set s \<Longrightarrow> strlen s = length s"
  unfolding strlen_def by (induction s) auto

text \<open>The text of a C string, empty for a null pointer.\<close>

definition c_text :: "bytes option \<Rightarrow> bytes" where
  "c_text p = (case p of None \<Rightarrow> [] | Some t \<Rightarrow> takeWhile (\<lambda>c. c \<noteq> 0) t)"

text \<open>\<open>std::to_string\<close> of an unsigned integer: its decimal digits.\<close>

fun to_string :: "nat \<Rightarrow> bytes" where
  "to_string n =
     (if n < 10 then [ch (CHR ''0'') + of_nat n]
      else to_string (n div 10) @ [ch (CHR ''0'') + of_nat (n mod 10)])"

declare to_string.simps [simp del]

lemma to_string_small: "n < 10 \<Longrightarrow> to_string n = [48 + of_nat n]"
  by (subst to_string.simps) simp

lemma to_string_nonempty [simp]: "to_string n \<noteq> []"
  by (subst to_string.simps) simp

lemma digit_bounds:
  assumes "d < (10 :: nat)"
  shows "(48 :: byte) \<le> 48 + of_nat d" "48 + of_nat d \<le> (57 :: byte)"
proof -
  have "unat (48 + of_nat d :: byte) = 48 + d"
    using assms by (simp add: unat_word_ariths unat_of_nat)
  then show "(48 :: byte) \<le> 48 + of_nat d" "48 + of_nat d \<le> (57 :: byte)"
    using assms by (simp_all add: word_le_nat_alt)
qed

lemma to_string_digits: "c \<in> set (to_string n) \<Longrightarrow> 48 \<le> c \<and> c \<le> 57"
proof (induction n rule: to_string.induct)
  case (1 n)
  show ?case
  proof (cases "n < 10")
    case True
    with "1.prems" show ?thesis
      by (auto simp: to_string_small digit_bounds)
  next
    case False
    with "1.prems" have "c \<in> set (to_string (n div 10)) \<or> c = 48 + of_nat (n mod 10)"
      by (subst (asm) to_string.simps) auto
    with False "1.IH" show ?thesis
      by (auto simp: digit_bounds)
  qed
qed

text \<open>The offset behind the first \<open>\r\n\r\n\<close>, as \<open>async_read_until\<close> reports it.\<close>

fun head_end :: "bytes \<Rightarrow> nat option" where
  "head_end [] = None"
| "head_end (b # bs) =
     (if take 4 (b # bs) = [13, 10, 13, 10] then Some 4 else map_option Suc (head_end bs))"

section \<open>Lists written in place\<close>

lemma list_update_drop_append:
  "i < length xs \<Longrightarrow> xs[i := v] = take i xs @ v # drop (Suc i) xs"
  by (simp add: upd_conv_take_nth_drop)

lemma take_Suc_update: "i < length xs \<Longrightarrow> take (Suc i) (xs[i := v]) = take i xs @ [v]"
  by (simp add: take_Suc_conv_app_nth)

lemma take_update_cancel [simp]: "n \<le> i \<Longrightarrow> take n (xs[i := v]) = take n xs"
  by simp

lemma drop_nth_Cons: "i < length xs \<Longrightarrow> drop i xs = xs ! i # drop (Suc i) xs"
  by (rule Cons_nth_drop_Suc [symmetric])

lemma one_element: "x \<in> set xs \<Longrightarrow> length xs \<le> 1 \<Longrightarrow> xs = [x]"
  by (cases xs) auto

lemma count_list_snoc [simp]:
  "count_list (xs @ [x]) y = count_list xs y + (if x = y then 1 else 0)"
  by (induction xs) auto

lemma set_take_mem: "x \<in> set (take n xs) \<Longrightarrow> x \<in> set xs"
  by (rule in_set_takeD)

section \<open>Step relations, runs and invariants\<close>

text \<open>
  A component with state is a relation \<open>state \<Rightarrow> event \<Rightarrow> state \<Rightarrow> bool\<close>: one rule per
  entry point of the class (an API call, a handler run by the io context, an
  answer of the operating system). A run is a sequence of such events.
\<close>

inductive run :: "('s \<Rightarrow> 'e \<Rightarrow> 's \<Rightarrow> bool) \<Rightarrow> 's \<Rightarrow> 'e list \<Rightarrow> 's \<Rightarrow> bool"
  for stp where
  run_Nil: "run stp s [] s"
| run_Cons: "stp s e t \<Longrightarrow> run stp t es u \<Longrightarrow> run stp s (e # es) u"

inductive_cases run_NilE [elim!]: "run stp s [] t"
inductive_cases run_ConsE: "run stp s (e # es) t"

lemma run_append:
  "run stp s es t \<Longrightarrow> run stp t fs u \<Longrightarrow> run stp s (es @ fs) u"
  by (induction rule: run.induct) (auto intro: run.intros)

lemma run_snoc: "run stp s es t \<Longrightarrow> stp t e u \<Longrightarrow> run stp s (es @ [e]) u"
  by (rule run_append) (auto intro: run.intros)

locale step_invariant =
  fixes stp :: "'s \<Rightarrow> 'e \<Rightarrow> 's \<Rightarrow> bool"
    and inv :: "'s \<Rightarrow> bool"
  assumes step_inv: "stp s e t \<Longrightarrow> inv s \<Longrightarrow> inv t"
begin

lemma run_inv: "run stp s es t \<Longrightarrow> inv s \<Longrightarrow> inv t"
  by (induction rule: run.induct) (auto intro: step_inv)

end

text \<open>
  Step relations are executable: \<open>next\<close> computes the state after an event, or \<open>None\<close>
  when the event cannot happen.
\<close>

fun exec :: "('e \<Rightarrow> 's \<Rightarrow> 's option) \<Rightarrow> 'e list \<Rightarrow> 's \<Rightarrow> 's option" where
  "exec nxt [] s = Some s"
| "exec nxt (e # es) s = (case nxt e s of None \<Rightarrow> None | Some t \<Rightarrow> exec nxt es t)"

locale executable_steps =
  fixes stp :: "'s \<Rightarrow> 'e \<Rightarrow> 's \<Rightarrow> bool"
    and nxt :: "'e \<Rightarrow> 's \<Rightarrow> 's option"
  assumes step_iff: "stp s e t \<longleftrightarrow> nxt e s = Some t"
begin

lemma run_iff_exec: "run stp s es t \<longleftrightarrow> exec nxt es s = Some t"
proof
  show "run stp s es t \<Longrightarrow> exec nxt es s = Some t"
    by (induction rule: run.induct) (simp_all add: step_iff)
next
  show "exec nxt es s = Some t \<Longrightarrow> run stp s es t"
  proof (induction es arbitrary: s)
    case Nil
    then show ?case by (simp add: run_Nil)
  next
    case (Cons e es)
    then show ?case by (auto simp: step_iff intro: run_Cons split: option.splits)
  qed
qed

lemma run_exec: "exec nxt es s \<noteq> None \<Longrightarrow> run stp s es (the (exec nxt es s))"
  by (auto simp: run_iff_exec)

lemma exec_ex:
  "(case exec nxt es s of None \<Rightarrow> False | Some t \<Rightarrow> P t) \<Longrightarrow> \<exists>t. run stp s es t \<and> P t"
  by (auto simp: run_iff_exec split: option.splits)

lemma steps_deterministic: "run stp s es t \<Longrightarrow> run stp s es u \<Longrightarrow> t = u"
  by (simp add: run_iff_exec)

end

section \<open>Registries\<close>

text \<open>
  A server keeps its live objects in a map under a mutex. The contract of adding and
  removing an entry, and what a history of such calls leaves registered.
\<close>

datatype 'k registration = Added 'k | Removed 'k

fun registered :: "'k registration list \<Rightarrow> 'k \<Rightarrow> bool \<Rightarrow> bool" where
  "registered [] k b = b"
| "registered (Added j # rs) k b = registered rs k (b \<or> j = k)"
| "registered (Removed j # rs) k b = registered rs k (b \<and> j \<noteq> k)"

locale registry =
  fixes add :: "'k \<Rightarrow> 's \<Rightarrow> 's"
    and del :: "'k \<Rightarrow> 's \<Rightarrow> 's"
    and has :: "'s \<Rightarrow> 'k \<Rightarrow> bool"
  assumes has_add: "has (add k s) j \<longleftrightarrow> has s j \<or> k = j"
    and has_del: "has (del k s) j \<longleftrightarrow> has s j \<and> k \<noteq> j"
begin

fun play :: "'k registration list \<Rightarrow> 's \<Rightarrow> 's" where
  "play [] s = s"
| "play (Added k # rs) s = play rs (add k s)"
| "play (Removed k # rs) s = play rs (del k s)"

lemma has_play: "has (play rs s) k \<longleftrightarrow> registered rs k (has s k)"
  by (induction rs s rule: play.induct) (simp_all add: has_add has_del)

end

section \<open>Round robin\<close>

text \<open>
  The servers hand out their io contexts in turn. \<open>draw nxt k s\<close> are the numbers that
  \<open>k\<close> calls of \<open>nxt\<close> return.
\<close>

fun draw :: "('s \<Rightarrow> nat \<times> 's) \<Rightarrow> nat \<Rightarrow> 's \<Rightarrow> nat list" where
  "draw nxt 0 s = []"
| "draw nxt (Suc k) s = fst (nxt s) # draw nxt k (snd (nxt s))"

locale round_robin =
  fixes nxt :: "'s \<Rightarrow> nat \<times> 's"
    and cnt :: "'s \<Rightarrow> nat"
    and pos :: "'s \<Rightarrow> nat"
  assumes nxt_val: "fst (nxt s) = (if pos s = cnt s then 0 else pos s)"
    and nxt_pos: "pos (snd (nxt s)) = Suc (fst (nxt s))"
    and nxt_cnt: "cnt (snd (nxt s)) = cnt s"
begin

lemma draw_round:
  "0 < cnt s \<Longrightarrow> pos s \<le> cnt s \<Longrightarrow> draw nxt k s = map (\<lambda>i. (pos s + i) mod cnt s) [0..<k]"
proof (induction k arbitrary: s)
  case (Suc k)
  let ?t = "snd (nxt s)" and ?c = "fst (nxt s)" and ?n = "cnt s"
  have c: "?c < ?n" using Suc.prems by (auto simp: nxt_val)
  have m: "(pos s + i) mod ?n = (?c + i) mod ?n" for i
    using Suc.prems by (auto simp: nxt_val)
  have "draw nxt (Suc k) s = ?c # map (\<lambda>i. (Suc ?c + i) mod ?n) [0..<k]"
    using Suc.IH [of ?t] c by (simp add: nxt_pos nxt_cnt)
  also have "\<dots> = map (\<lambda>i. (?c + i) mod ?n) (0 # map Suc [0..<k])"
    using c by simp
  also have "\<dots> = map (\<lambda>i. (pos s + i) mod ?n) [0..<Suc k]"
    by (simp only: m upt_conv_Cons [of 0 "Suc k"] map_Suc_upt zero_less_Suc)
  finally show ?case .
qed simp

end

end
