(* ===== verification/Base.thy ===== *)
theory Base
  imports Prelude
begin

text \<open>
  src/base/base.cpp: the byte-order functions, the clock conversions and the
  bounded line buffer of the logger. The byte order of the host is a parameter
  \<open>little\<close> (the test of the first byte of \<open>us = 0x0001\<close> in the code); the clock
  reading is a parameter too.
\<close>

section \<open>Clock conversions\<close>

text \<open>\<open>clock_gettime\<close> delivers seconds and nanoseconds.\<close>

record timespec =
  tv_sec :: u64
  tv_nsec :: u64

definition get_ns_time :: "timespec \<Rightarrow> u64" where
  "get_ns_time time = tv_sec time * 1000000000 + tv_nsec time"

definition get_ms_time :: "timespec \<Rightarrow> u64" where
  "get_ms_time time = get_ns_time time div 1000000"

definition get_s_time :: "timespec \<Rightarrow> u64" where
  "get_s_time time = get_ns_time time div 1000000000"

text \<open>The argument handed to \<open>usleep\<close>: a 32-bit product.\<close>

definition sleep_ms :: "u32 \<Rightarrow> u32" where
  "sleep_ms ms = 1000 * ms"

section \<open>Byte order\<close>

function order_loop :: "nat \<Rightarrow> nat \<Rightarrow> bytes \<Rightarrow> bytes" where
  "order_loop sz i bs =
     (if i < sz div 2 then
        let temp = bs ! i;
            bs = bs[i := bs ! (sz - 1 - i)];
            bs = bs[sz - 1 - i := temp]
        in order_loop sz (Suc i) bs
      else bs)"
  by pat_completeness auto
termination
  by (relation "measure (\<lambda>(sz, i, bs). sz div 2 - i)") auto

declare order_loop.simps [simp del]

definition order_bytes :: "bool \<Rightarrow> bytes \<Rightarrow> nat \<Rightarrow> bytes" where
  "order_bytes little obj sz =
     (if sz > 1 \<and> little then order_loop sz 0 obj else obj)"

definition host_to_net :: "bool \<Rightarrow> bytes \<Rightarrow> nat \<Rightarrow> bytes" where
  "host_to_net little obj sz = order_bytes little obj sz"

definition net_to_host :: "bool \<Rightarrow> bytes \<Rightarrow> nat \<Rightarrow> bytes" where
  "net_to_host little obj sz = order_bytes little obj sz"

text \<open>
  The loop invariant: after \<open>i\<close> rounds the outer \<open>i\<close> positions on both sides hold
  the mirrored bytes and the middle is untouched.
\<close>

definition mirrored :: "bytes \<Rightarrow> nat \<Rightarrow> bytes" where
  "mirrored xs i =
     map (\<lambda>j. if j < i \<or> length xs - i \<le> j then xs ! (length xs - 1 - j) else xs ! j)
       [0..<length xs]"

lemma mirrored_0: "mirrored xs 0 = xs"
  by (rule nth_equalityI) (auto simp: mirrored_def)

lemma mirrored_half: "mirrored xs (length xs div 2) = rev xs"
proof (rule nth_equalityI)
  show "length (mirrored xs (length xs div 2)) = length (rev xs)"
    by (simp add: mirrored_def)
  fix j
  assume "j < length (mirrored xs (length xs div 2))"
  then have j: "j < length xs" by (simp add: mirrored_def)
  show "mirrored xs (length xs div 2) ! j = rev xs ! j"
  proof (cases "j < length xs div 2 \<or> length xs - length xs div 2 \<le> j")
    case True
    with j show ?thesis by (auto simp: mirrored_def rev_nth)
  next
    case False
    with j have "length xs - 1 - j = j" by linarith
    with j False show ?thesis by (simp add: mirrored_def rev_nth)
  qed
qed

lemma mirrored_Suc:
  assumes "i < length xs div 2"
  shows "(mirrored xs i)[i := mirrored xs i ! (length xs - 1 - i),
                         length xs - 1 - i := mirrored xs i ! i] = mirrored xs (Suc i)"
proof (rule nth_equalityI)
  show "length ((mirrored xs i)[i := mirrored xs i ! (length xs - 1 - i),
           length xs - 1 - i := mirrored xs i ! i]) = length (mirrored xs (Suc i))"
    by (simp add: mirrored_def)
  fix j
  assume "j < length ((mirrored xs i)[i := mirrored xs i ! (length xs - 1 - i),
           length xs - 1 - i := mirrored xs i ! i])"
  then have j: "j < length xs" by (simp add: mirrored_def)
  have i: "i < length xs - 1 - i" "length xs - 1 - i < length xs - i" using assms by linarith+
  consider "j = i" | "j = length xs - 1 - i" | "j \<noteq> i" "j \<noteq> length xs - 1 - i" by blast
  then show "(mirrored xs i)[i := mirrored xs i ! (length xs - 1 - i),
           length xs - 1 - i := mirrored xs i ! i] ! j = mirrored xs (Suc i) ! j"
    using i j by cases (auto simp: mirrored_def nth_list_update)
qed

lemma order_loop_mirrored:
  "i \<le> length xs div 2 \<Longrightarrow>
     order_loop (length xs) i (mirrored xs i) = rev xs"
proof (induction "length xs div 2 - i" arbitrary: i)
  case 0
  then have "i = length xs div 2" by simp
  then show ?case by (subst order_loop.simps) (simp add: mirrored_half)
next
  case (Suc n)
  then have "i < length xs div 2" by simp
  with Suc mirrored_Suc [of i xs] show ?case
    by (subst order_loop.simps) (simp add: Let_def)
qed

lemma order_bytes_rev:
  "sz = length obj \<Longrightarrow> order_bytes little obj sz = (if little then rev obj else obj)"
  using order_loop_mirrored [of 0 obj]
  by (auto simp: order_bytes_def mirrored_0 not_less le_Suc_eq length_Suc_conv)

lemma length_order_bytes [simp]:
  "sz = length obj \<Longrightarrow> length (order_bytes little obj sz) = sz"
  by (simp add: order_bytes_rev)

section \<open>Integers in memory\<close>

text \<open>
  How the host stores a 16-bit or 32-bit integer, and how it reads one back: least
  significant byte first on a little-endian host.
\<close>

definition mem16 :: "bool \<Rightarrow> u16 \<Rightarrow> bytes" where
  "mem16 little w = (let bs = [ucast w, ucast (drop_bit 8 w)] in if little then bs else rev bs)"

definition mem32 :: "bool \<Rightarrow> u32 \<Rightarrow> bytes" where
  "mem32 little w =
     (let bs = [ucast w, ucast (drop_bit 8 w), ucast (drop_bit 16 w), ucast (drop_bit 24 w)]
      in if little then bs else rev bs)"

definition load16 :: "bool \<Rightarrow> bytes \<Rightarrow> u16" where
  "load16 little bs =
     (let bs = if little then bs else rev bs
      in ucast (bs ! 0) OR push_bit 8 (ucast (bs ! 1)))"

definition load32 :: "bool \<Rightarrow> bytes \<Rightarrow> u32" where
  "load32 little bs =
     (let bs = if little then bs else rev bs
      in ucast (bs ! 0) OR push_bit 8 (ucast (bs ! 1)) OR push_bit 16 (ucast (bs ! 2))
         OR push_bit 24 (ucast (bs ! 3)))"

lemma length_mem [simp]: "length (mem16 little w) = 2" "length (mem32 little v) = 4"
  by (simp_all add: mem16_def mem32_def Let_def)

lemma load16_mem16 [simp]: "load16 little (mem16 little w) = w"
  by (rule bit_word_eqI)
    (auto simp: load16_def mem16_def Let_def bit_or_iff bit_push_bit_iff bit_ucast_iff
      bit_drop_bit_eq not_less less_diff_conv2)

lemma load32_mem32 [simp]: "load32 little (mem32 little w) = w"
proof (rule bit_word_eqI)
  fix n :: nat
  assume "n < LENGTH(32)"
  then have "n < 8 \<or> 8 \<le> n \<and> n < 16 \<or> 16 \<le> n \<and> n < 24 \<or> 24 \<le> n \<and> n < 32"
    by auto
  then show "bit (load32 little (mem32 little w)) n \<longleftrightarrow> bit w n"
    by (auto simp: load32_def mem32_def Let_def bit_or_iff bit_push_bit_iff bit_ucast_iff
      bit_drop_bit_eq)
qed

text \<open>Network order is big-endian, whatever the host.\<close>

lemma host_to_net_mem16: "host_to_net little (mem16 little w) 2 = mem16 False w"
  by (simp add: host_to_net_def order_bytes_rev) (simp add: mem16_def)

lemma host_to_net_mem32: "host_to_net little (mem32 little w) 4 = mem32 False w"
  by (simp add: host_to_net_def order_bytes_rev) (simp add: mem32_def)

lemma net_to_host_mem16: "net_to_host little (mem16 False w) 2 = mem16 little w"
  by (simp add: net_to_host_def order_bytes_rev) (simp add: mem16_def)

lemma net_to_host_mem32: "net_to_host little (mem32 False w) 4 = mem32 little w"
  by (simp add: net_to_host_def order_bytes_rev) (simp add: mem32_def)

text \<open>Loading from memory and storing back.\<close>

lemma list_of_2: "length bs = 2 \<Longrightarrow> bs = [bs ! 0, bs ! 1]"
  by (auto simp: numeral_2_eq_2 length_Suc_conv)

lemma list_of_4: "length bs = 4 \<Longrightarrow> bs = [bs ! 0, bs ! 1, bs ! 2, bs ! 3]"
  by (auto simp: numeral_eq_Suc length_Suc_conv)

lemma mem16_of_bytes:
  "mem16 True (ucast a OR push_bit 8 (ucast b)) = [a, b :: byte]"
  by (auto simp: mem16_def Let_def bit_or_iff bit_push_bit_iff bit_ucast_iff bit_drop_bit_eq
      byte_bit_high intro!: bit_word_eqI)

lemma mem32_of_bytes:
  "mem32 True (ucast a OR push_bit 8 (ucast b) OR push_bit 16 (ucast c) OR push_bit 24 (ucast d)) =
     [a, b, c, d :: byte]"
  by (auto simp: mem32_def Let_def bit_or_iff bit_push_bit_iff bit_ucast_iff bit_drop_bit_eq
      byte_bit_high intro!: bit_word_eqI)

lemma mem_rev: "mem16 little w = (if little then mem16 True w else rev (mem16 True w))"
  "mem32 little v = (if little then mem32 True v else rev (mem32 True v))"
  by (simp_all add: mem16_def mem32_def Let_def)

lemma mem16_load16 [simp]:
  assumes "length bs = 2"
  shows "mem16 little (load16 little bs) = bs"
proof -
  obtain a b where bs: "bs = [a, b]" using list_of_2 [OF assms] by blast
  show ?thesis
    using mem16_of_bytes [of a b] mem16_of_bytes [of b a]
    by (cases little) (simp_all add: bs load16_def mem_rev(1) [of False])
qed

lemma mem32_load32 [simp]:
  assumes "length bs = 4"
  shows "mem32 little (load32 little bs) = bs"
proof -
  obtain a b c d where bs: "bs = [a, b, c, d]" using list_of_4 [OF assms] by blast
  show ?thesis
    using mem32_of_bytes [of a b c d] mem32_of_bytes [of d c b a]
    by (cases little) (simp_all add: bs load32_def mem_rev(2) [of False])
qed

section \<open>The logger's line buffer\<close>

text \<open>
  \<open>snprintf\<close> into \<open>n\<close> bytes keeps \<open>n - 1\<close> characters and returns the full length. The
  result of \<open>run_log\<close> is nothing (level too low), the line printed, or a write outside
  the 1024-byte buffer together with the limit handed to \<open>vsnprintf\<close>: the limit is
  computed in \<open>size_t\<close> and wraps when the location prefix alone is too long. \<open>msg\<close> is
  the text the format and its arguments expand to, \<open>DEBUG\<close> the preprocessor symbol.
\<close>

datatype log_result = Suppressed | Line bytes | Overrun nat

definition snprintf :: "nat \<Rightarrow> bytes \<Rightarrow> bytes \<times> nat" where
  "snprintf n s = (take (n - 1) s, length s)"

definition s_log_level_min :: int where
  "s_log_level_min = 1"

definition log_prefix :: "bytes \<Rightarrow> bytes \<Rightarrow> nat \<Rightarrow> bytes" where
  "log_prefix fname func line =
     fname @ ascii '':'' @ func @ ascii '':'' @ to_string line @ ascii '' | ''"

definition run_log :: "bool \<Rightarrow> int \<Rightarrow> bytes \<Rightarrow> bytes \<Rightarrow> nat \<Rightarrow> bytes \<Rightarrow> log_result" where
  "run_log DEBUG level fname func line msg =
     (if level < s_log_level_min then Suppressed
      else
        let (head, sz) =
              (if DEBUG then ([], 0)
               else snprintf (1024 - 1) (log_prefix fname func line));
            room = (1024 - 1 - of_nat sz :: u64)
        in if sz > 1024 - 1 then Overrun (unat room)
           else Line (head @ fst (snprintf (unat room) msg)))"

lemma log_room: "sz \<le> 1023 \<Longrightarrow> unat (1024 - 1 - of_nat sz :: u64) = 1023 - sz"
  by (simp add: unat_sub_if' unat_of_nat)

section \<open>Properties\<close>

text \<open>
  The byte-order functions. Whatever the host, converting a buffer to network
  order and back is the identity, and a 16-bit or 32-bit integer of the host becomes
  its most significant byte first.
\<close>

theorem network_order:
  "net_to_host little (host_to_net little bs (length bs)) (length bs) = bs \<and>
   host_to_net little (mem16 little w) 2 = [ucast (drop_bit 8 w), ucast w] \<and>
   host_to_net little (mem32 little v) 4 =
     [ucast (drop_bit 24 v), ucast (drop_bit 16 v), ucast (drop_bit 8 v), ucast v]"
proof -
  have "net_to_host little (host_to_net little bs (length bs)) (length bs) = bs"
    by (simp add: net_to_host_def host_to_net_def order_bytes_rev)
  then show ?thesis
    by (simp add: host_to_net_mem16 host_to_net_mem32) (simp add: mem16_def mem32_def)
qed

text \<open>
  The logger prints at most 1022 characters, prefix and message cut together, as
  long as the location prefix has at most 1023 characters; a longer prefix makes the
  second write start outside the buffer.
\<close>

theorem run_log_bounds:
  assumes "s_log_level_min \<le> level"
  shows "length (log_prefix fname func line) \<le> 1023 \<longleftrightarrow>
    run_log False level fname func line msg = Line (take 1022 (log_prefix fname func line @ msg))"
proof (cases "length (log_prefix fname func line) \<le> 1023")
  case True
  with assms show ?thesis
    using log_room [OF True] by (simp add: run_log_def snprintf_def Let_def)
next
  case False
  with assms show ?thesis
    by (simp add: run_log_def snprintf_def Let_def)
qed

theorem run_log_bounds_witness:
  "run_log False 2 (ascii ''a.cpp'') (ascii ''init'') 42 (ascii ''failed'') =
     Line (ascii ''a.cpp:init:42 | failed'')"
  using run_log_bounds [of 2 "ascii ''a.cpp''" "ascii ''init''" 42 "ascii ''failed''"]
  by (simp add: s_log_level_min_def log_prefix_def to_string.simps)

end
