(* ===== verification/String_Codec.thy ===== *)
theory String_Codec
  imports Base
begin

text \<open>
  src/string_codec/string_codec.cpp: hexadecimal and base64 text of byte buffers.
  A buffer argument \<open>(src, src_len)\<close> is an optional byte list (\<open>None\<close> is the null
  pointer) and a length; a result is the returned flag with the final content of the
  output string. The loops write the output in place, index by index, as the code
  does; they are then shown equal to structural functions on the bytes.
\<close>

section \<open>Hexadecimal\<close>

definition s_hex_lower_table :: bytes where
  "s_hex_lower_table = ascii ''0123456789abcdef''"

definition s_hex_upper_table :: bytes where
  "s_hex_upper_table = ascii ''0123456789ABCDEF''"

definition hex_index :: "byte \<Rightarrow> byte" where
  "hex_index symbol =
     (if ch (CHR ''0'') <=s symbol \<and> symbol <=s ch (CHR ''9'')
        then symbol - ch (CHR ''0'')
      else if ch (CHR ''a'') <=s symbol \<and> symbol <=s ch (CHR ''f'')
        then symbol - ch (CHR ''a'') + 10
      else if ch (CHR ''A'') <=s symbol \<and> symbol <=s ch (CHR ''F'')
        then symbol - ch (CHR ''A'') + 10
      else 16)"

text \<open>\<open>dst\<close> points into the output string \<open>buf\<close>.\<close>

definition binary_to_hex :: "byte \<Rightarrow> nat option \<Rightarrow> bool \<Rightarrow> bytes \<Rightarrow> bool \<times> bytes" where
  "binary_to_hex src dst lower buf =
     (case dst of
        None \<Rightarrow> (False, buf)
      | Some p \<Rightarrow>
          if lower then
            (True, buf[p := s_hex_lower_table ! unat (drop_bit 4 src AND 0x0F),
                       Suc p := s_hex_lower_table ! unat (src AND 0x0F)])
          else
            (True, buf[p := s_hex_upper_table ! unat (drop_bit 4 src AND 0x0F),
                       Suc p := s_hex_upper_table ! unat (src AND 0x0F)]))"

text \<open>\<open>src\<close> points into the input \<open>text\<close>; \<open>Some b\<close> is success with \<open>b\<close> stored.\<close>

definition hex_to_binary :: "bytes \<Rightarrow> nat option \<Rightarrow> byte option" where
  "hex_to_binary txt src =
     (case src of
        None \<Rightarrow> None
      | Some p \<Rightarrow>
          let hig = hex_index (txt ! p);
              low = hex_index (txt ! Suc p)
          in if hig > 15 \<or> low > 15 then None
             else Some (push_bit 4 hig OR low))"

function hex_encode_loop :: "bytes \<Rightarrow> nat \<Rightarrow> bool \<Rightarrow> nat \<Rightarrow> bytes \<Rightarrow> bool \<times> bytes" where
  "hex_encode_loop src src_len lower index dst =
     (if index < src_len then
        case binary_to_hex (src ! index) (Some (index * 2)) lower dst of
          (ok, dst') \<Rightarrow>
            if \<not> ok then (False, dst')
            else hex_encode_loop src src_len lower (Suc index) dst'
      else (True, dst))"
  by pat_completeness auto
termination
  by (relation "measure (\<lambda>(src, src_len, lower, index, dst). src_len - index)") auto

declare hex_encode_loop.simps [simp del]

definition hex_encode :: "bytes option \<Rightarrow> nat \<Rightarrow> bool \<Rightarrow> bool \<times> bytes" where
  "hex_encode src src_len lower =
     (case src of
        None \<Rightarrow> (False, [])
      | Some data \<Rightarrow> hex_encode_loop data src_len lower 0 (replicate (src_len * 2) 0))"

text \<open>
  The overloads. \<open>std::vector::data()\<close> of an empty vector may be a null pointer
  (\<open>null_when_empty\<close>), \<open>std::string::data()\<close> never is. The overloads for C strings
  leave \<open>dst\<close> alone when the pointer is null.
\<close>

definition vector_data :: "bool \<Rightarrow> bytes \<Rightarrow> bytes option" where
  "vector_data null_when_empty v = (if v = [] \<and> null_when_empty then None else Some v)"

definition hex_encode_void :: "bytes option \<Rightarrow> nat \<Rightarrow> bool \<Rightarrow> bool \<times> bytes" where
  "hex_encode_void src src_len lower = hex_encode src src_len lower"

definition hex_encode_vector :: "bool \<Rightarrow> bytes \<Rightarrow> bool \<Rightarrow> bool \<times> bytes" where
  "hex_encode_vector null_when_empty src lower =
     hex_encode (vector_data null_when_empty src) (length src) lower"

definition hex_encode_string :: "bytes \<Rightarrow> bool \<Rightarrow> bool \<times> bytes" where
  "hex_encode_string src lower = hex_encode (Some src) (length src) lower"

definition hex_encode_cstr :: "bytes option \<Rightarrow> bytes \<Rightarrow> bool \<Rightarrow> bool \<times> bytes" where
  "hex_encode_cstr src dst lower =
     (case src of None \<Rightarrow> (False, dst) | Some s \<Rightarrow> hex_encode (Some s) (strlen s) lower)"

function hex_decode_loop :: "bytes \<Rightarrow> nat \<Rightarrow> nat \<Rightarrow> bytes \<Rightarrow> bool \<times> bytes" where
  "hex_decode_loop src src_len index dst =
     (if index < src_len then
        case hex_to_binary src (Some index) of
          None \<Rightarrow> (False, dst)
        | Some b \<Rightarrow> hex_decode_loop src src_len (index + 2) (dst[index div 2 := b])
      else (True, dst))"
  by pat_completeness auto
termination
  by (relation "measure (\<lambda>(src, src_len, index, dst). src_len - index)") auto

declare hex_decode_loop.simps [simp del]

definition hex_decode :: "bytes option \<Rightarrow> nat \<Rightarrow> bool \<times> bytes" where
  "hex_decode src src_len =
     (case src of
        None \<Rightarrow> (False, [])
      | Some data \<Rightarrow>
          if src_len mod 2 \<noteq> 0 then (False, [])
          else if src_len = 0 then (True, [])
          else hex_decode_loop data src_len 0 (replicate (src_len div 2) 0))"

definition hex_decode_cstr :: "bytes option \<Rightarrow> bytes \<Rightarrow> bool \<times> bytes" where
  "hex_decode_cstr src dst =
     (case src of None \<Rightarrow> (False, dst) | Some s \<Rightarrow> hex_decode (Some s) (strlen s))"

definition hex_decode_string :: "bytes \<Rightarrow> bool \<times> bytes" where
  "hex_decode_string src = hex_decode (Some src) (length src)"

subsection \<open>The hexadecimal text of a byte\<close>

definition hex_table :: "bool \<Rightarrow> bytes" where
  "hex_table lower = (if lower then s_hex_lower_table else s_hex_upper_table)"

definition hex_pair :: "bool \<Rightarrow> byte \<Rightarrow> bytes" where
  "hex_pair lower b =
     [hex_table lower ! unat (drop_bit 4 b AND 0x0F), hex_table lower ! unat (b AND 0x0F)]"

definition is_hex :: "byte \<Rightarrow> bool" where
  "is_hex c \<longleftrightarrow> hex_index c \<le> 15"

lemma length_hex_pair [simp]: "length (hex_pair lower b) = 2"
  by (simp add: hex_pair_def)

lemma binary_to_hex_pair [codec_simps]:
  "binary_to_hex src (Some p) lower buf =
     (True, buf[p := hex_pair lower src ! 0, Suc p := hex_pair lower src ! 1])"
  by (simp add: binary_to_hex_def hex_pair_def hex_table_def)

lemma byte_and_15: "(x :: byte) AND 15 = take_bit 4 x"
  by (simp add: take_bit_eq_mask mask_eq_exp_minus_1)

lemma unat_nibble_less: "unat (take_bit 4 (x :: byte)) < 16"
  using unat_take_bit_less [of 4 x] by simp

lemma hex_index_table:
  assumes "n < 16"
  shows "hex_index (hex_table lower ! n) = of_nat n"
proof -
  have "list_all (\<lambda>n. hex_index (hex_table True ! n) = of_nat n) [0..<16]"
    "list_all (\<lambda>n. hex_index (hex_table False ! n) = of_nat n) [0..<16]"
    by (simp_all add: hex_table_def s_hex_lower_table_def s_hex_upper_table_def hex_index_def
        upt_rec)
  with assms show ?thesis
    by (cases lower) (auto simp: list_all_iff)
qed

lemma byte_of_nibbles: "push_bit 4 (take_bit 4 (drop_bit 4 b)) OR take_bit 4 b = (b :: byte)"
  by (rule bit_word_eqI) (auto simp: bit_or_iff bit_push_bit_iff bit_take_bit_iff bit_drop_bit_eq)

lemma nibble_le: "take_bit 4 (x :: byte) \<le> 15"
  using unat_nibble_less [of x] by (simp add: word_le_nat_alt)

lemma hex_pair_decode:
  "let hig = hex_index (hex_pair lower b ! 0); low = hex_index (hex_pair lower b ! 1)
   in hig \<le> 15 \<and> low \<le> 15 \<and> push_bit 4 hig OR low = b"
  by (simp add: Let_def hex_pair_def byte_and_15 hex_index_table unat_nibble_less
      nibble_le byte_of_nibbles)

subsection \<open>The loops compute the pairwise encoding\<close>

lemma two_writes:
  assumes "Suc p < length dst"
  shows "take (Suc (Suc p)) (dst[p := a, Suc p := b]) = take p dst @ [a, b]"
  using assms by (simp add: take_Suc_conv_app_nth)

lemma hex_encode_loop_spec:
  "src_len = length src \<Longrightarrow> index \<le> src_len \<Longrightarrow> length dst = src_len * 2 \<Longrightarrow>
     hex_encode_loop src src_len lower index dst =
       (True, take (index * 2) dst @ concat (map (hex_pair lower) (drop index src)))"
proof (induction src src_len lower index dst rule: hex_encode_loop.induct)
  case (1 src src_len lower index dst)
  show ?case
  proof (cases "index < src_len")
    case True
    let ?dst = "dst[index * 2 := hex_pair lower (src ! index) ! 0,
                    Suc (index * 2) := hex_pair lower (src ! index) ! 1]"
    have t: "take (Suc (Suc (index * 2))) ?dst = take (index * 2) dst @ hex_pair lower (src ! index)"
      using True "1.prems" by (subst two_writes) (auto simp: hex_pair_def)
    have "hex_encode_loop src src_len lower (Suc index) ?dst =
      (True, take (Suc index * 2) ?dst @ concat (map (hex_pair lower) (drop (Suc index) src)))"
      using True "1.prems" by (intro "1.IH") (auto simp: binary_to_hex_pair)
    then show ?thesis
      using True "1.prems" t
      by (subst hex_encode_loop.simps) (simp add: binary_to_hex_pair drop_nth_Cons)
  next
    case False
    with "1.prems" show ?thesis by (subst hex_encode_loop.simps) simp
  qed
qed

lemma hex_encode_eq [codec_simps]:
  "hex_encode (Some src) (length src) lower = (True, concat (map (hex_pair lower) src))"
  by (simp add: hex_encode_def hex_encode_loop_spec)

text \<open>What the decoder accepts and what it computes, two characters at a time.\<close>

fun unhex :: "bytes \<Rightarrow> bytes" where
  "unhex (a # b # s) = (push_bit 4 (hex_index a) OR hex_index b) # unhex s"
| "unhex _ = []"

lemma hex_to_binary_is_hex:
  "hex_to_binary txt (Some p) =
     (if is_hex (txt ! p) \<and> is_hex (txt ! Suc p)
      then Some (push_bit 4 (hex_index (txt ! p)) OR hex_index (txt ! Suc p)) else None)"
  by (auto simp: hex_to_binary_def is_hex_def Let_def not_less)

lemma drop_two_nth:
  assumes "Suc i < length xs"
  shows "drop i xs = xs ! i # xs ! Suc i # drop (Suc (Suc i)) xs"
  using assms by (simp add: Cons_nth_drop_Suc)

lemma hex_decode_loop_spec:
  "src_len = length src \<Longrightarrow> even src_len \<Longrightarrow> even index \<Longrightarrow> index \<le> src_len \<Longrightarrow>
     length dst = src_len div 2 \<Longrightarrow>
     (\<exists>out. hex_decode_loop src src_len index dst = (list_all is_hex (drop index src), out) \<and>
       (list_all is_hex (drop index src) \<longrightarrow> out = take (index div 2) dst @ unhex (drop index src)))"
proof (induction src src_len index dst rule: hex_decode_loop.induct)
  case (1 src src_len index dst)
  show ?case
  proof (cases "index < src_len")
    case True
    then have i: "Suc index < length src"
      using "1.prems" by (metis Suc_lessI even_Suc)
    show ?thesis
    proof (cases "is_hex (src ! index) \<and> is_hex (src ! Suc index)")
      case ok: True
      let ?b = "push_bit 4 (hex_index (src ! index)) OR hex_index (src ! Suc index)"
      have "take (Suc (index div 2)) (dst[index div 2 := ?b]) = take (index div 2) dst @ [?b]"
        using "1.prems" i by (intro take_Suc_update) auto
      with "1.IH" [of ?b] True ok "1.prems" i show ?thesis
        by (subst hex_decode_loop.simps) (auto simp: hex_to_binary_is_hex drop_two_nth)
    next
      case False
      with True i show ?thesis
        by (subst hex_decode_loop.simps) (auto simp: hex_to_binary_is_hex drop_two_nth)
    qed
  next
    case False
    with "1.prems" show ?thesis by (subst hex_decode_loop.simps) simp
  qed
qed

lemma hex_decode_accepts [codec_simps]:
  "fst (hex_decode (Some s) (length s)) \<longleftrightarrow> even (length s) \<and> list_all is_hex s"
  using hex_decode_loop_spec [of "length s" s 0 "replicate (length s div 2) 0"]
  by (auto simp: hex_decode_def even_iff_mod_2_eq_zero)

lemma hex_decode_eq [codec_simps]:
  "even (length s) \<Longrightarrow> list_all is_hex s \<Longrightarrow> hex_decode (Some s) (length s) = (True, unhex s)"
  using hex_decode_loop_spec [of "length s" s 0 "replicate (length s div 2) 0"]
  by (auto simp: hex_decode_def even_iff_mod_2_eq_zero)

lemma is_hex_pair: "c \<in> set (hex_pair lower b) \<Longrightarrow> is_hex c"
  using hex_pair_decode [of lower b] by (auto simp: is_hex_def Let_def hex_pair_def)

lemma list_all_hex_pairs: "list_all is_hex (concat (map (hex_pair lower) xs))"
  by (induction xs) (auto simp: list_all_iff dest: is_hex_pair)

lemma length_hex_pairs: "length (concat (map (hex_pair lower) xs)) = 2 * length xs"
  by (induction xs) auto

lemma unhex_hex_pairs: "unhex (concat (map (hex_pair lower) xs)) = xs"
proof (induction xs)
  case (Cons b xs)
  have "hex_pair lower b = [hex_pair lower b ! 0, hex_pair lower b ! 1]"
    by (simp add: hex_pair_def)
  with Cons hex_pair_decode [of lower b] show ?case
    by (metis append_Cons append_Nil concat.simps(2) list.simps(9) unhex.simps(1))
qed simp

lemma hex_table_index:
  assumes "is_hex c"
  shows "hex_table True ! unat (hex_index c) =
           (if ch (CHR ''A'') \<le> c \<and> c \<le> ch (CHR ''F'') then c + 32 else c)"
proof -
  have "48 \<le> unat c \<and> unat c < 58 \<or> 97 \<le> unat c \<and> unat c < 103 \<or> 65 \<le> unat c \<and> unat c < 71"
    using assms
    by (auto simp: is_hex_def hex_index_def word_le_nat_alt less_Suc_eq_le split: if_splits)
  then have "unat c \<in> set ([48..<58] @ [97..<103] @ [65..<71])"
    by (simp only: set_append set_upt Un_iff atLeastLessThan_iff)
  moreover have "list_all (\<lambda>n. hex_table True ! unat (hex_index (of_nat n)) =
      (if ch (CHR ''A'') \<le> (of_nat n :: byte) \<and> of_nat n \<le> ch (CHR ''F'')
       then of_nat n + 32 else of_nat n)) ([48..<58] @ [97..<103] @ [65..<71])"
    by (simp add: hex_table_def s_hex_lower_table_def hex_index_def upt_rec)
  ultimately have "hex_table True ! unat (hex_index (of_nat (unat c))) =
      (if ch (CHR ''A'') \<le> (of_nat (unat c) :: byte) \<and> of_nat (unat c) \<le> ch (CHR ''F'')
       then of_nat (unat c) + 32 else of_nat (unat c))"
    unfolding list_all_iff by blast
  then show ?thesis by simp
qed

text \<open>Lower-casing the letters of a hexadecimal text.\<close>

definition hex_lower :: "byte \<Rightarrow> byte" where
  "hex_lower c = (if ch (CHR ''A'') \<le> c \<and> c \<le> ch (CHR ''F'') then c + 32 else c)"

lemma nibbles_of_byte:
  assumes "h \<le> (15 :: byte)" "l \<le> 15"
  shows "take_bit 4 (drop_bit 4 (push_bit 4 h OR l)) = h" "take_bit 4 (push_bit 4 h OR l) = l"
proof -
  have h: "take_bit 4 h = h" and l: "take_bit 4 l = l"
    using assms by (auto intro!: take_bit_byte_self simp: word_le_nat_alt)
  have "take_bit 4 (drop_bit 4 (push_bit 4 (take_bit 4 h) OR take_bit 4 l)) = take_bit 4 h"
    "take_bit 4 (push_bit 4 (take_bit 4 h) OR take_bit 4 l) = take_bit 4 l"
    by (auto intro!: bit_word_eqI
        simp: bit_or_iff bit_push_bit_iff bit_take_bit_iff bit_drop_bit_eq)
  then show "take_bit 4 (drop_bit 4 (push_bit 4 h OR l)) = h" "take_bit 4 (push_bit 4 h OR l) = l"
    by (simp_all only: h l)
qed

lemma hex_pair_unhex:
  assumes "is_hex a" "is_hex b"
  shows "hex_pair True (push_bit 4 (hex_index a) OR hex_index b) = [hex_lower a, hex_lower b]"
  using assms
  by (simp only: hex_pair_def byte_and_15 nibbles_of_byte is_hex_def hex_lower_def
      hex_table_index [unfolded is_hex_def])

lemma hex_pairs_unhex:
  "even (length s) \<Longrightarrow> list_all is_hex s \<Longrightarrow>
     concat (map (hex_pair True) (unhex s)) = map hex_lower s"
  by (induction s rule: unhex.induct) (auto simp: hex_pair_unhex)

section \<open>Base64\<close>

definition s_base64_table :: bytes where
  "s_base64_table =
     ascii ''ABCDEFGHIJKLMNOPQRSTUVWXYZabcdefghijklmnopqrstuvwxyz0123456789+/''"

definition base64_index :: "byte \<Rightarrow> byte" where
  "base64_index symbol =
     (if ch (CHR ''A'') <=s symbol \<and> symbol <=s ch (CHR ''Z'')
        then symbol - ch (CHR ''A'') + 0
      else if ch (CHR ''a'') <=s symbol \<and> symbol <=s ch (CHR ''z'')
        then symbol - ch (CHR ''a'') + 26
      else if ch (CHR ''0'') <=s symbol \<and> symbol <=s ch (CHR ''9'')
        then symbol - ch (CHR ''0'') + 52
      else if ch (CHR ''+'') = symbol then 62
      else if ch (CHR ''/'') = symbol then 63
      else if ch (CHR ''='') = symbol then 0
      else 64)"

text \<open>
  The encoding loop keeps both indices; it returns the final \<open>dst_idx\<close> with the
  output, because the padding is written from there backwards.
\<close>

function base64_encode_loop :: "bytes \<Rightarrow> nat \<Rightarrow> nat \<Rightarrow> nat \<Rightarrow> bytes \<Rightarrow> nat \<times> bytes" where
  "base64_encode_loop src src_len src_idx dst_idx dst =
     (if src_idx < src_len then
        let len = min (src_len - src_idx) 3;
            tmp = take len (drop src_idx src) @ replicate (3 - len) (0 :: byte);
            dst = dst[dst_idx := s_base64_table ! unat (drop_bit 2 (tmp ! 0) AND 0x3F)];
            dst = dst[dst_idx + 1 := s_base64_table !
                        unat ((push_bit 4 (tmp ! 0) AND 0x30) OR (drop_bit 4 (tmp ! 1) AND 0x0F))];
            dst = dst[dst_idx + 2 := s_base64_table !
                        unat ((push_bit 2 (tmp ! 1) AND 0x3C) OR (drop_bit 6 (tmp ! 2) AND 0x03))];
            dst = dst[dst_idx + 3 := s_base64_table ! unat (tmp ! 2 AND 0x3F)]
        in base64_encode_loop src src_len (src_idx + 3) (dst_idx + 4) dst
      else (dst_idx, dst))"
  by pat_completeness auto
termination
  by (relation "measure (\<lambda>(src, src_len, src_idx, dst_idx, dst). src_len - src_idx)") auto

declare base64_encode_loop.simps [simp del]

definition base64_encode :: "bytes option \<Rightarrow> nat \<Rightarrow> bool \<times> bytes" where
  "base64_encode src src_len =
     (if src_len = 0 then (True, [])
      else case src of
        None \<Rightarrow> (False, [])
      | Some data \<Rightarrow>
          let dst_len = (src_len + 2) div 3 * 4;
              (dst_idx, dst) = base64_encode_loop data src_len 0 0 (replicate dst_len 0)
          in if src_len mod 3 = 1 then
               (True, dst[dst_idx - 1 := ch (CHR ''=''), dst_idx - 2 := ch (CHR ''='')])
             else if src_len mod 3 = 2 then (True, dst[dst_idx - 1 := ch (CHR ''='')])
             else (True, dst))"

definition base64_encode_void :: "bytes option \<Rightarrow> nat \<Rightarrow> bool \<times> bytes" where
  "base64_encode_void src src_len = base64_encode src src_len"

definition base64_encode_vector :: "bool \<Rightarrow> bytes \<Rightarrow> bool \<times> bytes" where
  "base64_encode_vector null_when_empty src =
     base64_encode (vector_data null_when_empty src) (length src)"

definition base64_encode_string :: "bytes \<Rightarrow> bool \<times> bytes" where
  "base64_encode_string src = base64_encode (Some src) (length src)"

definition base64_encode_cstr :: "bytes option \<Rightarrow> bytes \<Rightarrow> bool \<times> bytes" where
  "base64_encode_cstr src dst =
     (case src of None \<Rightarrow> (False, dst) | Some s \<Rightarrow> base64_encode (Some s) (strlen s))"

function base64_decode_loop :: "bytes \<Rightarrow> nat \<Rightarrow> nat \<Rightarrow> nat \<Rightarrow> bytes \<Rightarrow> bytes" where
  "base64_decode_loop src src_len src_idx dst_idx dst =
     (if src_idx < src_len then
        let tmp0 = base64_index (src ! src_idx);
            tmp1 = base64_index (src ! (src_idx + 1));
            tmp2 = base64_index (src ! (src_idx + 2));
            tmp3 = base64_index (src ! (src_idx + 3));
            dst = dst[dst_idx := push_bit 2 tmp0 OR drop_bit 4 tmp1];
            dst = dst[dst_idx + 1 := push_bit 4 tmp1 OR drop_bit 2 tmp2];
            dst = dst[dst_idx + 2 := push_bit 6 tmp2 OR tmp3]
        in base64_decode_loop src src_len (src_idx + 4) (dst_idx + 3) dst
      else dst)"
  by pat_completeness auto
termination
  by (relation "measure (\<lambda>(src, src_len, src_idx, dst_idx, dst). src_len - src_idx)") auto

declare base64_decode_loop.simps [simp del]

definition base64_decode :: "bytes option \<Rightarrow> nat \<Rightarrow> bool \<times> bytes" where
  "base64_decode src src_len =
     (case src of
        None \<Rightarrow> (False, [])
      | Some data \<Rightarrow>
          if src_len mod 4 \<noteq> 0 then (False, [])
          else if src_len = 0 then (True, [])
          else if ch (CHR ''='') \<in> set (take (src_len - 2) data) then (False, [])
          else if base64_index (data ! (src_len - 1)) > 63 \<or> base64_index (data ! (src_len - 2)) > 63
            then (False, [])
          else if data ! (src_len - 1) \<noteq> ch (CHR ''='') \<and> data ! (src_len - 2) = ch (CHR ''='')
            then (False, [])
          else
            let pad_len = (if data ! (src_len - 1) = ch (CHR ''='')
                           then if data ! (src_len - 2) = ch (CHR ''='') then 2 else 1
                           else 0);
                dst_len = (src_len + 3) div 4 * 3;
                dst = base64_decode_loop data src_len 0 0 (replicate dst_len 0)
            in (True, take (dst_len - pad_len) dst))"

definition base64_decode_cstr :: "bytes option \<Rightarrow> bytes \<Rightarrow> bool \<times> bytes" where
  "base64_decode_cstr src dst =
     (case src of None \<Rightarrow> (False, dst) | Some s \<Rightarrow> base64_decode (Some s) (strlen s))"

definition base64_decode_string :: "bytes \<Rightarrow> bool \<times> bytes" where
  "base64_decode_string src = base64_decode (Some src) (length src)"

subsection \<open>The base64 text as 24-bit groups\<close>

text \<open>
  The specification of the encoding (RFC 4648): three bytes form a 24-bit word, read
  off as four 6-bit values from the most significant end.
\<close>

definition group24 :: "byte \<Rightarrow> byte \<Rightarrow> byte \<Rightarrow> 24 word" where
  "group24 a b c = push_bit 16 (ucast a) OR push_bit 8 (ucast b) OR ucast c"

definition sextet :: "nat \<Rightarrow> 24 word \<Rightarrow> byte" where
  "sextet k g = ucast (take_bit 6 (drop_bit (18 - 6 * k) g))"

definition b64_char :: "nat \<Rightarrow> 24 word \<Rightarrow> byte" where
  "b64_char k g = s_base64_table ! unat (sextet k g)"

definition quad :: "byte \<Rightarrow> byte \<Rightarrow> byte \<Rightarrow> bytes" where
  "quad a b c = map (\<lambda>k. b64_char k (group24 a b c)) [0, 1, 2, 3]"

fun b64_text :: "bytes \<Rightarrow> bytes" where
  "b64_text [] = []"
| "b64_text [a] = take 2 (quad a 0 0) @ ascii ''==''"
| "b64_text [a, b] = take 3 (quad a b 0) @ ascii ''=''"
| "b64_text (a # b # c # s) = quad a b c @ b64_text s"

lemma byte_bit_cases:
  "n < LENGTH(8) \<Longrightarrow> n = 0 \<or> n = 1 \<or> n = 2 \<or> n = 3 \<or> n = 4 \<or> n = 5 \<or> n = 6 \<or> n = (7 :: nat)"
  by auto

lemmas sextet_bits = sextet_def group24_def bit_or_iff bit_and_iff bit_push_bit_iff
  bit_ucast_iff bit_drop_bit_eq bit_take_bit_iff byte_bit_high

lemma sextet_exprs [codec_simps]:
  "drop_bit 2 a AND 0x3F = sextet 0 (group24 a b c)"
  "(push_bit 4 a AND 0x30) OR (drop_bit 4 b AND 0x0F) = sextet 1 (group24 a b c)"
  "(push_bit 2 b AND 0x3C) OR (drop_bit 6 c AND 0x03) = sextet 2 (group24 a b c)"
  "c AND 0x3F = sextet 3 (group24 a b c)"
  by (rule bit_word_eqI, drule byte_bit_cases, elim disjE, simp_all add: sextet_bits)+

text \<open>The decoder's three byte expressions put a group together again.\<close>

lemma group_exprs [codec_simps]:
  "push_bit 2 (sextet 0 (group24 a b c)) OR drop_bit 4 (sextet 1 (group24 a b c)) = a"
  "push_bit 4 (sextet 1 (group24 a b c)) OR drop_bit 2 (sextet 2 (group24 a b c)) = b"
  "push_bit 6 (sextet 2 (group24 a b c)) OR sextet 3 (group24 a b c) = c"
  by (rule bit_word_eqI, drule byte_bit_cases, elim disjE, simp_all add: sextet_bits)+

lemma b64_char_exprs:
  "b64_char 0 (group24 a b c) = s_base64_table ! unat (drop_bit 2 a AND 0x3F)"
  "b64_char (Suc 0) (group24 a b c) =
     s_base64_table ! unat ((push_bit 4 a AND 0x30) OR (drop_bit 4 b AND 0x0F))"
  "b64_char 2 (group24 a b c) =
     s_base64_table ! unat ((push_bit 2 b AND 0x3C) OR (drop_bit 6 c AND 0x03))"
  "b64_char 3 (group24 a b c) = s_base64_table ! unat (c AND 0x3F)"
  using sextet_exprs(1,2) [where a = a and b = b and c = c]
    sextet_exprs(3,4) [where a = a and b = b and c = c]
  by (simp_all only: b64_char_def One_nat_def)

lemma unat_sextet_less: "unat (sextet k g) < 64"
proof -
  have "sextet k g = take_bit 6 (sextet k g)"
    by (rule bit_word_eqI) (simp add: sextet_def bit_ucast_iff bit_take_bit_iff)
  then show ?thesis
    using unat_take_bit_less [of 6 "sextet k g"] by simp
qed

lemma base64_index_table:
  assumes "n < 64"
  shows "base64_index (s_base64_table ! n) = of_nat n \<and> s_base64_table ! n \<noteq> ch (CHR ''='')"
proof -
  have "list_all (\<lambda>n. base64_index (s_base64_table ! n) = of_nat n \<and>
      s_base64_table ! n \<noteq> ch (CHR ''='')) [0..<64]"
    by (simp add: s_base64_table_def base64_index_def upt_rec)
  with assms show ?thesis by (simp only: list_all_iff set_upt atLeastLessThan_iff) simp
qed

lemma base64_index_char: "base64_index (b64_char k g) = sextet k g"
  using base64_index_table [OF unat_sextet_less] by (simp add: b64_char_def)

lemma b64_char_neq_pad: "b64_char k g \<noteq> ch (CHR ''='')"
  using base64_index_table [OF unat_sextet_less] unfolding b64_char_def by blast

lemma base64_index_pad [simp]: "base64_index 61 = 0"
  by (simp add: base64_index_def)

lemma sextet_le: "sextet k g \<le> 63"
  using unat_sextet_less [of k g] by (simp add: word_le_nat_alt)

subsection \<open>The encoding loop\<close>

text \<open>What the loop leaves in the output before the padding: absent bytes read as zero.\<close>

fun b64_raw :: "bytes \<Rightarrow> bytes" where
  "b64_raw [] = []"
| "b64_raw [a] = quad a 0 0"
| "b64_raw [a, b] = quad a b 0"
| "b64_raw (a # b # c # s) = quad a b c @ b64_raw s"

lemma length_quad [simp]: "length (quad a b c) = 4"
  by (simp add: quad_def)

lemma groups_of_3: "(5 + n) div 3 = Suc (Suc (Suc n) div (3 :: nat))"
proof -
  have "(5 + n) div 3 = (Suc (Suc n) + 3) div 3" by simp
  then show ?thesis by (simp only: div_add_self2)
qed

lemma length_b64_raw: "length (b64_raw s) = (length s + 2) div 3 * 4"
  by (induction s rule: b64_raw.induct) (auto simp: groups_of_3)

lemma length_b64_text: "length (b64_text s) = (length s + 2) div 3 * 4"
  by (induction s rule: b64_text.induct) (auto simp: groups_of_3)

lemma four_writes:
  assumes "p + 3 < length dst"
  shows "take (p + 4) (dst[p := w, p + 1 := x, p + 2 := y, p + 3 := z]) = take p dst @ [w, x, y, z]"
  using assms
  by (intro nth_equalityI) (auto simp: nth_append nth_list_update nth_Cons' )

lemma base64_encode_loop_spec:
  "src_len = length src \<Longrightarrow> dst_idx + length (b64_raw (drop src_idx src)) = length dst \<Longrightarrow>
     base64_encode_loop src src_len src_idx dst_idx dst =
       (length dst, take dst_idx dst @ b64_raw (drop src_idx src))"
proof (induction src src_len src_idx dst_idx dst rule: base64_encode_loop.induct)
  case (1 src src_len src_idx dst_idx dst)
  show ?case
  proof (cases "src_idx < src_len")
    case True
    define tmp where "tmp = take (min (src_len - src_idx) 3) (drop src_idx src) @
      replicate (3 - min (src_len - src_idx) 3) (0 :: byte)"
    have len: "length tmp = 3" using True "1.prems" by (simp add: tmp_def)
    let ?dst = "dst[dst_idx := b64_char 0 (group24 (tmp ! 0) (tmp ! 1) (tmp ! 2)),
      dst_idx + 1 := b64_char 1 (group24 (tmp ! 0) (tmp ! 1) (tmp ! 2)),
      dst_idx + 2 := b64_char 2 (group24 (tmp ! 0) (tmp ! 1) (tmp ! 2)),
      dst_idx + 3 := b64_char 3 (group24 (tmp ! 0) (tmp ! 1) (tmp ! 2))]"
    have raw: "b64_raw (drop src_idx src) = quad (tmp ! 0) (tmp ! 1) (tmp ! 2) @
        b64_raw (drop (src_idx + 3) src)"
    proof -
      define r where "r = drop src_idx src"
      have "r \<noteq> []" "src_len - src_idx = length r" "drop (src_idx + 3) src = drop 3 r"
        using True "1.prems"(1) by (auto simp: r_def add.commute)
      then show ?thesis
        unfolding tmp_def r_def [symmetric] by (cases r rule: b64_raw.cases) (auto simp: numeral_3_eq_3)
    qed
    have room: "dst_idx + 3 < length dst" using raw "1.prems"(2) by simp
    have "base64_encode_loop src src_len (src_idx + 3) (dst_idx + 4) ?dst =
       (length ?dst, take (dst_idx + 4) ?dst @ b64_raw (drop (src_idx + 3) src))"
      using True "1.prems" raw
      by (intro "1.IH" [OF True refl tmp_def refl refl refl]) (auto simp: b64_char_exprs)
    then show ?thesis
      using True raw room
      by (subst base64_encode_loop.simps)
        (simp add: Let_def tmp_def [symmetric] b64_char_exprs four_writes [simplified] quad_def)
  next
    case False
    with "1.prems" show ?thesis by (subst base64_encode_loop.simps) simp
  qed
qed


text \<open>The switch on \<open>src_len % 3\<close> turns the raw text into the padded one.\<close>

definition pad_text :: "nat \<Rightarrow> bytes \<Rightarrow> bytes" where
  "pad_text n t =
     (if n mod 3 = 1 then t[length t - 1 := ch (CHR ''=''), length t - 2 := ch (CHR ''='')]
      else if n mod 3 = 2 then t[length t - 1 := ch (CHR ''='')] else t)"

lemma pad_text_append:
  "3 dvd m \<Longrightarrow> 2 \<le> length t \<Longrightarrow> pad_text (m + n) (s @ t) = s @ pad_text n t"
  by (auto simp: pad_text_def list_update_append dvd_def)

lemma pad_text_raw: "pad_text (length s) (b64_raw s) = b64_text s"
proof (induction s rule: b64_text.induct)
  case (4 a b c s)
  show ?case
  proof (cases s)
    case Nil
    then show ?thesis by (simp add: pad_text_def)
  next
    case (Cons x xs)
    then have "2 \<le> length (b64_raw s)" by (cases s rule: b64_raw.cases) auto
    with 4 show ?thesis
      using pad_text_append [of 3 "b64_raw s" "length s" "quad a b c"]
      by (simp add: numeral_3_eq_3)
  qed
qed (simp_all add: pad_text_def quad_def)

lemma base64_encode_eq [codec_simps]:
  "base64_encode (Some s) (length s) = (True, b64_text s)"
proof (cases "s = []")
  case False
  have "base64_encode_loop s (length s) 0 0 (replicate ((length s + 2) div 3 * 4) 0) =
      (length (b64_raw s), b64_raw s)"
    by (subst base64_encode_loop_spec) (auto simp: length_b64_raw)
  with False pad_text_raw [of s] show ?thesis
    by (auto simp: base64_encode_def pad_text_def Let_def split: if_splits)
qed (simp add: base64_encode_def)

subsection \<open>The decoding loop\<close>

fun unb64 :: "bytes \<Rightarrow> bytes" where
  "unb64 (a # b # c # d # s) =
     (push_bit 2 (base64_index a) OR drop_bit 4 (base64_index b))
     # (push_bit 4 (base64_index b) OR drop_bit 2 (base64_index c))
     # (push_bit 6 (base64_index c) OR base64_index d) # unb64 s"
| "unb64 _ = []"

lemma three_writes:
  assumes "p + 2 < length dst"
  shows "take (p + 3) (dst[p := w, p + 1 := x, p + 2 := y]) = take p dst @ [w, x, y]"
  using assms by (intro nth_equalityI) (auto simp: nth_append nth_list_update nth_Cons')

lemma drop_four_nth:
  assumes "i + 3 < length xs"
  shows "drop i xs = xs ! i # xs ! (i + 1) # xs ! (i + 2) # xs ! (i + 3) # drop (i + 4) xs"
  using assms by (simp add: Cons_nth_drop_Suc eval_nat_numeral)

lemma groups_of_4:
  "4 dvd Suc (Suc (Suc (Suc n))) \<longleftrightarrow> 4 dvd n"
  "Suc (Suc (Suc (Suc n))) div 4 = Suc (n div 4)"
proof -
  have n: "Suc (Suc (Suc (Suc n))) = n + 4" by simp
  show "4 dvd Suc (Suc (Suc (Suc n))) \<longleftrightarrow> 4 dvd n" unfolding n by simp
  show "Suc (Suc (Suc (Suc n))) div 4 = Suc (n div 4)" unfolding n by (subst div_add_self2) auto
qed

lemma length_unb64: "4 dvd length s \<Longrightarrow> length (unb64 s) = length s div 4 * 3"
  by (induction s rule: unb64.induct) (auto simp: groups_of_4)

lemma base64_decode_loop_spec:
  "src_len = length src \<Longrightarrow> 4 dvd src_len - src_idx \<Longrightarrow>
     dst_idx + length (unb64 (drop src_idx src)) = length dst \<Longrightarrow>
     base64_decode_loop src src_len src_idx dst_idx dst =
       take dst_idx dst @ unb64 (drop src_idx src)"
proof (induction src src_len src_idx dst_idx dst rule: base64_decode_loop.induct)
  case (1 src src_len src_idx dst_idx dst)
  show ?case
  proof (cases "src_idx < src_len")
    case True
    obtain k where k: "src_len - src_idx = 4 * k" using "1.prems"(2) by (auto simp: dvd_def)
    with True have "0 < k" by (cases k) auto
    with k True "1.prems"(1) have i: "src_idx + 3 < length src" by linarith
    have k': "4 dvd src_len - (src_idx + 4)"
      using k \<open>0 < k\<close> by (intro dvdI [of _ _ "k - 1"]) (simp add: diff_mult_distrib2)
    let ?t = "\<lambda>j. base64_index (src ! (src_idx + j))"
    let ?dst = "dst[dst_idx := push_bit 2 (base64_index (src ! src_idx)) OR drop_bit 4 (?t 1),
      dst_idx + 1 := push_bit 4 (?t 1) OR drop_bit 2 (?t 2),
      dst_idx + 2 := push_bit 6 (?t 2) OR ?t 3]"
    have d: "unb64 (drop src_idx src) =
        [push_bit 2 (base64_index (src ! src_idx)) OR drop_bit 4 (?t 1),
         push_bit 4 (?t 1) OR drop_bit 2 (?t 2), push_bit 6 (?t 2) OR ?t 3] @
        unb64 (drop (src_idx + 4) src)"
      by (simp add: drop_four_nth [OF i])
    then have room: "dst_idx + 2 < length dst" using "1.prems"(3) by simp
    have "base64_decode_loop src src_len (src_idx + 4) (dst_idx + 3) ?dst =
        take (dst_idx + 3) ?dst @ unb64 (drop (src_idx + 4) src)"
      using d True "1.prems" k' by (intro "1.IH" [OF True refl refl refl refl refl refl refl]) auto
    then show ?thesis
      unfolding d three_writes [OF room]
      by (subst base64_decode_loop.simps) (simp only: True Let_def if_True append_assoc)
  next
    case False
    with "1.prems" show ?thesis by (subst base64_decode_loop.simps) simp
  qed
qed

text \<open>
  When a buffer is accepted, in the code's own terms: the length, the absence of the
  padding character before the last two positions, and the tests on these two. The
  other characters are not looked at.
\<close>

definition b64_accepts :: "bytes \<Rightarrow> bool" where
  "b64_accepts s \<longleftrightarrow>
     length s mod 4 = 0 \<and>
     (s = [] \<or>
      ch (CHR ''='') \<notin> set (take (length s - 2) s) \<and>
      base64_index (s ! (length s - 1)) \<le> 63 \<and> base64_index (s ! (length s - 2)) \<le> 63 \<and>
      (s ! (length s - 2) = ch (CHR ''='') \<longrightarrow> s ! (length s - 1) = ch (CHR ''='')))"

definition b64_pad :: "bytes \<Rightarrow> nat" where
  "b64_pad s =
     (if s = [] then 0
      else if s ! (length s - 1) = ch (CHR ''='')
      then if s ! (length s - 2) = ch (CHR ''='') then 2 else 1 else 0)"

lemma base64_decode_eq [codec_simps]:
  "base64_decode (Some s) (length s) =
     (if b64_accepts s then (True, take (length s div 4 * 3 - b64_pad s) (unb64 s)) else (False, []))"
proof (cases "length s mod 4 = 0 \<and> s \<noteq> []")
  case True
  then have d: "4 dvd length s" by (simp add: mod_eq_0_iff_dvd)
  then have "(length s + 3) div 4 = length s div 4" by (auto simp: dvd_def)
  with d have "base64_decode_loop s (length s) 0 0 (replicate ((length s + 3) div 4 * 3) 0) = unb64 s"
    by (subst base64_decode_loop_spec) (auto simp: length_unb64)
  with True \<open>(length s + 3) div 4 = length s div 4\<close> show ?thesis
    by (auto simp: base64_decode_def b64_accepts_def b64_pad_def Let_def not_less)
qed (auto simp: base64_decode_def b64_accepts_def)


subsection \<open>Decoding an encoded buffer\<close>

lemma quad_decode [codec_simps]:
  "unb64 (quad a b c @ s) = a # b # c # unb64 s"
  "unb64 (take 2 (quad a b c) @ ascii ''==''  ) =
     unb64 [b64_char 0 (group24 a b c), b64_char 1 (group24 a b c), ch (CHR ''=''), ch (CHR ''='')]"
  "unb64 (take 3 (quad a b c) @ ascii ''='' ) =
     unb64 [b64_char 0 (group24 a b c), b64_char 1 (group24 a b c), b64_char 2 (group24 a b c),
       ch (CHR ''='')]"
  by (simp_all add: quad_def base64_index_char group_exprs [unfolded One_nat_def])

lemma sextet_zero_low:
  "sextet 2 (group24 a 0 0) = 0" "sextet 3 (group24 a 0 0) = 0" "sextet 3 (group24 a b 0) = 0"
  by (rule bit_word_eqI, drule byte_bit_cases, elim disjE, simp_all add: sextet_bits)+

lemma unb64_text:
  "take (length s) (unb64 (b64_text s)) = s"
proof (induction s rule: b64_text.induct)
  case (2 a)
  show ?case
    using group_exprs(1) [of a 0 0]
    by (simp add: quad_def base64_index_char)
next
  case (3 a b)
  show ?case
    using group_exprs(1,2) [of a b 0] 
    by (simp add: quad_def base64_index_char)
qed (simp_all add: quad_decode)

text \<open>The characters of a text, given by position: alphabet first, padding last.\<close>

definition b64_shape :: "nat \<Rightarrow> bytes \<Rightarrow> bool" where
  "b64_shape n t \<longleftrightarrow>
     2 \<le> length t \<and> ch (CHR ''='') \<notin> set (take (length t - 2) t) \<and>
     base64_index (t ! (length t - 1)) \<le> 63 \<and> base64_index (t ! (length t - 2)) \<le> 63 \<and>
     (t ! (length t - 2) = ch (CHR ''='') \<longleftrightarrow> n mod 3 = 1) \<and>
     (t ! (length t - 1) = ch (CHR ''='') \<longleftrightarrow> n mod 3 \<noteq> 0)"

lemma mod_3_Suc: "Suc (Suc (Suc n)) mod 3 = n mod 3"
proof -
  have "Suc (Suc (Suc n)) = n + 3" by simp
  then show ?thesis by (simp only: mod_add_self2)
qed

lemma b64_shape_append:
  assumes "b64_shape n t" "ch (CHR ''='') \<notin> set q"
  shows "b64_shape (Suc (Suc (Suc n))) (q @ t)"
proof -
  have "length (q @ t) - 2 - length q = length t - 2"
    "length (q @ t) - 1 - length q = length t - 1"
    "length q \<le> length (q @ t) - 2" "length q \<le> length (q @ t) - 1"
    using assms(1) by (auto simp: b64_shape_def)
  moreover have "set (take (length (q @ t) - 2) (q @ t)) \<subseteq> set q \<union> set (take (length t - 2) t)"
    using calculation by (auto simp: take_append dest: in_set_takeD)
  moreover have "(q @ t) ! (length (q @ t) - 1) = t ! (length t - 1)"
    "(q @ t) ! (length (q @ t) - 2) = t ! (length t - 2)"
    using calculation by (simp_all only: nth_append not_less [symmetric] if_False)
  ultimately show ?thesis
    using assms mod_3_Suc [of n] unfolding b64_shape_def by auto
qed

lemma b64_text_shape: "s \<noteq> [] \<Longrightarrow> b64_shape (length s) (b64_text s)"
proof (induction s rule: b64_text.induct)
  case (4 a b c s)
  have q: "ch (CHR ''='') \<notin> set (quad a b c)"
    using b64_char_neq_pad by (auto simp: quad_def)
  show ?case
  proof (cases "s = []")
    case True
    then show ?thesis
      using b64_char_neq_pad by (auto simp: b64_shape_def quad_def base64_index_char sextet_le)
  next
    case False
    with 4 q b64_shape_append show ?thesis by simp
  qed
qed (use b64_char_neq_pad in \<open>auto simp: b64_shape_def quad_def base64_index_char sextet_le\<close>)

lemma b64_text_nil [simp]: "b64_text s = [] \<longleftrightarrow> s = []"
  by (cases s rule: b64_text.cases) (auto simp: quad_def)

lemma mod_3_cases: "n mod 3 = 0 \<or> n mod 3 = 1 \<or> n mod 3 = (2 :: nat)"
  by linarith

lemma b64_text_accepted: "b64_accepts (b64_text s)"
  using b64_text_shape [of s]
  by (cases "s = []") (auto simp: b64_accepts_def b64_shape_def length_b64_text)

lemma b64_text_pad:
  assumes "s \<noteq> []"
  shows "b64_pad (b64_text s) = (if length s mod 3 = 1 then 2 else if length s mod 3 = 2 then 1 else 0)"
  using b64_text_shape [OF assms] mod_3_cases [of "length s"] assms
  by (auto simp: b64_pad_def b64_shape_def)

lemma b64_text_decoded_length:
  assumes "s \<noteq> []"
  shows "length (b64_text s) div 4 * 3 - b64_pad (b64_text s) = length s"
proof -
  define k where "k = length s div 3"
  have "length s = k * 3 + length s mod 3" by (simp add: k_def)
  then consider "length s mod 3 = 0" "length s = k * 3" | "length s mod 3 = 1" "length s = k * 3 + 1"
    | "length s mod 3 = 2" "length s = k * 3 + 2"
    using mod_3_cases [of "length s"] by auto
  then show ?thesis
    by cases (simp_all only: b64_text_pad [OF assms] length_b64_text, simp_all)
qed

lemma base64_round_trip:
  "base64_decode (Some (b64_text s)) (length (b64_text s)) = (True, s)"
proof (cases "s = []")
  case False
  then show ?thesis
    by (simp add: base64_decode_eq b64_text_accepted b64_text_decoded_length unb64_text)
qed (simp add: base64_decode_def)


section \<open>The contract of a text codec\<close>

text \<open>
  Both codecs promise the same to their callers: encoding always succeeds, the text
  has no NUL byte (so it survives a C string), and decoding gives the bytes back.
\<close>

locale text_codec =
  fixes enc :: "bytes \<Rightarrow> bool \<times> bytes"
    and dec :: "bytes \<Rightarrow> bool \<times> bytes"
  assumes enc_ok: "fst (enc s)"
    and enc_no_nul: "0 \<notin> set (snd (enc s))"
    and dec_enc: "dec (snd (enc s)) = (True, s)"
begin

lemma enc_inject: "enc s = enc t \<longleftrightarrow> s = t"
  by (metis dec_enc snd_conv)

lemma enc_result: "enc s = (True, snd (enc s))"
  using enc_ok [of s] by (cases "enc s") simp

lemma c_string_length: "strlen (snd (enc s)) = length (snd (enc s))"
  by (rule strlen_no_nul) (rule enc_no_nul)

lemma dec_onto: "\<exists>t. dec t = (True, s)"
  using dec_enc by blast

end

lemma b64_char_neq_nul: "b64_char k g \<noteq> 0"
proof -
  have "list_all (\<lambda>n. s_base64_table ! n \<noteq> 0) [0..<64]"
    by (simp add: s_base64_table_def upt_rec)
  then have "s_base64_table ! n \<noteq> 0" if "n < 64" for n
    using that by (simp only: list_all_iff set_upt atLeastLessThan_iff) simp
  then show ?thesis by (simp add: b64_char_def unat_sextet_less)
qed

lemma b64_text_no_nul: "0 \<notin> set (b64_text s)"
  by (induction s rule: b64_text.induct)
    (use b64_char_neq_nul in \<open>auto simp: quad_def\<close>)

lemma hex_pair_no_nul: "0 \<notin> set (hex_pair lower b)"
  using is_hex_pair [of 0 lower b] by (auto simp: is_hex_def hex_index_def)

lemma hex_round_trip:
  "hex_decode (Some (concat (map (hex_pair lower) s))) (2 * length s) = (True, s)"
  using hex_decode_eq [of "concat (map (hex_pair lower) s)"]
  by (simp add: length_hex_pairs list_all_hex_pairs unhex_hex_pairs)

interpretation lower_hex: text_codec "\<lambda>s. hex_encode_string s True" hex_decode_string
  by unfold_locales
    (auto simp: hex_encode_string_def hex_decode_string_def hex_encode_eq hex_round_trip
      length_hex_pairs hex_pair_no_nul)

interpretation upper_hex: text_codec "\<lambda>s. hex_encode_string s False" hex_decode_string
  by unfold_locales
    (auto simp: hex_encode_string_def hex_decode_string_def hex_encode_eq hex_round_trip
      length_hex_pairs hex_pair_no_nul)

interpretation base64: text_codec base64_encode_string base64_decode_string
  by unfold_locales
    (auto simp: base64_encode_string_def base64_decode_string_def base64_encode_eq
      base64_round_trip b64_text_no_nul)

section \<open>Properties\<close>

text \<open>
  C7: base64 round trip. Every byte string is encoded successfully, to a text of four
  characters per started group of three bytes, and decoding the text, as a string or
  as a C string, gives the bytes back.
\<close>

theorem base64_decode_encode:
  "\<exists>t. base64_encode_string s = (True, t) \<and> length t = (length s + 2) div 3 * 4 \<and>
       base64_decode_string t = (True, s) \<and> base64_decode_cstr (Some t) old = (True, s)"
  using base64.enc_result [of s] base64.dec_enc [of s] base64.c_string_length [of s]
  by (auto simp: base64_decode_cstr_def base64_decode_string_def base64_encode_string_def
      base64_encode_eq length_b64_text)



text \<open>
  Characters outside the base64 alphabet are accepted everywhere but in the last
  two positions: such a text is decoded, not rejected.
\<close>

theorem base64_decode_accepts_foreign_characters:
  assumes "length t mod 4 = 2" and "ch (CHR ''='') \<notin> set t"
  shows "fst (base64_decode_string (t @ ascii ''AA''))"
proof -
  have "length (t @ ascii ''AA'') mod 4 = 0"
    using assms(1) mod_add_cong [of "length t" 4 2 2 2] by simp
  moreover have "base64_index (ch (CHR ''A'')) = 0"
    by (simp add: base64_index_def)
  ultimately show ?thesis
    using assms(2) unfolding base64_decode_string_def base64_decode_eq b64_accepts_def
    by (simp add: nth_append)
qed

theorem base64_decode_accepts_foreign_characters_witness:
  "base64_index 33 = 64 \<and> fst (base64_decode_string ([33, 33] @ ascii ''AA''))"
  using base64_decode_accepts_foreign_characters [of "[33, 33]"] by (simp add: base64_index_def)

text \<open>
  Hexadecimal round trip, in either case, as a string or as a C string.
\<close>

theorem hex_decode_encode:
  "\<exists>t. hex_encode_string s lower = (True, t) \<and> length t = 2 * length s \<and>
       hex_decode_string t = (True, s) \<and> hex_decode_cstr (Some t) old = (True, s)"
  using lower_hex.dec_enc [of s] lower_hex.c_string_length [of s]
    upper_hex.dec_enc [of s] upper_hex.c_string_length [of s]
  by (cases lower) (auto simp: hex_decode_cstr_def hex_decode_string_def hex_encode_string_def
      hex_encode_eq length_hex_pairs)


end
