(* ===== verification/Etcp_Frame.thy ===== *)
theory Etcp_Frame
  imports Base "HOL-Library.Sublist"
begin

text \<open>
  The ETCP wire format, shared by src/etcp_client and src/etcp_server: a packed
  six-byte header (16-bit sign, 32-bit size, network order) before every packet.
  \<open>EtcpHeader\<close> of the client and \<open>EtcpPrefix\<close> of the server are the same structure;
  the header is modelled once. \<open>deframe\<close> is the specification of a receiver: the
  packets in a byte stream and why it stopped.
\<close>

section \<open>The header\<close>

record etcp_header =
  hdr_sign :: u16
  hdr_size :: u32

definition PROTOCOL_SIGN :: u16 where
  "PROTOCOL_SIGN = 0x4554"

text \<open>The packed structure in the memory of a host, and a buffer read as one.\<close>

definition header_mem :: "bool \<Rightarrow> etcp_header \<Rightarrow> bytes" where
  "header_mem little h = mem16 little (hdr_sign h) @ mem32 little (hdr_size h)"

definition header_at :: "bool \<Rightarrow> bytes \<Rightarrow> etcp_header" where
  "header_at little bs =
     \<lparr>hdr_sign = load16 little (take 2 bs), hdr_size = load32 little (take 4 (drop 2 bs))\<rparr>"

definition header_encode :: "bool \<Rightarrow> etcp_header \<Rightarrow> etcp_header" where
  "header_encode little h =
     \<lparr>hdr_sign = load16 little (host_to_net little (mem16 little (hdr_sign h)) 2),
      hdr_size = load32 little (host_to_net little (mem32 little (hdr_size h)) 4)\<rparr>"

definition header_decode :: "bool \<Rightarrow> etcp_header \<Rightarrow> etcp_header" where
  "header_decode little h =
     \<lparr>hdr_sign = load16 little (net_to_host little (mem16 little (hdr_sign h)) 2),
      hdr_size = load32 little (net_to_host little (mem32 little (hdr_size h)) 4)\<rparr>"

text \<open>
  The header built in front of a packet of \<open>n\<close> bytes. The size is cast to 32 bits.
\<close>

definition packet_head :: "bool \<Rightarrow> nat \<Rightarrow> bytes" where
  "packet_head little n =
     header_mem little (header_encode little \<lparr>hdr_sign = PROTOCOL_SIGN, hdr_size = of_nat n\<rparr>)"

definition frame :: "bool \<Rightarrow> bytes \<Rightarrow> bytes" where
  "frame little pack = packet_head little (length pack) @ pack"

lemma length_packet_head [simp]: "length (packet_head little n) = 6"
  by (simp add: packet_head_def header_mem_def)

lemma packet_head_bytes:
  "packet_head little n = mem16 False PROTOCOL_SIGN @ mem32 False (of_nat n)"
  by (simp add: packet_head_def header_mem_def header_encode_def host_to_net_mem16 host_to_net_mem32)

text \<open>Reading the header back, on a host of either byte order.\<close>

definition read_header :: "bool \<Rightarrow> bytes \<Rightarrow> etcp_header" where
  "read_header little bs = header_decode little (header_at little bs)"

lemma read_packet_head [simp]:
  "read_header little (packet_head little' n) = \<lparr>hdr_sign = PROTOCOL_SIGN, hdr_size = of_nat n\<rparr>"
  by (simp add: read_header_def header_decode_def header_at_def packet_head_bytes
      net_to_host_mem16 net_to_host_mem32)

text \<open>Both directions, computed without the byte order of the host.\<close>

lemma ucast_of_nat_drop:
  assumes "k + 8 \<le> 32"
  shows "ucast (drop_bit k (of_nat n :: u32)) = (of_nat (n div 2 ^ k) :: byte)"
  by (rule bit_word_eqI)
    (use assms in \<open>simp add: bit_ucast_iff bit_drop_bit_eq bit_of_nat_iff drop_bit_eq_div [symmetric]\<close>)

lemma packet_head_code [code]:
  "packet_head little n =
     [0x45, 0x54, of_int (int n div 0x1000000), of_int (int n div 0x10000),
      of_int (int n div 0x100), of_int (int n)]"
proof -
  have "(of_nat (n div 2 ^ k) :: byte) = of_int (int n div 2 ^ k)" for k
    by (metis of_int_of_nat_eq of_nat_numeral of_nat_power zdiv_int)
  from this [of 24] this [of 16] this [of 8] show ?thesis
    using ucast_of_nat_drop [of 24 n] ucast_of_nat_drop [of 16 n] ucast_of_nat_drop [of 8 n]
      ucast_of_nat_drop [of 0 n]
    by (simp add: packet_head_bytes mem16_def mem32_def PROTOCOL_SIGN_def Let_def)
qed

lemma read_header_code [code]:
  "read_header little bs =
     (if length bs = 6
      then \<lparr>hdr_sign = load16 False (take 2 bs), hdr_size = load32 False (take 4 (drop 2 bs))\<rparr>
      else header_decode little (header_at little bs))"
proof -
  have "net_to_host little (mem16 little (load16 little x)) 2 = mem16 little (load16 False x)"
    if "length x = 2" for x
    using net_to_host_mem16 [of little "load16 False x"] that by simp
  moreover have "net_to_host little (mem32 little (load32 little x)) 4 = mem32 little (load32 False x)"
    if "length x = 4" for x
    using net_to_host_mem32 [of little "load32 False x"] that by simp
  ultimately show ?thesis
    by (simp add: read_header_def header_decode_def header_at_def)
qed

section \<open>Packets in a byte stream\<close>

datatype stream_end = Need_more bytes | Bad_sign

function deframe :: "bool \<Rightarrow> bytes \<Rightarrow> bytes list \<times> stream_end" where
  "deframe little bs =
     (if length bs < 6 then ([], Need_more bs)
      else
        let h = read_header little (take 6 bs);
            body = drop 6 bs;
            n = unat (hdr_size h)
        in if hdr_sign h \<noteq> PROTOCOL_SIGN then ([], Bad_sign)
           else if n = 0 then deframe little body
           else if length body < n then ([], Need_more bs)
           else (take n body # fst (deframe little (drop n body)), snd (deframe little (drop n body))))"
  by pat_completeness auto
termination
  by (relation "measure (\<lambda>(little, bs). length bs)") auto

declare deframe.simps [simp del]

lemma deframe_short [simp]: "length bs < 6 \<Longrightarrow> deframe little bs = ([], Need_more bs)"
  by (subst deframe.simps) simp

lemma deframe_head:
  assumes "length h = 6"
  shows "deframe little (h @ bs) =
    (let n = unat (hdr_size (read_header little h)) in
     if hdr_sign (read_header little h) \<noteq> PROTOCOL_SIGN then ([], Bad_sign)
     else if n = 0 then deframe little bs
     else if length bs < n then ([], Need_more (h @ bs))
     else (take n bs # fst (deframe little (drop n bs)), snd (deframe little (drop n bs))))"
  using assms by (subst deframe.simps) (simp add: Let_def)

text \<open>Packets that the header can describe: not empty and below 4 GiB.\<close>

definition sendable :: "bytes \<Rightarrow> bool" where
  "sendable p \<longleftrightarrow> p \<noteq> [] \<and> length p < 2 ^ 32"

lemma unat_of_size: "length p < 2 ^ 32 \<Longrightarrow> unat (of_nat (length p) :: u32) = length p"
  by (simp add: unat_of_nat)

lemma deframe_frame:
  assumes "sendable p"
  shows "deframe little (frame little' p @ bs) =
    (p # fst (deframe little bs), snd (deframe little bs))"
  using assms deframe_head [of "packet_head little' (length p)" little "p @ bs"]
  by (simp add: frame_def sendable_def unat_of_nat Let_def)

lemma deframe_frames:
  "list_all sendable ps \<Longrightarrow>
     deframe little (concat (map (frame little') ps) @ bs) =
       (ps @ fst (deframe little bs), snd (deframe little bs))"
  by (induction ps) (auto simp: deframe_frame)

text \<open>A complete stream can be continued.\<close>

lemma deframe_append:
  "deframe little bs = (ms, Need_more []) \<Longrightarrow>
     deframe little (bs @ cs) = (ms @ fst (deframe little cs), snd (deframe little cs))"
proof (induction little bs arbitrary: ms rule: deframe.induct)
  case (1 little bs)
  show ?case
  proof (cases "length bs < 6")
    case True
    with "1.prems" show ?thesis by simp
  next
    case False
    define h where "h = take 6 bs"
    define body where "body = drop 6 bs"
    have bs: "bs = h @ body" "length h = 6" using False by (simp_all add: h_def body_def)
    let ?n = "unat (hdr_size (read_header little h))"
    have ok: "hdr_sign (read_header little h) = PROTOCOL_SIGN" "?n = 0 \<or> \<not> length body < ?n"
      using "1.prems" bs by (auto simp: deframe_head Let_def split: if_splits)
    note IH = "1.IH" [OF False refl body_def refl, folded h_def]
    show ?thesis
    proof (cases "?n = 0")
      case True
      with "1.prems" bs ok have "deframe little body = (ms, Need_more [])"
        by (simp add: deframe_head Let_def)
      with IH(1) True ok show ?thesis by (simp add: bs deframe_head Let_def)
    next
      case False
      with "1.prems" bs ok obtain ms' where ms: "ms = take ?n body # ms'"
        "deframe little (drop ?n body) = (ms', Need_more [])"
        by (cases "deframe little (drop ?n body)") (auto simp: deframe_head Let_def)
      with IH(2) False ok show ?thesis by (auto simp: bs deframe_head Let_def)
    qed
  qed
qed

text \<open>Any prefix of a framed sequence delivers a prefix of the packets.\<close>

lemma deframe_prefix:
  "list_all sendable ps \<Longrightarrow> prefix w (concat (map (frame little') ps)) \<Longrightarrow>
     \<exists>k. fst (deframe little w) = take k ps \<and> snd (deframe little w) \<noteq> Bad_sign"
proof (induction ps arbitrary: w)
  case Nil
  then show ?case by simp
next
  case (Cons p ps)
  show ?case
  proof (cases "prefix (frame little' p) w")
    case True
    then obtain v where v: "w = frame little' p @ v" by (auto simp: prefix_def)
    with Cons obtain k where "fst (deframe little v) = take k ps" "snd (deframe little v) \<noteq> Bad_sign"
      by fastforce
    with Cons.prems(1) v show ?thesis by (intro exI [of _ "Suc k"]) (simp add: deframe_frame)
  next
    case False
    have "prefix w (frame little' p @ concat (map (frame little') ps))"
      using Cons.prems(2) by simp
    with False have "strict_prefix w (frame little' p)"
      using prefix_same_cases [of w _ "frame little' p"] prefixI [OF refl, of "frame little' p"]
      by (metis prefix_order.dual_order.strict_iff_order)
    then have w: "prefix w (packet_head little' (length p) @ p)" "length w < 6 + length p"
      using prefix_length_less by (fastforce simp: frame_def strict_prefix_def)+
    show ?thesis
    proof (cases "length w < 6")
      case True
      then show ?thesis by (intro exI [of _ 0]) simp
    next
      case False
      obtain zs where zs: "packet_head little' (length p) @ p = w @ zs"
        using w(1) by (auto simp: prefix_def)
      have "take 6 w = packet_head little' (length p)"
        using False arg_cong [OF zs, of "take 6"] by simp
      with w(2) False have "w = packet_head little' (length p) @ drop 6 w" "length (drop 6 w) < length p"
        by (metis append_take_drop_id) (use w(2) False in simp)
      then obtain b where "w = packet_head little' (length p) @ b" "length b < length p"
        by blast
      with Cons.prems(1) show ?thesis
        by (intro exI [of _ 0]) (simp add: deframe_head Let_def sendable_def unat_of_nat)
    qed
  qed
qed

section \<open>Properties\<close>

text \<open>
  C12: the framing is reversible. A stream of framed packets is read back as these
  packets, each complete, on hosts of any byte order, and the receiver then waits for
  the next header.
\<close>

theorem framing_round_trip:
  assumes "list_all sendable ps"
  shows "deframe little (concat (map (frame little') ps)) = (ps, Need_more [])"
  using deframe_frames [OF assms, of little little' "[]"] by simp

theorem framing_round_trip_witness:
  "list_all sendable [[1], [2, 3]] \<and>
   deframe False (concat (map (frame True) [[1], [2, 3]])) = ([[1], [2, 3]], Need_more [])"
  using framing_round_trip [of "[[1], [2, 3]]" False True] by (simp add: sendable_def)

text \<open>
  The length field has 32 bits. A packet of \<open>2 ^ 32 + k\<close> bytes, which
  \<open>send_message\<close> accepts, is announced with length \<open>k\<close>: the receiver takes its first
  \<open>k\<close> bytes for the packet and reads the rest of the payload as headers.
\<close>

theorem oversized_packet_splits:
  assumes "length p = 2 ^ 32 + k" and "0 < k" and "k < 2 ^ 32"
  shows "fst (deframe little (frame little' p @ bs)) =
    take k p # fst (deframe little (drop k p @ bs))"
proof -
  have "(2 ^ 32 + k) mod 2 ^ 32 = k"
    using assms(3) by (simp only: mod_add_self1 mod_less)
  then have sz: "unat (of_nat (length p) :: u32) = k"
    unfolding assms(1) unat_of_nat by simp
  have "k \<le> length p" "k \<noteq> 0"
    using assms by simp_all
  then show ?thesis
    using deframe_head [of "packet_head little' (length p)" little "p @ bs"]
    by (simp add: frame_def Let_def sz)
qed

theorem oversized_packet_splits_witness:
  "fst (deframe True (frame True (replicate (2 ^ 32 + 1) 0))) =
    [0] # fst (deframe True (replicate (2 ^ 32) 0))"
proof -
  have "take 1 (replicate (2 ^ 32 + 1) 0) = [0 :: byte]"
    "drop 1 (replicate (2 ^ 32 + 1) 0) = replicate (2 ^ 32) (0 :: byte)"
    by (simp_all only: take_replicate drop_replicate) simp_all
  with oversized_packet_splits [of "replicate (2 ^ 32 + 1) 0" 1 True True "[]"]
  show ?thesis by (simp only: length_replicate append_Nil2) simp
qed

end
