(* ===== verification/Etcp_Channel.thy ===== *)
theory Etcp_Channel
  imports Etcp_Frame
begin

text \<open>
  The abstract contract of one ETCP connection endpoint, which \<open>EtcpSession\<close> and
  \<open>EtcpClientImpl\<close> both implement. The sending side serialises framed packets through
  one outstanding write; the receiving side alternates header and body reads. The
  locale \<open>etcp_endpoint\<close> states that a class simulates both machines, and derives what
  its users rely on.
\<close>

section \<open>The sending side\<close>

text \<open>
  \<open>sq_list\<close> is \<open>m_send_data_list\<close>, \<open>sq_out\<close> the buffers of the write operations not yet
  completed, \<open>sq_queued\<close> the packets put into the list so far, \<open>sq_wire\<close> the bytes the
  connection has carried, \<open>sq_failed\<close> whether a write has failed.
\<close>

record sender =
  sq_list :: "bytes list"
  sq_out :: "bytes list"
  sq_queued :: "bytes list"
  sq_wire :: bytes
  sq_failed :: bool

inductive sq_step :: "bool \<Rightarrow> sender \<Rightarrow> sender \<Rightarrow> bool" for little where
  sq_enqueue:
    "sq_step little s
       (s\<lparr>sq_list := sq_list s @ [packet_head little (length p), p],
          sq_queued := sq_queued s @ [p],
          sq_out := sq_out s @ (if sq_list s = [] then [packet_head little (length p)] else [])\<rparr>)"
| sq_sent:
    "d \<in> set (sq_out s) \<Longrightarrow> \<not> sq_failed s \<Longrightarrow>
     sq_step little s
       (s\<lparr>sq_list := tl (sq_list s),
          sq_wire := sq_wire s @ d,
          sq_out := remove1 d (sq_out s) @
            (if tl (sq_list s) = [] then [] else [hd (tl (sq_list s))])\<rparr>)"
| sq_broken:
    "d \<in> set (sq_out s) \<Longrightarrow> prefix e d \<Longrightarrow> (sq_failed s \<longrightarrow> e = []) \<Longrightarrow>
     sq_step little s
       (s\<lparr>sq_list := [], sq_wire := sq_wire s @ e, sq_out := remove1 d (sq_out s),
          sq_failed := True\<rparr>)"

definition sender_start :: sender where
  "sender_start = \<lparr>sq_list = [], sq_out = [], sq_queued = [], sq_wire = [], sq_failed = False\<rparr>"

definition framed :: "bool \<Rightarrow> bytes list \<Rightarrow> bytes" where
  "framed little ps = concat (map (frame little) ps)"

definition sender_inv :: "bool \<Rightarrow> sender \<Rightarrow> bool" where
  "sender_inv little s \<longleftrightarrow>
     sq_out s = take 1 (sq_list s) \<and>
     (if sq_failed s then prefix (sq_wire s) (framed little (sq_queued s))
      else sq_wire s @ concat (sq_list s) = framed little (sq_queued s))"

lemma sender_inv_start: "sender_inv little sender_start"
  by (simp add: sender_inv_def sender_start_def framed_def)

lemma framed_snoc [simp]:
  "framed little (ps @ [p]) = framed little ps @ packet_head little (length p) @ p"
  by (simp add: framed_def frame_def)

lemma sender_inv_step: "sq_step little s t \<Longrightarrow> sender_inv little s \<Longrightarrow> sender_inv little t"
proof (induction rule: sq_step.induct)
  case (sq_enqueue s p)
  then show ?case
    by (cases "sq_list s") (auto simp: sender_inv_def prefix_def)
next
  case (sq_sent d s)
  then obtain xs where "sq_list s = d # xs"
    by (cases "sq_list s") (auto simp: sender_inv_def)
  with sq_sent show ?case by (cases xs) (auto simp: sender_inv_def)
next
  case (sq_broken d s e)
  then obtain xs where xs: "sq_list s = d # xs" "sq_out s = [d]"
    by (cases "sq_list s") (auto simp: sender_inv_def)
  have "prefix (sq_wire s @ e) (framed little (sq_queued s))"
  proof (cases "sq_failed s")
    case True
    with sq_broken show ?thesis by (simp add: sender_inv_def)
  next
    case False
    with sq_broken xs have "framed little (sq_queued s) = sq_wire s @ d @ concat xs"
      by (simp add: sender_inv_def)
    with sq_broken.hyps(2) show ?thesis by (auto simp: prefix_def)
  qed
  with xs show ?case by (simp add: sender_inv_def)
qed

lemma sender_wire_prefix:
  "sender_inv little s \<Longrightarrow> prefix (sq_wire s) (framed little (sq_queued s))"
  by (auto simp: sender_inv_def prefix_def split: if_splits) metis

text \<open>
  The bytes that the peer may have read: those of completed writes and, since a completion
  handler runs some time after its bytes have left, those of the outstanding one.
\<close>

definition on_wire :: "sender \<Rightarrow> bytes" where
  "on_wire s = sq_wire s @ (if sq_failed s then [] else concat (sq_out s))"

lemma sender_on_wire_prefix:
  assumes "sender_inv little s"
  shows "prefix (on_wire s) (framed little (sq_queued s))"
proof (cases "sq_failed s")
  case False
  with assms have "framed little (sq_queued s) = sq_wire s @ concat (sq_list s)"
    "sq_out s = take 1 (sq_list s)"
    by (simp_all add: sender_inv_def)
  with False show ?thesis by (cases "sq_list s") (simp_all add: on_wire_def)
qed (use assms in \<open>simp add: on_wire_def sender_inv_def\<close>)

lemma wire_prefix_on_wire: "prefix (sq_wire s) (on_wire s)"
  by (simp add: on_wire_def)

section \<open>The receiving side\<close>

datatype read_op = Read_head | Read_body nat

text \<open>
  \<open>rc_reads\<close> are the read operations not yet completed, \<open>rc_rx\<close> the bytes delivered by
  completed reads, \<open>rc_msgs\<close> the packets handed to the sink.
\<close>

record receiver =
  rc_reads :: "read_op list"
  rc_rx :: bytes
  rc_msgs :: "bytes list"

inductive rc_step :: "bool \<Rightarrow> receiver \<Rightarrow> receiver \<Rightarrow> bool" for little where
  rc_start:
    "rc_reads s = [] \<Longrightarrow> rc_rx s = [] \<Longrightarrow> rc_msgs s = [] \<Longrightarrow>
       rc_step little s (s\<lparr>rc_reads := [Read_head]\<rparr>)"
| rc_bad_sign:
    "rc_reads s = [Read_head] \<Longrightarrow> length h = 6 \<Longrightarrow>
     hdr_sign (read_header little h) \<noteq> PROTOCOL_SIGN \<Longrightarrow>
       rc_step little s (s\<lparr>rc_reads := [], rc_rx := rc_rx s @ h\<rparr>)"
| rc_empty:
    "rc_reads s = [Read_head] \<Longrightarrow> length h = 6 \<Longrightarrow>
     hdr_sign (read_header little h) = PROTOCOL_SIGN \<Longrightarrow> hdr_size (read_header little h) = 0 \<Longrightarrow>
       rc_step little s (s\<lparr>rc_reads := [Read_head], rc_rx := rc_rx s @ h\<rparr>)"
| rc_head:
    "rc_reads s = [Read_head] \<Longrightarrow> length h = 6 \<Longrightarrow>
     hdr_sign (read_header little h) = PROTOCOL_SIGN \<Longrightarrow> hdr_size (read_header little h) \<noteq> 0 \<Longrightarrow>
       rc_step little s
         (s\<lparr>rc_reads := [Read_body (unat (hdr_size (read_header little h)))], rc_rx := rc_rx s @ h\<rparr>)"
| rc_body:
    "rc_reads s = [Read_body n] \<Longrightarrow> length b = n \<Longrightarrow>
       rc_step little s (s\<lparr>rc_reads := [Read_head], rc_rx := rc_rx s @ b, rc_msgs := rc_msgs s @ [b]\<rparr>)"
| rc_fail:
    "rc_step little s (s\<lparr>rc_reads := []\<rparr>)"

definition receiver_start :: receiver where
  "receiver_start = \<lparr>rc_reads = [], rc_rx = [], rc_msgs = []\<rparr>"

definition receiver_inv :: "bool \<Rightarrow> receiver \<Rightarrow> bool" where
  "receiver_inv little s \<longleftrightarrow>
     (case rc_reads s of
        [] \<Rightarrow> fst (deframe little (rc_rx s)) = rc_msgs s
      | [Read_head] \<Rightarrow> deframe little (rc_rx s) = (rc_msgs s, Need_more [])
      | [Read_body n] \<Rightarrow>
          \<exists>rx h. rc_rx s = rx @ h \<and> length h = 6 \<and> deframe little rx = (rc_msgs s, Need_more []) \<and>
            hdr_sign (read_header little h) = PROTOCOL_SIGN \<and>
            unat (hdr_size (read_header little h)) = n \<and> 0 < n
      | _ \<Rightarrow> False)"

lemma receiver_inv_start: "receiver_inv little receiver_start"
  by (simp add: receiver_inv_def receiver_start_def)

lemma unat_neq_0: "(w :: u32) \<noteq> 0 \<Longrightarrow> 0 < unat w"
  by (simp add: unat_gt_0)

lemma deframe_head_only:
  "length h = 6 \<Longrightarrow> deframe little h = deframe little (h @ [])"
  by simp

lemma receiver_inv_msgs:
  assumes "receiver_inv little s"
  shows "rc_msgs s = fst (deframe little (rc_rx s))"
proof -
  have "deframe little (rx @ h) = (ms, Need_more h)"
    if "deframe little rx = (ms, Need_more [])" "length h = 6"
      "hdr_sign (read_header little h) = PROTOCOL_SIGN" "0 < unat (hdr_size (read_header little h))"
    for rx h ms
    using that deframe_head [OF that(2), of little "[]"]
    by (simp add: deframe_append Let_def)
  with assms show ?thesis
    by (fastforce simp: receiver_inv_def split: list.splits read_op.splits)
qed

lemma receiver_inv_step: "rc_step little s t \<Longrightarrow> receiver_inv little s \<Longrightarrow> receiver_inv little t"
proof (induction rule: rc_step.induct)
  case (rc_bad_sign s h)
  with deframe_head [of h little "[]"] show ?case
    by (simp add: receiver_inv_def deframe_append Let_def)
next
  case (rc_empty s h)
  with deframe_head [of h little "[]"] show ?case
    by (simp add: receiver_inv_def deframe_append Let_def)
next
  case (rc_head s h)
  then show ?case by (auto simp: receiver_inv_def unat_neq_0)
next
  case (rc_body s n b)
  then obtain rx h where rx: "rc_rx s = rx @ h" "length h = 6"
    "deframe little rx = (rc_msgs s, Need_more [])"
    "hdr_sign (read_header little h) = PROTOCOL_SIGN"
    "unat (hdr_size (read_header little h)) = n" "0 < n"
    by (auto simp: receiver_inv_def)
  with rc_body deframe_head [of h little b] deframe_append [OF rx(3), of "h @ b"] show ?case
    by (simp add: receiver_inv_def Let_def)
next
  case (rc_fail s)
  then show ?case
    using receiver_inv_msgs [of little s] by (simp add: receiver_inv_def)
qed (simp add: receiver_inv_def)

section \<open>The contract of an endpoint\<close>

locale etcp_endpoint =
  fixes little :: bool
    and stp :: "'s \<Rightarrow> 'e \<Rightarrow> 's \<Rightarrow> bool"
    and snd_of :: "'s \<Rightarrow> sender"
    and rcv_of :: "'s \<Rightarrow> receiver"
    and ok :: "'s \<Rightarrow> bool"
  assumes ok_step: "stp s e t \<Longrightarrow> ok s \<Longrightarrow> ok t"
    and snd_sim: "stp s e t \<Longrightarrow> ok s \<Longrightarrow> snd_of t = snd_of s \<or> sq_step little (snd_of s) (snd_of t)"
    and rcv_sim: "stp s e t \<Longrightarrow> ok s \<Longrightarrow> rcv_of t = rcv_of s \<or> rc_step little (rcv_of s) (rcv_of t)"
begin

definition endpoint_inv :: "'s \<Rightarrow> bool" where
  "endpoint_inv s \<longleftrightarrow> ok s \<and> sender_inv little (snd_of s) \<and> receiver_inv little (rcv_of s)"

sublocale inv: step_invariant stp endpoint_inv
proof
  fix s e t
  assume st: "stp s e t" and inv: "endpoint_inv s"
  then show "endpoint_inv t"
    using ok_step [OF st] snd_sim [OF st] rcv_sim [OF st]
      sender_inv_step [of little "snd_of s" "snd_of t"]
      receiver_inv_step [of little "rcv_of s" "rcv_of t"]
    by (auto simp: endpoint_inv_def)
qed

lemma endpoint_run:
  assumes "run stp s es t" "ok s" "snd_of s = sender_start" "rcv_of s = receiver_start"
  shows "endpoint_inv t"
  using inv.run_inv [OF assms(1)] assms(2-4)
  by (simp add: endpoint_inv_def sender_inv_start receiver_inv_start)

lemma one_write: "endpoint_inv s \<Longrightarrow> sq_out (snd_of s) = take 1 (sq_list (snd_of s))"
  by (simp add: endpoint_inv_def sender_inv_def)

lemma wire_is_prefix:
  "endpoint_inv s \<Longrightarrow> prefix (sq_wire (snd_of s)) (framed little (sq_queued (snd_of s)))"
  by (simp add: endpoint_inv_def sender_wire_prefix)

lemma on_wire_is_prefix:
  "endpoint_inv s \<Longrightarrow> prefix (on_wire (snd_of s)) (framed little (sq_queued (snd_of s)))"
  by (simp add: endpoint_inv_def sender_on_wire_prefix)

text \<open>What any receiver makes of the bytes sent: the first packets, in order.\<close>

lemma peer_receives:
  assumes "endpoint_inv s" "list_all sendable (sq_queued (snd_of s))"
  shows "\<exists>k. deframe little' (sq_wire (snd_of s)) =
    (take k (sq_queued (snd_of s)), snd (deframe little' (sq_wire (snd_of s)))) \<and>
    snd (deframe little' (sq_wire (snd_of s))) \<noteq> Bad_sign"
  using deframe_prefix [OF assms(2), of "sq_wire (snd_of s)" little little']
    wire_is_prefix [OF assms(1)]
  by (metis framed_def prod.collapse)

lemma received_packets: "endpoint_inv s \<Longrightarrow> rc_msgs (rcv_of s) = fst (deframe little (rc_rx (rcv_of s)))"
  by (simp add: endpoint_inv_def receiver_inv_msgs)

lemma one_read: "endpoint_inv s \<Longrightarrow> length (rc_reads (rcv_of s)) \<le> 1"
  by (auto simp: endpoint_inv_def receiver_inv_def split: list.splits read_op.splits)

end

section \<open>Progress of an endpoint\<close>

text \<open>
  A live endpoint can always take its next step: an outstanding write can complete, and an
  outstanding read can deliver the bytes it waits for. From this every queued packet can be
  written, and every complete stream of packets can be read.
\<close>

locale live_endpoint = etcp_endpoint little stp snd_of rcv_of ok
  for little and stp :: "'s \<Rightarrow> 'e \<Rightarrow> 's \<Rightarrow> bool" and snd_of and rcv_of and ok +
  fixes live :: "'s \<Rightarrow> bool"
  assumes not_failed: "live s \<Longrightarrow> \<not> sq_failed (snd_of s)"
    and can_write: "endpoint_inv s \<Longrightarrow> live s \<Longrightarrow> sq_list (snd_of s) = d # ds \<Longrightarrow>
      \<exists>e t. stp s e t \<and> live t \<and> rcv_of t = rcv_of s \<and> sq_list (snd_of t) = ds \<and>
        sq_queued (snd_of t) = sq_queued (snd_of s)"
    and can_read_head: "endpoint_inv s \<Longrightarrow> live s \<Longrightarrow> rc_reads (rcv_of s) = [Read_head] \<Longrightarrow>
      length h = 6 \<Longrightarrow> hdr_sign (read_header little h) = PROTOCOL_SIGN \<Longrightarrow>
      \<exists>e t. stp s e t \<and> live t \<and> snd_of t = snd_of s \<and> rc_reads (rcv_of t) \<noteq> [] \<and>
        rc_rx (rcv_of t) = rc_rx (rcv_of s) @ h"
    and can_read_body: "endpoint_inv s \<Longrightarrow> live s \<Longrightarrow> rc_reads (rcv_of s) = [Read_body (length b)] \<Longrightarrow>
      \<exists>e t. stp s e t \<and> live t \<and> snd_of t = snd_of s \<and> rc_reads (rcv_of t) \<noteq> [] \<and>
        rc_rx (rcv_of t) = rc_rx (rcv_of s) @ b"
begin

lemma flush:
  assumes "endpoint_inv s" "live s"
  shows "\<exists>es t. run stp s es t \<and> live t \<and> rcv_of t = rcv_of s \<and>
    sq_list (snd_of t) = [] \<and> sq_queued (snd_of t) = sq_queued (snd_of s)"
  using assms
proof (induction "sq_list (snd_of s)" arbitrary: s)
  case Nil
  then show ?case by (metis run_Nil)
next
  case (Cons d ds)
  from can_write [OF Cons.prems Cons.hyps(2) [symmetric]] obtain e u where u: "stp s e u" "live u"
    "rcv_of u = rcv_of s" "sq_list (snd_of u) = ds" "sq_queued (snd_of u) = sq_queued (snd_of s)"
    by blast
  from Cons.hyps(1) [of u] u inv.step_inv [OF u(1) Cons.prems(1)] obtain es t where
    "run stp u es t" "live t" "rcv_of t = rcv_of u" "sq_list (snd_of t) = []"
    "sq_queued (snd_of t) = sq_queued (snd_of u)"
    by auto
  with u show ?case by (metis run_Cons)
qed

lemma writes_everything:
  assumes "endpoint_inv s" "live s"
  shows "\<exists>es t. run stp s es t \<and> live t \<and> rcv_of t = rcv_of s \<and>
    sq_queued (snd_of t) = sq_queued (snd_of s) \<and>
    on_wire (snd_of t) = framed little (sq_queued (snd_of s))"
proof -
  from flush [OF assms] obtain es t where t: "run stp s es t" "live t" "rcv_of t = rcv_of s"
    "sq_list (snd_of t) = []" "sq_queued (snd_of t) = sq_queued (snd_of s)"
    by blast
  with inv.run_inv [OF t(1) assms(1)] not_failed [OF t(2)]
  have "on_wire (snd_of t) = framed little (sq_queued (snd_of s))"
    by (simp add: endpoint_inv_def sender_inv_def on_wire_def)
  with t show ?thesis by blast
qed

text \<open>A stream is complete when it ends with a packet.\<close>

lemma reads_everything:
  assumes "endpoint_inv s" "live s" "rc_reads (rcv_of s) \<noteq> []"
    and "snd (deframe little (rc_rx (rcv_of s) @ bs)) = Need_more []"
  shows "\<exists>es t. run stp s es t \<and> live t \<and> snd_of t = snd_of s \<and>
    rc_rx (rcv_of t) = rc_rx (rcv_of s) @ bs"
  using assms
proof (induction "length bs" arbitrary: s bs rule: less_induct)
  case less
  show ?case
  proof (cases "bs = []")
    case True
    with less.prems(2) show ?thesis by (metis append_Nil2 run_Nil)
  next
    case False
    have more: ?thesis if u: "stp s e u" "live u" "snd_of u = snd_of s" "rc_reads (rcv_of u) \<noteq> []"
      "rc_rx (rcv_of u) = rc_rx (rcv_of s) @ take n bs" "0 < n" for e u n
    proof -
      have "length (drop n bs) < length bs" using False u(6) by simp
      from less.hyps [OF this inv.step_inv [OF u(1) less.prems(1)] u(2,4)] less.prems(4)
      obtain es t where "run stp u es t" "live t" "snd_of t = snd_of u"
        "rc_rx (rcv_of t) = rc_rx (rcv_of u) @ drop n bs"
        by (auto simp: u(5))
      with u show ?thesis by (auto intro: run_Cons)
    qed
    have r: "receiver_inv little (rcv_of s)" using less.prems(1) by (simp add: endpoint_inv_def)
    with less.prems(3) consider "rc_reads (rcv_of s) = [Read_head]"
      | n where "rc_reads (rcv_of s) = [Read_body n]"
      by (auto simp: receiver_inv_def split: list.splits read_op.splits)
    then show ?thesis
    proof cases
      case 1
      with r have "deframe little (rc_rx (rcv_of s)) = (rc_msgs (rcv_of s), Need_more [])"
        by (simp add: receiver_inv_def)
      then have c: "snd (deframe little bs) = Need_more []"
        using less.prems(4) by (simp add: deframe_append)
      then have len: "6 \<le> length bs" using False by (cases "length bs < 6") auto
      then have "hdr_sign (read_header little (take 6 bs)) = PROTOCOL_SIGN"
        using c deframe_head [of "take 6 bs" little "drop 6 bs"] by (auto simp: Let_def split: if_splits)
      with can_read_head [OF less.prems(1,2) 1, of "take 6 bs"] len more [of _ _ 6] show ?thesis
        by auto
    next
      case (2 n)
      with r obtain rx h where h: "rc_rx (rcv_of s) = rx @ h" "length h = 6"
        "deframe little rx = (rc_msgs (rcv_of s), Need_more [])"
        "hdr_sign (read_header little h) = PROTOCOL_SIGN" "unat (hdr_size (read_header little h)) = n"
        "0 < n"
        by (auto simp: receiver_inv_def)
      then have "snd (deframe little (h @ bs)) = Need_more []"
        using less.prems(4) deframe_append [OF h(3), of "h @ bs"] by simp
      then have "n \<le> length bs"
        using h deframe_head [OF h(2), of little bs] by (auto simp: Let_def split: if_splits)
      with can_read_body [OF less.prems(1,2), of "take n bs"] 2 h(6) more [of _ _ n] show ?thesis
        by auto
    qed
  qed
qed

end

end
