(* ===== verification/Etcp_Session.thy ===== *)
theory Etcp_Session
  imports Etcp_Channel
begin

text \<open>
  src/etcp_server/etcp_session.h and etcp_session.cpp: one accepted connection of the
  ETCP server. The class runs on one io context: \<open>tasks\<close> are the handlers posted to it
  and not yet run, \<open>reads\<close> and \<open>writes\<close> its operations on the socket not yet completed.
  A completion may succeed or fail at any time, also after the socket was closed (the
  operation may have completed before); a write that failed is followed by no
  successful write on the same socket. \<open>calls\<close> logs the calls to the sink and to the
  server; \<open>queued\<close>, \<open>wire\<close>, \<open>rx\<close> and \<open>failed\<close> are the history the properties speak of.
\<close>

section \<open>State\<close>

datatype session_task = Task_close | Task_send bytes

datatype session_call =
    On_accept
  | Append_session
  | On_recv bytes
  | On_error bytes bytes
  | On_close
  | Remove_session

record etcp_session =
  m_closed :: bool
  m_sink :: bool
  is_open :: bool
  m_host_ip :: bytes
  m_host_port :: u16
  m_peer_ip :: bytes
  m_peer_port :: u16
  m_recv_head :: bytes
  m_recv_data :: bytes
  m_send_data_list :: "bytes list"
  tasks :: "session_task list"
  reads :: "read_op list"
  writes :: "bytes list"
  calls :: "session_call list"
  queued :: "bytes list"
  wire :: bytes
  rx :: bytes
  failed :: bool

text \<open>The constructor; the socket is opened by the acceptor before \<open>start\<close>.\<close>

definition EtcpSession :: "bool \<Rightarrow> etcp_session" where
  "EtcpSession sink =
     \<lparr>m_closed = True, m_sink = sink, is_open = False,
      m_host_ip = [], m_host_port = 0, m_peer_ip = [], m_peer_port = 0,
      m_recv_head = replicate 6 0, m_recv_data = [], m_send_data_list = [],
      tasks = [], reads = [], writes = [], calls = [],
      queued = [], wire = [], rx = [], failed = False\<rparr>"

section \<open>Operations and handlers\<close>

definition get_host_address :: "etcp_session \<Rightarrow> bytes \<times> u16" where
  "get_host_address s = (m_host_ip s, m_host_port s)"

definition get_peer_address :: "etcp_session \<Rightarrow> bytes \<times> u16" where
  "get_peer_address s = (m_peer_ip s, m_peer_port s)"

definition call :: "session_call \<Rightarrow> etcp_session \<Rightarrow> etcp_session" where
  "call c s = s\<lparr>calls := calls s @ [c]\<rparr>"

definition on_error :: "bytes \<Rightarrow> bytes \<Rightarrow> etcp_session \<Rightarrow> etcp_session" where
  "on_error action message s = (if m_sink s then call (On_error action message) s else s)"

definition on_accept :: "etcp_session \<Rightarrow> etcp_session" where
  "on_accept s =
     (if m_closed s then
        let s = s\<lparr>m_closed := False\<rparr>;
            s = (if m_sink s then call On_accept s else s)
        in call Append_session s
      else s)"

definition on_close :: "etcp_session \<Rightarrow> etcp_session" where
  "on_close s =
     (if \<not> m_closed s then
        let s = s\<lparr>m_closed := True\<rparr>;
            s = (if m_sink s then call On_close s else s)
        in call Remove_session s
      else s)"

definition do_close :: "etcp_session \<Rightarrow> etcp_session" where
  "do_close s = s\<lparr>tasks := tasks s @ [Task_close]\<rparr>"

definition close_task :: "etcp_session \<Rightarrow> etcp_session" where
  "close_task s = on_close (if is_open s then s\<lparr>is_open := False\<rparr> else s)"

definition close :: "etcp_session \<Rightarrow> etcp_session" where
  "close s = (if \<not> m_closed s then do_close s else s)"

definition do_read :: "etcp_session \<Rightarrow> etcp_session" where
  "do_read s = s\<lparr>reads := reads s @ [Read_head]\<rparr>"

definition do_write :: "etcp_session \<Rightarrow> etcp_session" where
  "do_write s =
     (case m_send_data_list s of
        [] \<Rightarrow> s
      | data # _ \<Rightarrow> s\<lparr>writes := writes s @ [data]\<rparr>)"

definition start :: "bytes \<times> u16 \<Rightarrow> bytes \<times> u16 \<Rightarrow> etcp_session \<Rightarrow> etcp_session" where
  "start host peer s =
     do_read (on_accept
       (s\<lparr>m_host_ip := fst host, m_host_port := snd host,
          m_peer_ip := fst peer, m_peer_port := snd peer\<rparr>))"

definition send_message :: "bytes \<Rightarrow> etcp_session \<Rightarrow> bool \<times> etcp_session" where
  "send_message packet s =
     (if \<not> is_open s \<or> packet = [] then (False, s)
      else (True, s\<lparr>tasks := tasks s @ [Task_send packet]\<rparr>))"

text \<open>The overload for a raw buffer: \<open>None\<close> is a null pointer.\<close>

definition send_message_data :: "bytes option \<Rightarrow> u32 \<Rightarrow> etcp_session \<Rightarrow> bool \<times> etcp_session" where
  "send_message_data data sz s =
     (case data of
        None \<Rightarrow> (False, s)
      | Some d \<Rightarrow>
          if \<not> is_open s \<or> sz = 0 then (False, s)
          else send_message (take (unat sz) d) s)"

definition send_task :: "bool \<Rightarrow> bytes \<Rightarrow> etcp_session \<Rightarrow> etcp_session" where
  "send_task little pack s =
     (if \<not> is_open s then s
      else
        let s = s\<lparr>m_send_data_list := m_send_data_list s @ [packet_head little (length pack), pack],
                  queued := queued s @ [pack]\<rparr>
        in if length (m_send_data_list s) = 2 then do_write s else s)"

text \<open>Completion of a write of the buffer \<open>d\<close>, without and with an error.\<close>

definition write_ok :: "bytes \<Rightarrow> etcp_session \<Rightarrow> etcp_session" where
  "write_ok d s =
     (let s = s\<lparr>writes := remove1 d (writes s), wire := wire s @ d\<rparr>;
          s = s\<lparr>m_send_data_list := tl (m_send_data_list s)\<rparr>
      in if m_send_data_list s \<noteq> [] then do_write s else s)"

definition write_err :: "bytes \<Rightarrow> bytes \<Rightarrow> etcp_session \<Rightarrow> etcp_session" where
  "write_err d sent s =
     s\<lparr>writes := remove1 d (writes s), wire := wire s @ sent, failed := True,
       m_send_data_list := []\<rparr>"

text \<open>Completion of the header read with the bytes \<open>h\<close>, and of the body read.\<close>

definition read_head :: "bool \<Rightarrow> bytes \<Rightarrow> etcp_session \<Rightarrow> etcp_session" where
  "read_head little h s =
     (let s = s\<lparr>reads := remove1 Read_head (reads s), rx := rx s @ h\<rparr>;
          prefix = read_header little h;
          s = s\<lparr>m_recv_head := header_mem little prefix\<rparr>
      in if PROTOCOL_SIGN \<noteq> hdr_sign prefix then
           do_close (on_error (ascii ''recv'') (ascii ''protocol sign check failed'') s)
         else if hdr_size prefix = 0 then do_read s
         else s\<lparr>m_recv_data := take (unat (hdr_size prefix))
                   (m_recv_data s @ replicate (unat (hdr_size prefix)) 0),
                reads := reads s @ [Read_body (unat (hdr_size prefix))]\<rparr>)"

definition read_head_err :: "etcp_session \<Rightarrow> etcp_session" where
  "read_head_err s = on_close (s\<lparr>reads := remove1 Read_head (reads s)\<rparr>)"

definition read_body :: "bytes \<Rightarrow> etcp_session \<Rightarrow> etcp_session" where
  "read_body b s =
     (let len = length b;
          s = s\<lparr>reads := remove1 (Read_body len) (reads s), rx := rx s @ b,
                m_recv_data := b @ drop len (m_recv_data s)\<rparr>;
          s = do_read s;
          s = (if length (m_recv_data s) \<noteq> len
               then s\<lparr>m_recv_data := take len (m_recv_data s)\<rparr> else s)
      in if m_sink s then call (On_recv (m_recv_data s)) s else s)"

definition read_body_err :: "nat \<Rightarrow> etcp_session \<Rightarrow> etcp_session" where
  "read_body_err n s = on_close (s\<lparr>reads := remove1 (Read_body n) (reads s)\<rparr>)"

lemmas session_defs [handler_defs] =
  call_def on_error_def on_accept_def on_close_def do_close_def close_task_def close_def
  do_read_def do_write_def start_def send_message_def send_message_data_def send_task_def
  write_ok_def write_err_def read_head_def read_head_err_def read_body_def read_body_err_def

section \<open>Steps\<close>

datatype session_event =
    Start "bytes \<times> u16" "bytes \<times> u16"
  | Call_close
  | Call_send bytes
  | Call_send_data "bytes option" u32
  | Run_task
  | Write_ok bytes
  | Write_err bytes bytes
  | Head_ok bytes
  | Head_err
  | Body_ok bytes
  | Body_err nat

definition run_task :: "bool \<Rightarrow> session_task \<Rightarrow> etcp_session \<Rightarrow> etcp_session" where
  "run_task little t s = (case t of Task_close \<Rightarrow> close_task s | Task_send p \<Rightarrow> send_task little p s)"

text \<open>
  \<open>start\<close> is called once, by the accept handler, with the socket just opened. Sink
  callbacks may call \<open>close\<close> and \<open>send_message\<close> again; these only post to the queue, so
  such calls are the events that follow the handler.
\<close>

inductive session_step :: "bool \<Rightarrow> etcp_session \<Rightarrow> session_event \<Rightarrow> etcp_session \<Rightarrow> bool" for little where
  s_start: "calls s = [] \<Longrightarrow> reads s = [] \<Longrightarrow> rx s = [] \<Longrightarrow>
     session_step little s (Start host peer) (start host peer (s\<lparr>is_open := True\<rparr>))"
| s_close: "session_step little s Call_close (close s)"
| s_send: "session_step little s (Call_send p) (snd (send_message p s))"
| s_send_data: "session_step little s (Call_send_data d n) (snd (send_message_data d n s))"
| s_task: "tasks s = t # ts \<Longrightarrow>
     session_step little s Run_task (run_task little t (s\<lparr>tasks := ts\<rparr>))"
| s_write_ok: "d \<in> set (writes s) \<Longrightarrow> \<not> failed s \<Longrightarrow>
     session_step little s (Write_ok d) (write_ok d s)"
| s_write_err: "d \<in> set (writes s) \<Longrightarrow> prefix e d \<Longrightarrow> (failed s \<longrightarrow> e = []) \<Longrightarrow>
     session_step little s (Write_err d e) (write_err d e s)"
| s_head_ok: "Read_head \<in> set (reads s) \<Longrightarrow> length h = 6 \<Longrightarrow>
     session_step little s (Head_ok h) (read_head little h s)"
| s_head_err: "Read_head \<in> set (reads s) \<Longrightarrow> session_step little s Head_err (read_head_err s)"
| s_body_ok: "Read_body (length b) \<in> set (reads s) \<Longrightarrow>
     session_step little s (Body_ok b) (read_body b s)"
| s_body_err: "Read_body n \<in> set (reads s) \<Longrightarrow> session_step little s (Body_err n) (read_body_err n s)"

text \<open>The state after an event, computed; \<open>None\<close> when the event cannot happen.\<close>

definition session_next :: "bool \<Rightarrow> session_event \<Rightarrow> etcp_session \<Rightarrow> etcp_session option" where
  "session_next little e s =
     (case e of
        Start host peer \<Rightarrow>
          if calls s = [] \<and> reads s = [] \<and> rx s = []
          then Some (start host peer (s\<lparr>is_open := True\<rparr>)) else None
      | Call_close \<Rightarrow> Some (close s)
      | Call_send p \<Rightarrow> Some (snd (send_message p s))
      | Call_send_data d n \<Rightarrow> Some (snd (send_message_data d n s))
      | Run_task \<Rightarrow>
          (case tasks s of [] \<Rightarrow> None | t # ts \<Rightarrow> Some (run_task little t (s\<lparr>tasks := ts\<rparr>)))
      | Write_ok d \<Rightarrow>
          if d \<in> set (writes s) \<and> \<not> failed s then Some (write_ok d s) else None
      | Write_err d e \<Rightarrow>
          if d \<in> set (writes s) \<and> prefix e d \<and> (failed s \<longrightarrow> e = [])
          then Some (write_err d e s) else None
      | Head_ok h \<Rightarrow>
          if Read_head \<in> set (reads s) \<and> length h = 6 then Some (read_head little h s) else None
      | Head_err \<Rightarrow> if Read_head \<in> set (reads s) then Some (read_head_err s) else None
      | Body_ok b \<Rightarrow>
          if Read_body (length b) \<in> set (reads s) then Some (read_body b s) else None
      | Body_err n \<Rightarrow> if Read_body n \<in> set (reads s) then Some (read_body_err n s) else None)"

inductive_simps session_step_simps [simp]:
  "session_step little s (Start host peer) t"
  "session_step little s Call_close t"
  "session_step little s (Call_send p) t"
  "session_step little s (Call_send_data d n) t"
  "session_step little s Run_task t"
  "session_step little s (Write_ok d) t"
  "session_step little s (Write_err d e) t"
  "session_step little s (Head_ok h) t"
  "session_step little s Head_err t"
  "session_step little s (Body_ok b) t"
  "session_step little s (Body_err n) t"

lemma session_step_iff: "session_step little s e t \<longleftrightarrow> session_next little e s = Some t"
  by (cases e) (auto simp: session_next_def split: list.splits if_splits)

interpretation session_exec: executable_steps "session_step little" "session_next little" for little
  by unfold_locales (rule session_step_iff)

abbreviation session_run :: "bool \<Rightarrow> bool \<Rightarrow> session_event list \<Rightarrow> etcp_session \<Rightarrow> bool" where
  "session_run little sink es s \<equiv> run (session_step little) (EtcpSession sink) es s"

section \<open>The session is an ETCP endpoint\<close>

fun recv_of :: "session_call \<Rightarrow> bytes list" where
  "recv_of (On_recv b) = [b]"
| "recv_of _ = []"

definition received :: "etcp_session \<Rightarrow> bytes list" where
  "received s = concat (map recv_of (calls s))"

definition snd_of :: "etcp_session \<Rightarrow> sender" where
  "snd_of s = \<lparr>sq_list = m_send_data_list s, sq_out = writes s, sq_queued = queued s,
               sq_wire = wire s, sq_failed = failed s\<rparr>"

definition rcv_of :: "etcp_session \<Rightarrow> receiver" where
  "rcv_of s = \<lparr>rc_reads = reads s, rc_rx = rx s, rc_msgs = received s\<rparr>"

text \<open>A step needs at most one read outstanding to simulate the abstract receiver.\<close>

definition session_ok :: "etcp_session \<Rightarrow> bool" where
  "session_ok s \<longleftrightarrow> m_sink s \<and> length (reads s) \<le> 1"

text \<open>The two views depend on their own fields only.\<close>

lemma snd_of_update [simp]:
  "snd_of (s\<lparr>m_closed := x0\<rparr>) = snd_of s"
  "snd_of (s\<lparr>is_open := x1\<rparr>) = snd_of s"
  "snd_of (s\<lparr>m_host_ip := x2\<rparr>) = snd_of s"
  "snd_of (s\<lparr>m_host_port := x3\<rparr>) = snd_of s"
  "snd_of (s\<lparr>m_peer_ip := x4\<rparr>) = snd_of s"
  "snd_of (s\<lparr>m_peer_port := x5\<rparr>) = snd_of s"
  "snd_of (s\<lparr>m_recv_head := x6\<rparr>) = snd_of s"
  "snd_of (s\<lparr>m_recv_data := x7\<rparr>) = snd_of s"
  "snd_of (s\<lparr>tasks := x8\<rparr>) = snd_of s"
  "snd_of (s\<lparr>reads := x9\<rparr>) = snd_of s"
  "snd_of (s\<lparr>rx := x10\<rparr>) = snd_of s"
  "snd_of (s\<lparr>calls := x11\<rparr>) = snd_of s"
  by (simp_all add: snd_of_def)

lemma rcv_of_update [simp]:
  "rcv_of (s\<lparr>m_closed := x0\<rparr>) = rcv_of s"
  "rcv_of (s\<lparr>is_open := x1\<rparr>) = rcv_of s"
  "rcv_of (s\<lparr>m_host_ip := x2\<rparr>) = rcv_of s"
  "rcv_of (s\<lparr>m_host_port := x3\<rparr>) = rcv_of s"
  "rcv_of (s\<lparr>m_peer_ip := x4\<rparr>) = rcv_of s"
  "rcv_of (s\<lparr>m_peer_port := x5\<rparr>) = rcv_of s"
  "rcv_of (s\<lparr>m_recv_head := x6\<rparr>) = rcv_of s"
  "rcv_of (s\<lparr>m_recv_data := x7\<rparr>) = rcv_of s"
  "rcv_of (s\<lparr>tasks := x8\<rparr>) = rcv_of s"
  "rcv_of (s\<lparr>m_send_data_list := x9\<rparr>) = rcv_of s"
  "rcv_of (s\<lparr>writes := x10\<rparr>) = rcv_of s"
  "rcv_of (s\<lparr>queued := x11\<rparr>) = rcv_of s"
  "rcv_of (s\<lparr>wire := x12\<rparr>) = rcv_of s"
  "rcv_of (s\<lparr>failed := x13\<rparr>) = rcv_of s"
  by (simp_all add: rcv_of_def received_def)

text \<open>The notifications change neither the queues nor the streams.\<close>

lemma notify_frame [frame_simps]:
  "snd_of (on_close s) = snd_of s" "snd_of (on_accept s) = snd_of s"
  "snd_of (on_error a m s) = snd_of s" "snd_of (do_close s) = snd_of s"
  "rcv_of (on_close s) = rcv_of s" "rcv_of (on_accept s) = rcv_of s"
  "rcv_of (on_error a m s) = rcv_of s" "rcv_of (do_close s) = rcv_of s"
  "reads (on_close s) = reads s" "reads (on_accept s) = reads s"
  "reads (on_error a m s) = reads s" "reads (do_close s) = reads s"
  "m_sink (on_close s) = m_sink s" "m_sink (on_accept s) = m_sink s"
  "m_sink (on_error a m s) = m_sink s" "m_sink (do_close s) = m_sink s"
  by (simp_all add: snd_of_def rcv_of_def received_def on_close_def on_accept_def on_error_def
      do_close_def call_def Let_def)

lemma call_frame [frame_simps]:
  "snd_of (close s) = snd_of s" "rcv_of (close s) = rcv_of s"
  "snd_of (snd (send_message p s)) = snd_of s" "rcv_of (snd (send_message p s)) = rcv_of s"
  "snd_of (snd (send_message_data d n s)) = snd_of s"
  "rcv_of (snd (send_message_data d n s)) = rcv_of s"
  by (auto simp: close_def send_message_data_def send_message_def do_close_def snd_of_def rcv_of_def
      received_def split: option.splits)

lemmas session_steps = close_task_def close_def do_read_def do_write_def start_def
  send_message_def send_message_data_def send_task_def write_ok_def write_err_def read_head_def
  read_head_err_def read_body_def read_body_err_def run_task_def Let_def

lemma session_ok_step: "session_step little s e t \<Longrightarrow> session_ok s \<Longrightarrow> session_ok t"
  by (induction rule: session_step.induct)
    (auto simp: session_ok_def session_steps frame_simps call_def dest: one_element
      split: session_task.splits list.splits option.splits)

lemma session_snd_sim:
  "session_step little s e t \<Longrightarrow> snd_of t = snd_of s \<or> sq_step little (snd_of s) (snd_of t)"
proof (induction rule: session_step.induct)
  case (s_task s t ts)
  show ?case
  proof (cases t)
    case Task_close
    then show ?thesis
      by (simp add: run_task_def close_task_def frame_simps)
  next
    case (Task_send p)
    then show ?thesis
      using sq_enqueue [of little "snd_of s" p]
      by (auto simp: session_steps snd_of_def split: list.splits)
  qed
next
  case (s_write_ok d s)
  then show ?case
    using sq_sent [of d "snd_of s" little]
    by (auto simp: session_steps snd_of_def split: list.splits)
next
  case (s_write_err d s e)
  then show ?case
    using sq_broken [of d "snd_of s" e little] by (auto simp: write_err_def snd_of_def)
qed (simp_all add: frame_simps start_def do_read_def read_head_def read_head_err_def
      read_body_def read_body_err_def call_def Let_def)

lemma session_rcv_sim:
  "session_step little s e t \<Longrightarrow> session_ok s \<Longrightarrow>
     rcv_of t = rcv_of s \<or> rc_step little (rcv_of s) (rcv_of t)"
proof (induction rule: session_step.induct)
  case (s_start s host peer)
  then show ?case
    using rc_start [of "rcv_of s" little]
    by (auto simp: rcv_of_def received_def session_defs Let_def session_ok_def)
next
  case (s_head_ok s h)
  then have r: "reads s = [Read_head]" by (auto simp: session_ok_def dest: one_element)
  then show ?case
    using s_head_ok rc_bad_sign [of "rcv_of s" h little] rc_empty [of "rcv_of s" h little]
      rc_head [of "rcv_of s" h little]
    by (auto simp: rcv_of_def received_def session_defs Let_def)
next
  case (s_body_ok b s)
  then have "reads s = [Read_body (length b)]" by (auto simp: session_ok_def dest: one_element)
  then show ?case
    using s_body_ok rc_body [of "rcv_of s" "length b" b little]
    by (auto simp: rcv_of_def received_def session_defs Let_def session_ok_def)
next
  case (s_head_err s)
  then have "reads s = [Read_head]" by (auto simp: session_ok_def dest: one_element)
  then show ?case
    using rc_fail [of little "rcv_of s"] by (auto simp: read_head_err_def frame_simps, auto simp: rcv_of_def received_def)
next
  case (s_body_err n s)
  then have "reads s = [Read_body n]" by (auto simp: session_ok_def dest: one_element)
  then show ?case
    using rc_fail [of little "rcv_of s"] by (auto simp: read_body_err_def frame_simps, auto simp: rcv_of_def received_def)
next
  case (s_task s t ts)
  show ?case
    by (cases t)
      (auto simp: session_steps frame_simps split: list.splits)
qed (simp_all add: frame_simps write_ok_def write_err_def do_write_def Let_def split: list.splits)

interpretation session: etcp_endpoint little "session_step little" snd_of rcv_of session_ok for little
  by unfold_locales (auto dest: session_ok_step session_snd_sim session_rcv_sim)

section \<open>Life cycle\<close>

text \<open>
  The notifications of the life cycle: the session is announced to the sink and
  registered with the server, and later announced closed and removed, once each and in
  this order. While it is not closed, a read that may fail or a posted close is pending.
\<close>

fun is_life :: "session_call \<Rightarrow> bool" where
  "is_life (On_recv b) = False"
| "is_life (On_error a m) = False"
| "is_life _ = True"

definition life_log :: "bool \<Rightarrow> bool \<Rightarrow> session_call list" where
  "life_log sink closed =
     (if sink then [On_accept] else []) @ [Append_session] @
     (if closed then (if sink then [On_close] else []) @ [Remove_session] else [])"

definition session_life :: "etcp_session \<Rightarrow> bool" where
  "session_life s \<longleftrightarrow>
     (if calls s = [] then m_closed s \<and> reads s = []
      else filter is_life (calls s) = life_log (m_sink s) (m_closed s)) \<and>
     (m_closed s \<or> reads s \<noteq> [] \<or> Task_close \<in> set (tasks s)) \<and>
     length (reads s) \<le> 1"

lemma on_close_life:
  assumes "if calls s = [] then m_closed s \<and> reads s = []
      else filter is_life (calls s) = life_log (m_sink s) (m_closed s)"
    and "length (reads s) \<le> 1"
  shows "session_life (on_close s)"
  using assms by (cases "m_closed s"; cases "m_sink s"; cases "calls s = []")
    (simp_all add: session_life_def on_close_def call_def life_log_def)

text \<open>An operation that changes none of the fields of the life cycle keeps it.\<close>

lemma session_life_cong:
  assumes "session_life s" "calls t = calls s" "m_closed t = m_closed s" "m_sink t = m_sink s"
    "reads t = reads s" "set (tasks s) \<subseteq> set (tasks t)"
  shows "session_life t"
  using assms by (auto simp: session_life_def split: if_splits)

lemma send_task_fields:
  "calls (send_task l p s) = calls s" "m_closed (send_task l p s) = m_closed s"
  "m_sink (send_task l p s) = m_sink s" "reads (send_task l p s) = reads s"
  "tasks (send_task l p s) = tasks s"
  by (simp_all add: send_task_def do_write_def Let_def split: list.splits)

lemma send_task_open: "is_open (send_task l p s) = is_open s"
  by (simp add: send_task_def do_write_def Let_def split: list.splits)

lemma write_open: "is_open (write_ok d s) = is_open s" "is_open (write_err d e s) = is_open s"
  by (simp_all add: write_ok_def write_err_def do_write_def Let_def split: list.splits)

lemma write_fields:
  "calls (write_ok d s) = calls s" "m_closed (write_ok d s) = m_closed s"
  "m_sink (write_ok d s) = m_sink s" "reads (write_ok d s) = reads s"
  "tasks (write_ok d s) = tasks s"
  "calls (write_err d e s) = calls s" "m_closed (write_err d e s) = m_closed s"
  "m_sink (write_err d e s) = m_sink s" "reads (write_err d e s) = reads s"
  "tasks (write_err d e s) = tasks s"
  by (simp_all add: write_ok_def write_err_def do_write_def Let_def split: list.splits)

lemma request_fields:
  "calls (close s) = calls s" "m_closed (close s) = m_closed s" "m_sink (close s) = m_sink s"
  "reads (close s) = reads s" "set (tasks s) \<subseteq> set (tasks (close s))"
  "calls (snd (send_message p s)) = calls s" "m_closed (snd (send_message p s)) = m_closed s"
  "m_sink (snd (send_message p s)) = m_sink s" "reads (snd (send_message p s)) = reads s"
  "set (tasks s) \<subseteq> set (tasks (snd (send_message p s)))"
  by (auto simp: close_def do_close_def send_message_def)

lemma send_message_data_cases:
  "snd (send_message_data d n s) = s \<or>
   (\<exists>p. snd (send_message_data d n s) = snd (send_message p s))"
  by (auto simp: send_message_data_def split: option.splits)

lemma session_life_step:
  "session_step little s e t \<Longrightarrow> session_life s \<Longrightarrow> session_life t"
proof (induction rule: session_step.induct)
  case (s_start s host peer)
  then show ?case
    by (cases "m_sink s")
      (simp_all add: session_life_def start_def on_accept_def do_read_def call_def life_log_def)
next
  case (s_close s)
  then show ?case by (rule session_life_cong) (simp_all add: request_fields)
next
  case (s_send s p)
  then show ?case by (rule session_life_cong) (simp_all add: request_fields)
next
  case (s_send_data s d n)
  then have "session_life (snd (send_message p s))" for p
    by (rule session_life_cong) (simp_all add: request_fields)
  with s_send_data show ?case using send_message_data_cases [of d n s] by metis
next
  case (s_task s t ts)
  show ?case
  proof (cases t)
    case Task_close
    have "session_life (close_task (s\<lparr>tasks := ts\<rparr>))"
      unfolding close_task_def using s_task
      by (intro on_close_life) (simp_all add: session_life_def)
    with Task_close show ?thesis by (simp add: run_task_def)
  next
    case (Task_send p)
    have "session_life (s\<lparr>tasks := ts\<rparr>)"
      using s_task Task_send by (simp add: session_life_def)
    then have "session_life (send_task little p (s\<lparr>tasks := ts\<rparr>))"
      by (rule session_life_cong) (simp_all add: send_task_fields)
    with Task_send show ?thesis by (simp add: run_task_def)
  qed
next
  case (s_write_ok d s)
  show ?case by (rule session_life_cong [OF s_write_ok.prems]) (simp_all add: write_fields)
next
  case (s_write_err d s e)
  show ?case by (rule session_life_cong [OF s_write_err.prems]) (simp_all add: write_fields)
next
  case (s_head_ok s h)
  then have r: "reads s = [Read_head]" by (auto simp: session_life_def dest: one_element)
  with s_head_ok have c: "calls s \<noteq> []" "filter is_life (calls s) = life_log (m_sink s) (m_closed s)"
    by (simp_all add: session_life_def split: if_splits)
  from r c show ?case
    by (simp add: session_life_def read_head_def on_error_def do_close_def do_read_def call_def Let_def)
next
  case (s_head_err s)
  then show ?case
    unfolding read_head_err_def
    by (intro on_close_life) (auto simp: session_life_def length_remove1)
next
  case (s_body_ok b s)
  then have r: "reads s = [Read_body (length b)]" by (auto simp: session_life_def dest: one_element)
  with s_body_ok have c: "calls s \<noteq> []" "filter is_life (calls s) = life_log (m_sink s) (m_closed s)"
    by (simp_all add: session_life_def split: if_splits)
  from r c show ?case
    by (simp add: session_life_def read_body_def do_read_def call_def Let_def)
next
  case (s_body_err n s)
  then show ?case
    unfolding read_body_err_def
    by (intro on_close_life) (auto simp: session_life_def length_remove1)
qed

interpretation session_life: step_invariant "session_step little" session_life for little
  by unfold_locales (rule session_life_step)

lemma session_life_start: "session_life (EtcpSession sink)"
  by (simp add: session_life_def EtcpSession_def)

lemma session_run_life: "session_run little sink es s \<Longrightarrow> session_life s"
  by (rule session_life.run_inv) (auto intro: session_life_start)

lemma session_run_endpoint:
  assumes "session_run little True es s"
  shows "session.endpoint_inv little s"
  by (rule session.endpoint_run [OF assms])
    (auto simp: session_ok_def EtcpSession_def snd_of_def sender_start_def rcv_of_def
      receiver_start_def received_def)

text \<open>While its socket is open and no write has failed, a session can go on.\<close>

definition session_live :: "etcp_session \<Rightarrow> bool" where
  "session_live s \<longleftrightarrow> is_open s \<and> \<not> failed s"

lemma session_can_write:
  assumes "session.endpoint_inv little s" "session_live s" "sq_list (snd_of s) = d # ds"
  shows "\<exists>e t. session_step little s e t \<and> session_live t \<and> rcv_of t = rcv_of s \<and>
    sq_list (snd_of t) = ds \<and> sq_queued (snd_of t) = sq_queued (snd_of s)"
proof -
  have w: "writes s = [d]" "m_send_data_list s = d # ds"
    using session.one_write [OF assms(1)] assms(3) by (simp_all add: snd_of_def)
  have "session_step little s (Write_ok d) (write_ok d s)"
    using w assms(2) by (simp add: session_live_def)
  moreover have "session_live (write_ok d s) \<and> rcv_of (write_ok d s) = rcv_of s \<and>
      sq_list (snd_of (write_ok d s)) = ds \<and> sq_queued (snd_of (write_ok d s)) = sq_queued (snd_of s)"
    using w assms(2) by (cases ds)
      (simp_all add: session_live_def write_ok_def do_write_def snd_of_def rcv_of_def received_def Let_def)
  ultimately show ?thesis by blast
qed

lemma session_can_read_head:
  assumes "session_live s" "rc_reads (rcv_of s) = [Read_head]" "length h = 6"
    "hdr_sign (read_header little h) = PROTOCOL_SIGN"
  shows "\<exists>e t. session_step little s e t \<and> session_live t \<and> snd_of t = snd_of s \<and>
    rc_reads (rcv_of t) \<noteq> [] \<and> rc_rx (rcv_of t) = rc_rx (rcv_of s) @ h"
proof -
  have "session_step little s (Head_ok h) (read_head little h s)"
    using assms by (simp add: rcv_of_def)
  moreover have "session_live (read_head little h s) \<and> snd_of (read_head little h s) = snd_of s \<and>
      rc_reads (rcv_of (read_head little h s)) \<noteq> [] \<and>
      rc_rx (rcv_of (read_head little h s)) = rc_rx (rcv_of s) @ h"
    using assms by (simp add: session_live_def read_head_def do_read_def snd_of_def rcv_of_def Let_def)
  ultimately show ?thesis by blast
qed

lemma session_can_read_body:
  assumes "session_live s" "rc_reads (rcv_of s) = [Read_body (length b)]"
  shows "\<exists>e t. session_step little s e t \<and> session_live t \<and> snd_of t = snd_of s \<and>
    rc_reads (rcv_of t) \<noteq> [] \<and> rc_rx (rcv_of t) = rc_rx (rcv_of s) @ b"
proof -
  have "session_step little s (Body_ok b) (read_body b s)"
    using assms by (simp add: rcv_of_def)
  moreover have "session_live (read_body b s) \<and> snd_of (read_body b s) = snd_of s \<and>
      rc_reads (rcv_of (read_body b s)) \<noteq> [] \<and> rc_rx (rcv_of (read_body b s)) = rc_rx (rcv_of s) @ b"
    using assms
    by (simp add: session_live_def read_body_def do_read_def call_def snd_of_def rcv_of_def Let_def)
  ultimately show ?thesis by blast
qed

interpretation session_live:
  live_endpoint little "session_step little" snd_of rcv_of session_ok session_live for little
proof unfold_locales
  show "session_live s \<Longrightarrow> \<not> sq_failed (snd_of s)" for s
    by (simp add: session_live_def snd_of_def)
qed (blast intro: session_can_write session_can_read_head session_can_read_body)+

lemma m_sink_step: "session_step little s e t \<Longrightarrow> m_sink t = m_sink s"
  by (induction rule: session_step.induct)
    (auto simp: session_steps frame_simps call_def split: session_task.splits list.splits option.splits)

lemma session_run_sink: "session_run little sink es s \<Longrightarrow> m_sink s = sink"
proof -
  have "run (session_step little) s es t \<Longrightarrow> m_sink t = m_sink s" for s t
    by (induction rule: run.induct) (simp_all add: m_sink_step)
  then show "session_run little sink es s \<Longrightarrow> m_sink s = sink"
    by (force simp: EtcpSession_def)
qed

text \<open>A session left by its peer: closed, but with its socket still open.\<close>

definition half_closed :: "etcp_session \<Rightarrow> bool" where
  "half_closed s \<longleftrightarrow> m_closed s \<and> is_open s \<and> calls s \<noteq> [] \<and> reads s = [] \<and> Task_close \<notin> set (tasks s)"

lemma half_closed_cong:
  assumes "half_closed s" "m_closed t = m_closed s" "is_open t = is_open s" "calls t = calls s"
    "reads t = reads s" "set (tasks t) \<subseteq> insert (Task_send p) (set (tasks s))"
  shows "half_closed t"
  using assms by (auto simp: half_closed_def)

lemma half_closed_send: "half_closed s \<Longrightarrow> half_closed (snd (send_message p s))"
  by (rule half_closed_cong [of s _ p]) (auto simp: send_message_def)

lemma half_closed_step: "session_step little s e t \<Longrightarrow> half_closed s \<Longrightarrow> half_closed t"
proof (induction rule: session_step.induct)
  case (s_close s)
  then show ?case by (simp add: half_closed_def close_def)
next
  case (s_send s p)
  then show ?case by (rule half_closed_send)
next
  case (s_send_data s d n)
  then show ?case using send_message_data_cases [of d n s] half_closed_send by metis
next
  case (s_task s t ts)
  then show ?case
    by (cases t) (simp_all add: half_closed_def run_task_def send_task_fields send_task_open)
next
  case (s_write_ok d s)
  show ?case
    by (rule half_closed_cong [OF s_write_ok.prems]) (auto simp: write_fields write_open)
next
  case (s_write_err d s e)
  show ?case
    by (rule half_closed_cong [OF s_write_err.prems]) (auto simp: write_fields write_open)
qed (simp_all add: half_closed_def)

lemma on_close_fields:
  "m_closed (on_close s)" "is_open (on_close s) = is_open s" "tasks (on_close s) = tasks s"
  "calls s \<noteq> [] \<Longrightarrow> calls (on_close s) \<noteq> []"
  by (simp_all add: on_close_def call_def Let_def)

lemma half_closed_start:
  assumes "session_life s" "Read_head \<in> set (reads s)" "is_open s" "Task_close \<notin> set (tasks s)"
  shows "half_closed (read_head_err s)"
proof -
  have "reads s = [Read_head]" "calls s \<noteq> []"
    using assms(1,2) by (auto simp: session_life_def dest: one_element split: if_splits)
  with assms(3,4) show ?thesis
    by (simp add: read_head_err_def half_closed_def on_close_fields notify_frame)
qed

interpretation half_closed: step_invariant "session_step little" half_closed for little
  by unfold_locales (rule half_closed_step)

section \<open>Properties\<close>

text \<open>
  A run in which every handler takes part: the peer sends a packet and the session
  answers with two, of which the first is on the wire when a write fails.
\<close>

definition demo_events :: "session_event list" where
  "demo_events =
     [Start ([49], 1) ([50], 2),
      Head_ok (packet_head True 2), Body_ok [7, 8],
      Call_send [1, 2, 3], Call_send_data (Some [4, 5]) 1, Run_task, Run_task,
      Write_ok (packet_head True 3), Write_ok [1, 2, 3], Write_err (packet_head True 1) [],
      Head_err]"

definition demo_session :: etcp_session where
  "demo_session = the (exec (session_next True) demo_events (EtcpSession True))"

lemma demo_defined: "exec (session_next True) demo_events (EtcpSession True) \<noteq> None"
  by code_simp

lemma demo_run: "session_run True True demo_events demo_session"
  unfolding demo_session_def by (rule session_exec.run_exec [OF demo_defined])

lemma demo_result:
  "queued demo_session = [[1, 2, 3], [4]]"
  "received demo_session = [[7, 8]]"
  "calls demo_session = [On_accept, Append_session, On_recv [7, 8], On_close, Remove_session]"
  "deframe False (wire demo_session) = ([[1, 2, 3]], Need_more [])"
  by code_simp+



text \<open>
  At any time a session has at most one write outstanding, of the front of its
  send list, and at most one read.
\<close>

theorem session_one_operation:
  assumes "session_run little True es s"
  shows "writes s = take 1 (m_send_data_list s) \<and> length (reads s) \<le> 1"
  using session.one_write [OF session_run_endpoint [OF assms]]
    session.one_read [OF session_run_endpoint [OF assms]]
  by (simp add: snd_of_def rcv_of_def)

theorem session_one_operation_witness:
  "session_run True True demo_events demo_session \<and>
   writes demo_session = take 1 (m_send_data_list demo_session) \<and> length (reads demo_session) \<le> 1"
  using session_one_operation [OF demo_run] demo_run by blast

text \<open>
  C6: what a session receives. The packets handed to the sink are those of the byte
  stream the reads delivered, whatever the sizes and however the peer framed them:
  empty packets are skipped, and nothing is delivered after a wrong sign.
\<close>

theorem session_receives_stream:
  assumes "session_run little True es s"
  shows "received s = fst (deframe little (rx s))"
  using session.received_packets [OF session_run_endpoint [OF assms]]
  by (simp add: rcv_of_def)

theorem session_receives_stream_witness:
  "session_run True True demo_events demo_session \<and> received demo_session = [[7, 8]] \<and>
   fst (deframe True (rx demo_session)) = [[7, 8]]"
  using session_receives_stream [OF demo_run] demo_run demo_result(2) by simp



text \<open>
  A session whose read fails (the peer is gone) tells the sink and leaves the
  server, but keeps its socket: unless a close was already posted, the socket stays
  open in every further run, \<open>close\<close> has no effect any more, and \<open>send_message\<close>
  accepts every packet.
\<close>

theorem closed_session_accepts_packets:
  assumes "session_run little sink es s"
    and "session_step little s Head_err t"
    and "is_open s" and "Task_close \<notin> set (tasks s)"
    and "run (session_step little) t fs u"
    and "p \<noteq> []"
  shows "m_closed u \<and> is_open u \<and> close u = u \<and> fst (send_message p u)"
proof -
  have "half_closed t"
    using half_closed_start [OF session_run_life [OF assms(1)]] assms(2-4) by simp
  then have "half_closed u" using half_closed.run_inv [OF assms(5)] by blast
  with assms(6) show ?thesis by (simp add: half_closed_def close_def send_message_def)
qed

theorem closed_session_accepts_packets_witness:
  "\<exists>s t. session_run True True [Start ([49], 1) ([50], 2)] s \<and> session_step True s Head_err t \<and>
     m_closed t \<and> is_open t \<and> fst (send_message [1] t)"
proof -
  define s where "s = start ([49], 1) ([50], 2) (EtcpSession True\<lparr>is_open := True\<rparr>)"
  have r: "session_run True True [Start ([49], 1) ([50], 2)] s"
    unfolding s_def by (rule run_Cons [OF _ run_Nil]) (simp add: EtcpSession_def)
  have h: "session_step True s Head_err (read_head_err s)"
    by (simp add: s_def start_def do_read_def)
  have o: "is_open s" "Task_close \<notin> set (tasks s)"
    by (simp_all add: s_def start_def do_read_def on_accept_def call_def EtcpSession_def)
  show ?thesis
    by (rule exI [of _ s], rule exI [of _ "read_head_err s"])
      (use closed_session_accepts_packets [OF r h o run_Nil, of "[1]"] r h in blast)
qed

end
