(* ===== verification/Etcp_Client.thy ===== *)
theory Etcp_Client
  imports Etcp_Channel "HOL-Library.Signed_Division"
begin

text \<open>
  src/etcp_client: the ETCP client. \<open>EtcpClientImpl\<close> keeps one socket, which every
  \<open>connect\<close> replaces; \<open>gen\<close> numbers the sockets, and an operation not yet completed
  carries the number of the socket it was started on. One worker thread runs the posted
  \<open>tasks\<close> in order; completions of socket operations may come at any time, with or
  without an error, also for a socket that has been replaced. \<open>wire g\<close> and \<open>rx g\<close> are
  the bytes sent on socket \<open>g\<close> and those delivered by its completed packet reads.
\<close>

section \<open>State\<close>

datatype client_task = Task_close | Task_connect | Task_send bytes

datatype client_call =
    On_connect
  | On_recv bytes
  | On_error bytes bytes
  | On_close

datatype dial_op = Dial_connect | Dial_request | Dial_response

record etcp_client =
  m_running :: bool
  m_closed :: bool
  m_sink :: bool
  m_request :: bytes
  m_response :: bytes
  m_endpoint :: "bytes \<times> u16"
  m_work :: bool
  socket_open :: bool
  m_recv_head :: bytes
  m_recv_data :: bytes
  m_send_data_list :: "bytes list"
  gen :: nat
  tasks :: "client_task list"
  dials :: "(nat \<times> dial_op) list"
  reads :: "(nat \<times> read_op) list"
  writes :: "(nat \<times> bytes) list"
  calls :: "client_call list"
  queued :: "bytes list"
  wire :: "nat \<Rightarrow> bytes"
  rx :: "nat \<Rightarrow> bytes"
  failed :: "nat \<Rightarrow> bool"

definition EtcpClientImpl :: etcp_client where
  "EtcpClientImpl =
     \<lparr>m_running = False, m_closed = True, m_sink = False, m_request = [], m_response = [],
      m_endpoint = ([], 0), m_work = False, socket_open = False,
      m_recv_head = replicate 6 0, m_recv_data = [], m_send_data_list = [],
      gen = 0, tasks = [], dials = [], reads = [], writes = [], calls = [], queued = [],
      wire = (\<lambda>_. []), rx = (\<lambda>_. []), failed = (\<lambda>_. False)\<rparr>"

section \<open>The response of the HTTP proxy\<close>

text \<open>
  \<open>sscanf(text, "HTTP/%f %d", ...)\<close>. \<open>scan_float\<close> is the rest of the input behind the
  number that \<open>%f\<close> reads (decimal or hexadecimal, an infinity or a NaN), \<open>scan_int\<close> the
  value that \<open>%d\<close> reads, which is clamped to a long and then stored in an int.
\<close>

definition is_space :: "byte \<Rightarrow> bool" where
  "is_space c \<longleftrightarrow> c = 32 \<or> (9 \<le> c \<and> c \<le> 13)"

definition is_digit :: "byte \<Rightarrow> bool" where
  "is_digit c \<longleftrightarrow> 48 \<le> c \<and> c \<le> 57"

definition is_xdigit :: "byte \<Rightarrow> bool" where
  "is_xdigit c \<longleftrightarrow> is_digit c \<or> (65 \<le> c \<and> c \<le> 70) \<or> (97 \<le> c \<and> c \<le> 102)"

definition skip_space :: "bytes \<Rightarrow> bytes" where
  "skip_space = dropWhile is_space"

definition skip_sign :: "bytes \<Rightarrow> bytes" where
  "skip_sign bs = (case bs of c # cs \<Rightarrow> if c = 43 \<or> c = 45 then cs else bs | [] \<Rightarrow> [])"

definition to_lower :: "byte \<Rightarrow> byte" where
  "to_lower c = (if 65 \<le> c \<and> c \<le> 90 then c + 32 else c)"

definition scan_exponent :: "byte \<Rightarrow> bytes \<Rightarrow> bytes option" where
  "scan_exponent mark bs =
     (case bs of
        c # cs \<Rightarrow>
          if to_lower c = mark then
            (let ds = skip_sign cs
             in if ds \<noteq> [] \<and> is_digit (hd ds) then Some (dropWhile is_digit ds) else None)
          else Some bs
      | [] \<Rightarrow> Some [])"

definition scan_mantissa :: "(byte \<Rightarrow> bool) \<Rightarrow> bytes \<Rightarrow> bytes option" where
  "scan_mantissa digit bs =
     (let whole = takeWhile digit bs; rest = dropWhile digit bs
      in case rest of
           c # cs \<Rightarrow>
             if c = 46 then
               (if whole = [] \<and> takeWhile digit cs = [] then None else Some (dropWhile digit cs))
             else if whole = [] then None else Some rest
         | [] \<Rightarrow> if whole = [] then None else Some [])"

definition scan_float :: "bytes \<Rightarrow> bytes option" where
  "scan_float bs =
     (let cs = skip_sign (skip_space bs); low = map to_lower cs
      in if take 3 low = ascii ''inf'' then
           (if take 1 (drop 3 low) = ascii ''i''
            then (if take 8 low = ascii ''infinity'' then Some (drop 8 cs) else None)
            else Some (drop 3 cs))
         else if take 3 low = ascii ''nan'' then Some (drop 3 cs)
         else if take 2 low = ascii ''0x'' then
           Option.bind (scan_mantissa is_xdigit (drop 2 cs)) (scan_exponent 112)
         else Option.bind (scan_mantissa is_digit cs) (scan_exponent 101))"

definition digits_value :: "bytes \<Rightarrow> int" where
  "digits_value ds = foldl (\<lambda>n c. 10 * n + (uint c - 48)) 0 ds"

definition scan_int :: "bytes \<Rightarrow> int option" where
  "scan_int bs =
     (let cs = skip_space bs; ds = takeWhile is_digit (skip_sign cs);
          v = (if take 1 cs = ascii ''-'' then - digits_value ds else digits_value ds)
      in if ds = [] then None
         else Some (sint (of_int (max (- (2 ^ 63)) (min (2 ^ 63 - 1) v)) :: u32)))"

definition scan_status :: "bytes \<Rightarrow> int" where
  "scan_status response =
     (let text = takeWhile (\<lambda>c. c \<noteq> 0) response
      in if take 5 text = ascii ''HTTP/'' then
           (case scan_float (drop 5 text) of
              None \<Rightarrow> 0
            | Some rest \<Rightarrow> (case scan_int (skip_space rest) of None \<Rightarrow> 0 | Some n \<Rightarrow> n))
         else 0)"

text \<open>\<open>std::to_string\<close> of an int.\<close>

definition int_to_string :: "int \<Rightarrow> bytes" where
  "int_to_string n = (if n < 0 then ascii ''-'' @ to_string (nat (- n)) else to_string (nat n))"

section \<open>Operations and handlers\<close>

definition is_connected :: "etcp_client \<Rightarrow> bool" where
  "is_connected s = socket_open s"

definition call :: "client_call \<Rightarrow> etcp_client \<Rightarrow> etcp_client" where
  "call c s = s\<lparr>calls := calls s @ [c]\<rparr>"

definition on_connect :: "etcp_client \<Rightarrow> etcp_client" where
  "on_connect s = (if m_sink s then call On_connect s else s)"

definition on_close :: "etcp_client \<Rightarrow> etcp_client" where
  "on_close s = (if m_sink s \<and> \<not> m_closed s then call On_close s else s)\<lparr>m_closed := True\<rparr>"

definition on_error :: "bytes \<Rightarrow> bytes \<Rightarrow> etcp_client \<Rightarrow> etcp_client" where
  "on_error action message s = (if m_sink s then call (On_error action message) s else s)"

definition real_connect :: "etcp_client \<Rightarrow> etcp_client" where
  "real_connect s =
     s\<lparr>socket_open := True, gen := Suc (gen s), dials := dials s @ [(Suc (gen s), Dial_connect)]\<rparr>"

definition real_close :: "etcp_client \<Rightarrow> etcp_client" where
  "real_close s = (if socket_open s then s\<lparr>socket_open := False\<rparr> else s)"

definition do_connect :: "etcp_client \<Rightarrow> etcp_client" where
  "do_connect s = s\<lparr>tasks := tasks s @ [Task_connect]\<rparr>"

definition do_close :: "etcp_client \<Rightarrow> etcp_client" where
  "do_close s = s\<lparr>tasks := tasks s @ [Task_close]\<rparr>"

definition close_task :: "etcp_client \<Rightarrow> etcp_client" where
  "close_task s = (if is_connected s then on_close (real_close s) else s)"

definition do_read :: "etcp_client \<Rightarrow> etcp_client" where
  "do_read s = s\<lparr>reads := reads s @ [(gen s, Read_head)]\<rparr>"

definition do_write :: "etcp_client \<Rightarrow> etcp_client" where
  "do_write s =
     (case m_send_data_list s of
        [] \<Rightarrow> s
      | data # _ \<Rightarrow> s\<lparr>writes := writes s @ [(gen s, data)]\<rparr>)"

definition do_proxy :: "etcp_client \<Rightarrow> etcp_client" where
  "do_proxy s = s\<lparr>dials := dials s @ [(gen s, Dial_request)]\<rparr>"

definition connect :: "etcp_client \<Rightarrow> etcp_client" where
  "connect s =
     (if m_running s then do_connect (if is_connected s then do_close s else s) else s)"

definition close :: "etcp_client \<Rightarrow> etcp_client" where
  "close s = (if m_running s then do_close s else s)"

definition send_message :: "bytes \<Rightarrow> etcp_client \<Rightarrow> bool \<times> etcp_client" where
  "send_message packet s =
     (if \<not> m_running s \<or> \<not> is_connected s \<or> packet = [] then (False, s)
      else (True, s\<lparr>tasks := tasks s @ [Task_send packet]\<rparr>))"

definition send_task :: "bool \<Rightarrow> bytes \<Rightarrow> etcp_client \<Rightarrow> etcp_client" where
  "send_task little pack s =
     (if \<not> socket_open s then s
      else
        let s = s\<lparr>m_send_data_list := m_send_data_list s @ [packet_head little (length pack), pack],
                  queued := queued s @ [pack]\<rparr>
        in if length (m_send_data_list s) = 2 then do_write s else s)"

definition exit :: "etcp_client \<Rightarrow> etcp_client" where
  "exit s =
     (if m_running s
      then s\<lparr>m_running := False, m_work := False, m_request := [], m_send_data_list := []\<rparr>
      else s)"

text \<open>
  \<open>init\<close>: \<open>valid\<close> says which texts \<open>asio::ip::make_address\<close> accepts; it throws for the
  others (\<open>None\<close>).
\<close>

definition proxy_request :: "bytes \<Rightarrow> u16 \<Rightarrow> bytes \<Rightarrow> bytes" where
  "proxy_request target_host target_port connect_data =
     ascii ''CONNECT '' @ target_host @ ascii '':'' @ to_string (unat target_port) @
     ascii '' HTTP/1.0'' @ [13, 10] @
     (if connect_data \<noteq> [] then ascii ''user_data:'' @ connect_data @ [13, 10] else []) @
     [13, 10]"

definition init :: "(bytes \<Rightarrow> bool) \<Rightarrow> bool \<Rightarrow> bytes \<Rightarrow> u16 \<Rightarrow> bytes \<Rightarrow> u16 \<Rightarrow> bytes \<Rightarrow>
    etcp_client \<Rightarrow> bool option \<times> etcp_client" where
  "init valid sink target_host target_port gateway_host gateway_port connect_data s =
     (let s = (exit s)\<lparr>m_running := True, m_closed := True, m_sink := sink\<rparr>;
          target = (target_host \<noteq> [] \<and> target_port \<noteq> 0);
          gateway = (gateway_host \<noteq> [] \<and> gateway_port \<noteq> 0);
          s = (if target \<and> gateway
               then s\<lparr>m_request := proxy_request target_host target_port connect_data\<rparr> else s)
      in if \<not> target \<and> \<not> gateway then (Some False, exit s)
         else
           let (host, port) = (if gateway then (gateway_host, gateway_port)
                               else (target_host, target_port))
           in if \<not> valid host then (None, s)
              else (Some True, s\<lparr>m_endpoint := (host, port), m_work := True\<rparr>))"

text \<open>The completion handlers of one connection attempt.\<close>

definition connect_ok :: "nat \<Rightarrow> etcp_client \<Rightarrow> etcp_client" where
  "connect_ok g s =
     (let s = s\<lparr>dials := remove1 (g, Dial_connect) (dials s), m_closed := False\<rparr>
      in if m_request s \<noteq> [] then do_proxy s else on_connect (do_read s))"

definition connect_err :: "nat \<Rightarrow> bytes \<Rightarrow> etcp_client \<Rightarrow> etcp_client" where
  "connect_err g message s =
     on_close (on_error (ascii ''connect'') message
       (s\<lparr>dials := remove1 (g, Dial_connect) (dials s), m_closed := False\<rparr>))"

definition request_ok :: "nat \<Rightarrow> etcp_client \<Rightarrow> etcp_client" where
  "request_ok g s =
     s\<lparr>dials := remove1 (g, Dial_request) (dials s) @ [(gen s, Dial_response)],
       wire := (wire s)(g := wire s g @ m_request s)\<rparr>"

definition request_err :: "nat \<Rightarrow> bytes \<Rightarrow> bytes \<Rightarrow> etcp_client \<Rightarrow> etcp_client" where
  "request_err g sent message s =
     on_close (real_close (on_error (ascii ''connect'')
       (ascii ''http proxy send request error: '' @ message)
       (s\<lparr>dials := remove1 (g, Dial_request) (dials s),
          wire := (wire s)(g := wire s g @ sent)\<rparr>)))"

definition response_ok :: "nat \<Rightarrow> bytes \<Rightarrow> etcp_client \<Rightarrow> etcp_client" where
  "response_ok g bs s =
     (let s = s\<lparr>dials := remove1 (g, Dial_response) (dials s), m_response := m_response s @ bs\<rparr>;
          http_status = scan_status (m_response s);
          s = s\<lparr>m_response := drop (the (head_end (m_response s))) (m_response s)\<rparr>
      in if http_status sdiv 100 \<noteq> 2 then
           on_close (real_close (on_error (ascii ''connect'')
             (ascii ''http proxy recv response status: '' @ int_to_string http_status) s))
         else on_connect (do_read s))"

definition response_err :: "nat \<Rightarrow> bytes \<Rightarrow> bytes \<Rightarrow> etcp_client \<Rightarrow> etcp_client" where
  "response_err g bs message s =
     on_close (real_close (on_error (ascii ''connect'')
       (ascii ''http proxy recv request error: '' @ message)
       (s\<lparr>dials := remove1 (g, Dial_response) (dials s), m_response := m_response s @ bs\<rparr>)))"

text \<open>The completion handlers of packet writes and reads.\<close>

definition write_ok :: "nat \<Rightarrow> bytes \<Rightarrow> etcp_client \<Rightarrow> etcp_client" where
  "write_ok g d s =
     (let s = s\<lparr>writes := remove1 (g, d) (writes s), wire := (wire s)(g := wire s g @ d)\<rparr>;
          s = s\<lparr>m_send_data_list := tl (m_send_data_list s)\<rparr>
      in if m_send_data_list s \<noteq> [] then do_write s else s)"

definition write_err :: "nat \<Rightarrow> bytes \<Rightarrow> bytes \<Rightarrow> etcp_client \<Rightarrow> etcp_client" where
  "write_err g d sent s =
     s\<lparr>writes := remove1 (g, d) (writes s), wire := (wire s)(g := wire s g @ sent),
       failed := (failed s)(g := True), m_send_data_list := []\<rparr>"

definition read_head :: "bool \<Rightarrow> nat \<Rightarrow> bytes \<Rightarrow> etcp_client \<Rightarrow> etcp_client" where
  "read_head little g h s =
     (let s = s\<lparr>reads := remove1 (g, Read_head) (reads s), rx := (rx s)(g := rx s g @ h)\<rparr>;
          header = read_header little h;
          s = s\<lparr>m_recv_head := header_mem little header\<rparr>
      in if PROTOCOL_SIGN \<noteq> hdr_sign header then
           on_close (real_close (on_error (ascii ''recv'') (ascii ''protocol sign check failed'') s))
         else if hdr_size header = 0 then do_read s
         else s\<lparr>m_recv_data := take (unat (hdr_size header))
                   (m_recv_data s @ replicate (unat (hdr_size header)) 0),
                reads := reads s @ [(gen s, Read_body (unat (hdr_size header)))]\<rparr>)"

definition read_head_err :: "nat \<Rightarrow> etcp_client \<Rightarrow> etcp_client" where
  "read_head_err g s = on_close (s\<lparr>reads := remove1 (g, Read_head) (reads s)\<rparr>)"

definition read_body :: "nat \<Rightarrow> bytes \<Rightarrow> etcp_client \<Rightarrow> etcp_client" where
  "read_body g b s =
     (let len = length b;
          s = s\<lparr>reads := remove1 (g, Read_body len) (reads s), rx := (rx s)(g := rx s g @ b),
                m_recv_data := b @ drop len (m_recv_data s)\<rparr>;
          s = do_read s;
          s = (if length (m_recv_data s) \<noteq> len
               then s\<lparr>m_recv_data := take len (m_recv_data s)\<rparr> else s)
      in if m_sink s then call (On_recv (m_recv_data s)) s else s)"

definition read_body_err :: "nat \<Rightarrow> nat \<Rightarrow> etcp_client \<Rightarrow> etcp_client" where
  "read_body_err g n s = on_close (s\<lparr>reads := remove1 (g, Read_body n) (reads s)\<rparr>)"

section \<open>Steps\<close>

datatype client_event =
    Call_connect
  | Call_close
  | Call_send bytes
  | Call_exit
  | Run_task
  | Connect_ok nat
  | Connect_err nat bytes
  | Request_ok nat
  | Request_err nat bytes bytes
  | Response_ok nat bytes
  | Response_err nat bytes bytes
  | Write_ok nat bytes
  | Write_err nat bytes bytes
  | Head_ok nat bytes
  | Head_err nat
  | Body_ok nat bytes
  | Body_err nat nat

definition run_task :: "bool \<Rightarrow> client_task \<Rightarrow> etcp_client \<Rightarrow> etcp_client" where
  "run_task little t s =
     (case t of
        Task_close \<Rightarrow> close_task s
      | Task_connect \<Rightarrow> real_connect s
      | Task_send p \<Rightarrow> send_task little p s)"

text \<open>
  The life of a client between \<open>init\<close> and \<open>exit\<close>; after \<open>exit\<close> the worker thread has
  ended and no handler runs. A sink callback that calls back only posts tasks, so such
  calls are the events that follow the handler.
\<close>

definition delivered :: "etcp_client \<Rightarrow> bytes \<Rightarrow> bool" where
  "delivered s bs \<longleftrightarrow>
     head_end (m_response s @ bs) \<noteq> None \<and> (head_end (m_response s) \<noteq> None \<longrightarrow> bs = [])"

inductive client_step :: "bool \<Rightarrow> etcp_client \<Rightarrow> client_event \<Rightarrow> etcp_client \<Rightarrow> bool" for little where
  c_connect: "client_step little s Call_connect (connect s)"
| c_close: "client_step little s Call_close (close s)"
| c_send: "client_step little s (Call_send p) (snd (send_message p s))"
| c_exit: "client_step little s Call_exit (exit s)"
| c_task: "m_running s \<Longrightarrow> tasks s = t # ts \<Longrightarrow>
     client_step little s Run_task (run_task little t (s\<lparr>tasks := ts\<rparr>))"
| c_connect_ok: "m_running s \<Longrightarrow> (g, Dial_connect) \<in> set (dials s) \<Longrightarrow>
     client_step little s (Connect_ok g) (connect_ok g s)"
| c_connect_err: "m_running s \<Longrightarrow> (g, Dial_connect) \<in> set (dials s) \<Longrightarrow>
     client_step little s (Connect_err g m) (connect_err g m s)"
| c_request_ok: "m_running s \<Longrightarrow> (g, Dial_request) \<in> set (dials s) \<Longrightarrow> \<not> failed s g \<Longrightarrow>
     client_step little s (Request_ok g) (request_ok g s)"
| c_request_err: "m_running s \<Longrightarrow> (g, Dial_request) \<in> set (dials s) \<Longrightarrow>
     prefix e (m_request s) \<Longrightarrow> (failed s g \<longrightarrow> e = []) \<Longrightarrow>
     client_step little s (Request_err g e m) (request_err g e m s)"
| c_response_ok: "m_running s \<Longrightarrow> (g, Dial_response) \<in> set (dials s) \<Longrightarrow> delivered s bs \<Longrightarrow>
     client_step little s (Response_ok g bs) (response_ok g bs s)"
| c_response_err: "m_running s \<Longrightarrow> (g, Dial_response) \<in> set (dials s) \<Longrightarrow>
     head_end (m_response s @ bs) = None \<Longrightarrow>
     client_step little s (Response_err g bs m) (response_err g bs m s)"
| c_write_ok: "m_running s \<Longrightarrow> (g, d) \<in> set (writes s) \<Longrightarrow> \<not> failed s g \<Longrightarrow>
     client_step little s (Write_ok g d) (write_ok g d s)"
| c_write_err: "m_running s \<Longrightarrow> (g, d) \<in> set (writes s) \<Longrightarrow> prefix e d \<Longrightarrow>
     (failed s g \<longrightarrow> e = []) \<Longrightarrow> client_step little s (Write_err g d e) (write_err g d e s)"
| c_head_ok: "m_running s \<Longrightarrow> (g, Read_head) \<in> set (reads s) \<Longrightarrow> length h = 6 \<Longrightarrow>
     client_step little s (Head_ok g h) (read_head little g h s)"
| c_head_err: "m_running s \<Longrightarrow> (g, Read_head) \<in> set (reads s) \<Longrightarrow>
     client_step little s (Head_err g) (read_head_err g s)"
| c_body_ok: "m_running s \<Longrightarrow> (g, Read_body (length b)) \<in> set (reads s) \<Longrightarrow>
     client_step little s (Body_ok g b) (read_body g b s)"
| c_body_err: "m_running s \<Longrightarrow> (g, Read_body n) \<in> set (reads s) \<Longrightarrow>
     client_step little s (Body_err g n) (read_body_err g n s)"

definition client_next :: "bool \<Rightarrow> client_event \<Rightarrow> etcp_client \<Rightarrow> etcp_client option" where
  "client_next little e s =
     (case e of
        Call_connect \<Rightarrow> Some (connect s)
      | Call_close \<Rightarrow> Some (close s)
      | Call_send p \<Rightarrow> Some (snd (send_message p s))
      | Call_exit \<Rightarrow> Some (exit s)
      | Run_task \<Rightarrow>
          (case tasks s of [] \<Rightarrow> None
           | t # ts \<Rightarrow> if m_running s then Some (run_task little t (s\<lparr>tasks := ts\<rparr>)) else None)
      | Connect_ok g \<Rightarrow>
          if m_running s \<and> (g, Dial_connect) \<in> set (dials s) then Some (connect_ok g s) else None
      | Connect_err g m \<Rightarrow>
          if m_running s \<and> (g, Dial_connect) \<in> set (dials s) then Some (connect_err g m s) else None
      | Request_ok g \<Rightarrow>
          if m_running s \<and> (g, Dial_request) \<in> set (dials s) \<and> \<not> failed s g
          then Some (request_ok g s) else None
      | Request_err g e m \<Rightarrow>
          if m_running s \<and> (g, Dial_request) \<in> set (dials s) \<and> prefix e (m_request s) \<and>
             (failed s g \<longrightarrow> e = [])
          then Some (request_err g e m s) else None
      | Response_ok g bs \<Rightarrow>
          if m_running s \<and> (g, Dial_response) \<in> set (dials s) \<and> delivered s bs
          then Some (response_ok g bs s) else None
      | Response_err g bs m \<Rightarrow>
          if m_running s \<and> (g, Dial_response) \<in> set (dials s) \<and> head_end (m_response s @ bs) = None
          then Some (response_err g bs m s) else None
      | Write_ok g d \<Rightarrow>
          if m_running s \<and> (g, d) \<in> set (writes s) \<and> \<not> failed s g
          then Some (write_ok g d s) else None
      | Write_err g d e \<Rightarrow>
          if m_running s \<and> (g, d) \<in> set (writes s) \<and> prefix e d \<and> (failed s g \<longrightarrow> e = [])
          then Some (write_err g d e s) else None
      | Head_ok g h \<Rightarrow>
          if m_running s \<and> (g, Read_head) \<in> set (reads s) \<and> length h = 6
          then Some (read_head little g h s) else None
      | Head_err g \<Rightarrow>
          if m_running s \<and> (g, Read_head) \<in> set (reads s) then Some (read_head_err g s) else None
      | Body_ok g b \<Rightarrow>
          if m_running s \<and> (g, Read_body (length b)) \<in> set (reads s)
          then Some (read_body g b s) else None
      | Body_err g n \<Rightarrow>
          if m_running s \<and> (g, Read_body n) \<in> set (reads s)
          then Some (read_body_err g n s) else None)"

inductive_simps client_step_simps:
  "client_step little s Call_connect t"
  "client_step little s Call_close t"
  "client_step little s (Call_send p) t"
  "client_step little s Call_exit t"
  "client_step little s Run_task t"
  "client_step little s (Connect_ok g) t"
  "client_step little s (Connect_err g m) t"
  "client_step little s (Request_ok g) t"
  "client_step little s (Request_err g x m) t"
  "client_step little s (Response_ok g bs) t"
  "client_step little s (Response_err g bs m) t"
  "client_step little s (Write_ok g d) t"
  "client_step little s (Write_err g d x) t"
  "client_step little s (Head_ok g h) t"
  "client_step little s (Head_err g) t"
  "client_step little s (Body_ok g b) t"
  "client_step little s (Body_err g n) t"

lemma client_step_iff: "client_step little s e t \<longleftrightarrow> client_next little e s = Some t"
  by (cases e) (auto simp: client_step_simps client_next_def split: list.splits if_splits)

interpretation client_exec: executable_steps "client_step little" "client_next little" for little
  by unfold_locales (rule client_step_iff)

abbreviation client_run :: "bool \<Rightarrow> etcp_client \<Rightarrow> client_event list \<Rightarrow> etcp_client \<Rightarrow> bool" where
  "client_run little \<equiv> run (client_step little)"

section \<open>One connection is an ETCP endpoint\<close>

text \<open>
  The contract holds for a client that connects once and, behind a proxy, sends nothing
  before it has been told of the connection. \<open>snd_of\<close> and \<open>rcv_of\<close> are its views as
  the abstract sender and receiver; the request to the proxy comes before the stream.
\<close>

definition orderly_step :: "bool \<Rightarrow> etcp_client \<Rightarrow> client_event \<Rightarrow> etcp_client \<Rightarrow> bool" where
  "orderly_step little s e t \<longleftrightarrow>
     client_step little s e t \<and> gen t \<le> 1 \<and> e \<noteq> Call_exit \<and>
     (m_request s \<noteq> [] \<and> queued t \<noteq> queued s \<longrightarrow> On_connect \<in> set (calls s))"

definition orderly_next :: "bool \<Rightarrow> client_event \<Rightarrow> etcp_client \<Rightarrow> etcp_client option" where
  "orderly_next little e s =
     (case client_next little e s of
        None \<Rightarrow> None
      | Some t \<Rightarrow>
          if gen t \<le> 1 \<and> e \<noteq> Call_exit \<and>
             (m_request s \<noteq> [] \<and> queued t \<noteq> queued s \<longrightarrow> On_connect \<in> set (calls s))
          then Some t else None)"

lemma orderly_step_iff: "orderly_step little s e t \<longleftrightarrow> orderly_next little e s = Some t"
  by (auto simp: orderly_step_def orderly_next_def client_step_iff split: option.splits)

interpretation orderly_exec: executable_steps "orderly_step little" "orderly_next little" for little
  by unfold_locales (rule orderly_step_iff)

fun recv_of :: "client_call \<Rightarrow> bytes list" where
  "recv_of (On_recv b) = [b]"
| "recv_of _ = []"

definition received :: "etcp_client \<Rightarrow> bytes list" where
  "received s = concat (map recv_of (calls s))"

definition snd_of :: "etcp_client \<Rightarrow> sender" where
  "snd_of s = \<lparr>sq_list = m_send_data_list s, sq_out = map snd (writes s), sq_queued = queued s,
               sq_wire = drop (length (m_request s)) (wire s 1), sq_failed = failed s 1\<rparr>"

definition rcv_of :: "etcp_client \<Rightarrow> receiver" where
  "rcv_of s = \<lparr>rc_reads = map snd (reads s), rc_rx = rx s 1, rc_msgs = received s\<rparr>"

text \<open>How far the connection attempt has come, and what has not happened yet by then.\<close>

definition fresh_reader :: "etcp_client \<Rightarrow> bool" where
  "fresh_reader s \<longleftrightarrow> reads s = [] \<and> rx s 1 = [] \<and> received s = [] \<and> On_connect \<notin> set (calls s)"

definition dial_phase :: "etcp_client \<Rightarrow> bool" where
  "dial_phase s \<longleftrightarrow>
     (if gen s = 0 then dials s = [] \<and> fresh_reader s \<and> wire s 1 = [] \<and> \<not> socket_open s \<and> writes s = []
      else if dials s = [] then True
      else if dials s = [(1, Dial_connect)] then
        fresh_reader s \<and> (m_request s \<noteq> [] \<longrightarrow> wire s 1 = [])
      else if dials s = [(1, Dial_request)] then
        fresh_reader s \<and> m_request s \<noteq> [] \<and> wire s 1 = []
      else if dials s = [(1, Dial_response)] then
        fresh_reader s \<and> m_request s \<noteq> [] \<and> wire s 1 = m_request s
      else False)"

definition request_first :: "etcp_client \<Rightarrow> bool" where
  "request_first s \<longleftrightarrow>
     (m_request s \<noteq> [] \<longrightarrow>
        (if On_connect \<in> set (calls s) then prefix (m_request s) (wire s 1)
         else writes s = [] \<and> m_send_data_list s = [] \<and> queued s = [] \<and> prefix (wire s 1) (m_request s)))"

definition one_socket :: "etcp_client \<Rightarrow> bool" where
  "one_socket s \<longleftrightarrow>
     gen s \<le> 1 \<and> (\<forall>x \<in> set (reads s). fst x = 1) \<and> (\<forall>x \<in> set (writes s). fst x = 1) \<and>
     length (reads s) \<le> 1"

definition client_ok :: "etcp_client \<Rightarrow> bool" where
  "client_ok s \<longleftrightarrow> m_sink s \<and> one_socket s \<and> dial_phase s \<and> request_first s"

lemmas client_views = fresh_reader_def dial_phase_def request_first_def one_socket_def client_ok_def

text \<open>The notifications and \<open>real_close\<close> touch only the log and the flags.\<close>

lemma on_close_frame [simp]:
  "m_running (on_close s) = m_running s"
  "m_sink (on_close s) = m_sink s"
  "m_request (on_close s) = m_request s"
  "m_response (on_close s) = m_response s"
  "m_endpoint (on_close s) = m_endpoint s"
  "m_work (on_close s) = m_work s"
  "m_recv_head (on_close s) = m_recv_head s"
  "m_recv_data (on_close s) = m_recv_data s"
  "m_send_data_list (on_close s) = m_send_data_list s"
  "gen (on_close s) = gen s"
  "tasks (on_close s) = tasks s"
  "dials (on_close s) = dials s"
  "reads (on_close s) = reads s"
  "writes (on_close s) = writes s"
  "queued (on_close s) = queued s"
  "wire (on_close s) = wire s"
  "rx (on_close s) = rx s"
  "failed (on_close s) = failed s"
  "socket_open (on_close s) = socket_open s"
  "received (on_close s) = received s" "m_closed (on_close s)"
  "On_connect \<in> set (calls (on_close s)) \<longleftrightarrow> On_connect \<in> set (calls s)"
  by (simp_all add: on_close_def call_def received_def)

lemma on_error_frame [simp]:
  "m_running (on_error a m s) = m_running s"
  "m_sink (on_error a m s) = m_sink s"
  "m_request (on_error a m s) = m_request s"
  "m_response (on_error a m s) = m_response s"
  "m_endpoint (on_error a m s) = m_endpoint s"
  "m_work (on_error a m s) = m_work s"
  "m_recv_head (on_error a m s) = m_recv_head s"
  "m_recv_data (on_error a m s) = m_recv_data s"
  "m_send_data_list (on_error a m s) = m_send_data_list s"
  "gen (on_error a m s) = gen s"
  "tasks (on_error a m s) = tasks s"
  "dials (on_error a m s) = dials s"
  "reads (on_error a m s) = reads s"
  "writes (on_error a m s) = writes s"
  "queued (on_error a m s) = queued s"
  "wire (on_error a m s) = wire s"
  "rx (on_error a m s) = rx s"
  "failed (on_error a m s) = failed s"
  "socket_open (on_error a m s) = socket_open s"
  "m_closed (on_error a m s) = m_closed s"
  "received (on_error a m s) = received s"
  "On_connect \<in> set (calls (on_error a m s)) \<longleftrightarrow> On_connect \<in> set (calls s)"
  by (simp_all add: on_error_def call_def received_def)

lemma real_close_frame [simp]:
  "m_running (real_close s) = m_running s"
  "m_sink (real_close s) = m_sink s"
  "m_request (real_close s) = m_request s"
  "m_response (real_close s) = m_response s"
  "m_endpoint (real_close s) = m_endpoint s"
  "m_work (real_close s) = m_work s"
  "m_recv_head (real_close s) = m_recv_head s"
  "m_recv_data (real_close s) = m_recv_data s"
  "m_send_data_list (real_close s) = m_send_data_list s"
  "gen (real_close s) = gen s"
  "tasks (real_close s) = tasks s"
  "dials (real_close s) = dials s"
  "reads (real_close s) = reads s"
  "writes (real_close s) = writes s"
  "queued (real_close s) = queued s"
  "wire (real_close s) = wire s"
  "rx (real_close s) = rx s"
  "failed (real_close s) = failed s"
  "calls (real_close s) = calls s"
  "m_closed (real_close s) = m_closed s"
  "received (real_close s) = received s" "\<not> socket_open (real_close s)"
  by (simp_all add: real_close_def received_def)

lemma on_connect_frame [simp]:
  "m_running (on_connect s) = m_running s"
  "m_sink (on_connect s) = m_sink s"
  "m_request (on_connect s) = m_request s"
  "m_response (on_connect s) = m_response s"
  "m_endpoint (on_connect s) = m_endpoint s"
  "m_work (on_connect s) = m_work s"
  "m_recv_head (on_connect s) = m_recv_head s"
  "m_recv_data (on_connect s) = m_recv_data s"
  "m_send_data_list (on_connect s) = m_send_data_list s"
  "gen (on_connect s) = gen s"
  "tasks (on_connect s) = tasks s"
  "dials (on_connect s) = dials s"
  "reads (on_connect s) = reads s"
  "writes (on_connect s) = writes s"
  "queued (on_connect s) = queued s"
  "wire (on_connect s) = wire s"
  "rx (on_connect s) = rx s"
  "failed (on_connect s) = failed s"
  "m_closed (on_connect s) = m_closed s"
  "socket_open (on_connect s) = socket_open s"
  "received (on_connect s) = received s"
  "m_sink s \<Longrightarrow> On_connect \<in> set (calls (on_connect s))"
  by (simp_all add: on_connect_def call_def received_def)

lemma received_update [simp]:
  "received (s\<lparr>m_running := x0\<rparr>) = received s"
  "received (s\<lparr>m_sink := x1\<rparr>) = received s"
  "received (s\<lparr>m_request := x2\<rparr>) = received s"
  "received (s\<lparr>m_response := x3\<rparr>) = received s"
  "received (s\<lparr>m_endpoint := x4\<rparr>) = received s"
  "received (s\<lparr>m_work := x5\<rparr>) = received s"
  "received (s\<lparr>m_recv_head := x6\<rparr>) = received s"
  "received (s\<lparr>m_recv_data := x7\<rparr>) = received s"
  "received (s\<lparr>m_send_data_list := x8\<rparr>) = received s"
  "received (s\<lparr>gen := x9\<rparr>) = received s"
  "received (s\<lparr>tasks := x10\<rparr>) = received s"
  "received (s\<lparr>dials := x11\<rparr>) = received s"
  "received (s\<lparr>reads := x12\<rparr>) = received s"
  "received (s\<lparr>writes := x13\<rparr>) = received s"
  "received (s\<lparr>queued := x14\<rparr>) = received s"
  "received (s\<lparr>wire := x15\<rparr>) = received s"
  "received (s\<lparr>rx := x16\<rparr>) = received s"
  "received (s\<lparr>failed := x17\<rparr>) = received s"
  "received (s\<lparr>m_closed := x18\<rparr>) = received s"
  "received (s\<lparr>socket_open := x19\<rparr>) = received s"
  by (simp_all add: received_def)

lemma on_recv_received [simp]: "received (call (On_recv b) s) = received s @ [b]"
  by (simp add: call_def received_def)

lemma client_call_frame [simp]:
  "m_running (call c s) = m_running s"
  "m_sink (call c s) = m_sink s"
  "m_request (call c s) = m_request s"
  "m_response (call c s) = m_response s"
  "m_endpoint (call c s) = m_endpoint s"
  "m_work (call c s) = m_work s"
  "m_recv_head (call c s) = m_recv_head s"
  "m_recv_data (call c s) = m_recv_data s"
  "m_send_data_list (call c s) = m_send_data_list s"
  "gen (call c s) = gen s"
  "tasks (call c s) = tasks s"
  "dials (call c s) = dials s"
  "reads (call c s) = reads s"
  "writes (call c s) = writes s"
  "queued (call c s) = queued s"
  "wire (call c s) = wire s"
  "rx (call c s) = rx s"
  "failed (call c s) = failed s"
  "m_closed (call c s) = m_closed s"
  "socket_open (call c s) = socket_open s"
  "calls (call c s) = calls s @ [c]"
  by (simp_all add: call_def)

lemma do_read_frame [simp]:
  "m_running (do_read s) = m_running s"
  "m_sink (do_read s) = m_sink s"
  "m_request (do_read s) = m_request s"
  "m_response (do_read s) = m_response s"
  "m_endpoint (do_read s) = m_endpoint s"
  "m_work (do_read s) = m_work s"
  "m_recv_head (do_read s) = m_recv_head s"
  "m_recv_data (do_read s) = m_recv_data s"
  "m_send_data_list (do_read s) = m_send_data_list s"
  "gen (do_read s) = gen s"
  "tasks (do_read s) = tasks s"
  "dials (do_read s) = dials s"
  "writes (do_read s) = writes s"
  "queued (do_read s) = queued s"
  "wire (do_read s) = wire s"
  "rx (do_read s) = rx s"
  "failed (do_read s) = failed s"
  "m_closed (do_read s) = m_closed s"
  "socket_open (do_read s) = socket_open s"
  "calls (do_read s) = calls s"
  "reads (do_read s) = reads s @ [(gen s, Read_head)]" "received (do_read s) = received s"
  by (simp_all add: do_read_def received_def)

lemma do_write_frame [simp]:
  "m_running (do_write s) = m_running s"
  "m_sink (do_write s) = m_sink s"
  "m_request (do_write s) = m_request s"
  "m_response (do_write s) = m_response s"
  "m_endpoint (do_write s) = m_endpoint s"
  "m_work (do_write s) = m_work s"
  "m_recv_head (do_write s) = m_recv_head s"
  "m_recv_data (do_write s) = m_recv_data s"
  "m_send_data_list (do_write s) = m_send_data_list s"
  "gen (do_write s) = gen s"
  "tasks (do_write s) = tasks s"
  "dials (do_write s) = dials s"
  "reads (do_write s) = reads s"
  "queued (do_write s) = queued s"
  "wire (do_write s) = wire s"
  "rx (do_write s) = rx s"
  "failed (do_write s) = failed s"
  "m_closed (do_write s) = m_closed s"
  "socket_open (do_write s) = socket_open s"
  "calls (do_write s) = calls s"
  "writes (do_write s) = writes s @ (if m_send_data_list s = [] then [] else [(gen s, hd (m_send_data_list s))])"
  "received (do_write s) = received s"
  by (simp_all add: do_write_def received_def split: list.splits)

lemma send_task_frame [simp]:
  "m_running (send_task l p s) = m_running s"
  "m_sink (send_task l p s) = m_sink s"
  "m_request (send_task l p s) = m_request s"
  "m_response (send_task l p s) = m_response s"
  "m_endpoint (send_task l p s) = m_endpoint s"
  "m_work (send_task l p s) = m_work s"
  "m_recv_head (send_task l p s) = m_recv_head s"
  "m_recv_data (send_task l p s) = m_recv_data s"
  "gen (send_task l p s) = gen s"
  "tasks (send_task l p s) = tasks s"
  "dials (send_task l p s) = dials s"
  "reads (send_task l p s) = reads s"
  "wire (send_task l p s) = wire s"
  "rx (send_task l p s) = rx s"
  "failed (send_task l p s) = failed s"
  "m_closed (send_task l p s) = m_closed s"
  "socket_open (send_task l p s) = socket_open s"
  "calls (send_task l p s) = calls s"
  "received (send_task l p s) = received s"
  by (simp_all add: send_task_def received_def Let_def)

lemma client_send_task_open:
  assumes "socket_open s"
  shows "m_send_data_list (send_task l p s) = m_send_data_list s @ [packet_head l (length p), p]"
    "queued (send_task l p s) = queued s @ [p]"
    "writes (send_task l p s) = writes s @
      (if m_send_data_list s = [] then [(gen s, packet_head l (length p))] else [])"
  using assms by (simp_all add: send_task_def Let_def)

lemma send_task_closed: "\<not> socket_open s \<Longrightarrow> send_task l p s = s"
  by (simp add: send_task_def)

text \<open>The requests of the user only post tasks.\<close>

lemma posts_only:
  "\<exists>ts. connect s = s\<lparr>tasks := ts\<rparr>" "\<exists>ts. close s = s\<lparr>tasks := ts\<rparr>"
  "\<exists>ts. snd (send_message p s) = s\<lparr>tasks := ts\<rparr>"
proof -
  have u: "\<exists>ts. s = s\<lparr>tasks := ts\<rparr>"
    by (rule exI [of _ "tasks s"]) simp
  show "\<exists>ts. connect s = s\<lparr>tasks := ts\<rparr>"
    by (auto simp: u connect_def do_connect_def do_close_def)
  show "\<exists>ts. close s = s\<lparr>tasks := ts\<rparr>"
    by (auto simp: u close_def do_close_def)
  show "\<exists>ts. snd (send_message p s) = s\<lparr>tasks := ts\<rparr>"
    by (auto simp: u send_message_def)
qed

lemma post_views [simp]:
  "client_ok (s\<lparr>tasks := ts\<rparr>) = client_ok s" "snd_of (s\<lparr>tasks := ts\<rparr>) = snd_of s"
  "rcv_of (s\<lparr>tasks := ts\<rparr>) = rcv_of s"
  by (simp_all add: client_views snd_of_def rcv_of_def)

text \<open>While an attempt is under way it is the only one, on the first socket.\<close>

lemma dialing:
  assumes "client_ok s" "(g, d) \<in> set (dials s)"
  shows "dials s = [(1, d)]" "g = 1" "gen s = 1" "fresh_reader s"
  using assms by (auto simp: client_ok_def dial_phase_def one_socket_def split: if_splits)

lemma dialing_wire:
  assumes "client_ok s" "(g, d) \<in> set (dials s)"
  shows "m_request s \<noteq> [] \<Longrightarrow> wire s 1 = (if d = Dial_response then m_request s else [])"
    "d \<noteq> Dial_connect \<Longrightarrow> m_request s \<noteq> []"
  using assms by (auto simp: client_ok_def dial_phase_def split: if_splits)

lemma reading:
  assumes "client_ok s" "(g, r) \<in> set (reads s)"
  shows "reads s = [(1, r)]" "g = 1" "gen s = 1" "dials s = []"
proof -
  show r: "reads s = [(1, r)]" "g = 1"
    using assms by (auto simp: client_ok_def one_socket_def dest!: one_element)
  show "gen s = 1" "dials s = []"
    using assms(1) r by (auto simp: client_ok_def one_socket_def dial_phase_def fresh_reader_def
        split: if_splits)
qed

lemma writing:
  assumes "client_ok s" "(g, d) \<in> set (writes s)"
  shows "g = 1" "gen s = 1"
  using assms by (auto simp: client_ok_def one_socket_def dial_phase_def le_Suc_eq split: if_splits)

lemma dial_ok_step:
  assumes ok: "client_ok s" and d: "(g, d) \<in> set (dials s)"
  shows "d = Dial_connect \<Longrightarrow> client_ok (connect_ok g s)"
    "d = Dial_connect \<Longrightarrow> client_ok (connect_err g m s)"
    "d = Dial_request \<Longrightarrow> client_ok (request_ok g s)"
    "d = Dial_request \<Longrightarrow> prefix e (m_request s) \<Longrightarrow> client_ok (request_err g e m s)"
    "d = Dial_response \<Longrightarrow> client_ok (response_ok g bs s)"
    "d = Dial_response \<Longrightarrow> client_ok (response_err g bs m s)"
  using ok dialing [OF ok d] dialing_wire [OF ok d]
  by (simp_all add: client_views connect_ok_def connect_err_def request_ok_def request_err_def
      response_ok_def response_err_def do_proxy_def Let_def)

lemma read_ok_step:
  assumes ok: "client_ok s" and r: "(g, r) \<in> set (reads s)"
  shows "r = Read_head \<Longrightarrow> client_ok (read_head l g h s)"
    "r = Read_head \<Longrightarrow> client_ok (read_head_err g s)"
    "r = Read_body (length b) \<Longrightarrow> client_ok (read_body g b s)"
    "r = Read_body n \<Longrightarrow> client_ok (read_body_err g n s)"
  using ok reading [OF ok r]
  by (simp_all add: client_views read_head_def read_head_err_def read_body_def read_body_err_def
      Let_def del: One_nat_def)

lemma write_ok_step:
  assumes ok: "client_ok s" and w: "(g, d) \<in> set (writes s)"
  shows "client_ok (write_ok g d s)" "prefix e d \<Longrightarrow> client_ok (write_err g d e s)"
  using ok writing [OF ok w] w
    set_remove1_subset [of "(g, d)" "writes s"]
  by (auto simp: client_views write_ok_def write_err_def Let_def simp del: One_nat_def split: if_splits)

lemma connect_task_step:
  "client_ok s \<Longrightarrow> gen (real_connect s) \<le> 1 \<Longrightarrow> client_ok (real_connect s)"
  by (simp add: client_views real_connect_def received_def)

lemma close_task_step: "client_ok s \<Longrightarrow> client_ok (close_task s)"
  unfolding close_task_def client_ok_def dial_phase_def fresh_reader_def request_first_def
    one_socket_def is_connected_def
  by (cases "gen s = 0"; cases "dials s = []") (simp_all del: One_nat_def split: if_split_asm)

lemma send_task_step:
  assumes ok: "client_ok s"
    and "m_request s \<noteq> [] \<and> queued (send_task l p s) \<noteq> queued s \<longrightarrow> On_connect \<in> set (calls s)"
  shows "client_ok (send_task l p s)"
proof (cases "socket_open s")
  case False
  with ok show ?thesis by (simp add: send_task_closed)
next
  case True
  with ok have "gen s = 1"
    by (auto simp: client_views le_Suc_eq split: if_splits)
  with assms True show ?thesis
    by (auto simp: client_views client_send_task_open simp del: One_nat_def split: if_splits)
qed

lemma client_ok_step: "orderly_step little s e t \<Longrightarrow> client_ok s \<Longrightarrow> client_ok t"
  unfolding orderly_step_def
proof (elim conjE)
  assume st: "client_step little s e t" and ok: "client_ok s" and g: "gen t \<le> 1"
    and x: "e \<noteq> Call_exit"
    and r: "m_request s \<noteq> [] \<and> queued t \<noteq> queued s \<longrightarrow> On_connect \<in> set (calls s)"
  from st show "client_ok t"
  proof cases
    case c_connect
    then show ?thesis using posts_only(1) [of s] ok by auto
  next
    case c_close
    then show ?thesis using posts_only(2) [of s] ok by auto
  next
    case (c_send p)
    then show ?thesis using posts_only(3) [of p s] ok by auto
  next
    case (c_task k ts)
    show ?thesis
    proof (cases k)
      case Task_close
      have "client_ok (s\<lparr>tasks := ts\<rparr>)" using ok by simp
      with c_task Task_close show ?thesis by (simp add: run_task_def close_task_step)
    next
      case Task_connect
      have "client_ok (s\<lparr>tasks := ts\<rparr>)" using ok by simp
      with c_task Task_connect g show ?thesis by (simp add: run_task_def connect_task_step)
    next
      case (Task_send p)
      have "client_ok (s\<lparr>tasks := ts\<rparr>)" using ok by simp
      with c_task Task_send r show ?thesis by (simp add: run_task_def send_task_step)
    qed
  qed (use x ok in \<open>simp_all add: dial_ok_step read_ok_step write_ok_step\<close>)
qed

text \<open>The sending side.\<close>

lemma quiet_views [simp]:
  "snd_of (on_close s) = snd_of s" "snd_of (on_error a m s) = snd_of s"
  "snd_of (real_close s) = snd_of s" "snd_of (on_connect s) = snd_of s"
  "rcv_of (on_close s) = rcv_of s" "rcv_of (on_error a m s) = rcv_of s"
  "rcv_of (real_close s) = rcv_of s" "rcv_of (on_connect s) = rcv_of s"
  by (simp_all add: snd_of_def rcv_of_def)

lemma client_snd_of_update [simp]:
  "snd_of (s\<lparr>m_closed := x0\<rparr>) = snd_of s"
  "snd_of (s\<lparr>socket_open := x1\<rparr>) = snd_of s"
  "snd_of (s\<lparr>m_response := x2\<rparr>) = snd_of s"
  "snd_of (s\<lparr>m_recv_head := x3\<rparr>) = snd_of s"
  "snd_of (s\<lparr>m_recv_data := x4\<rparr>) = snd_of s"
  "snd_of (s\<lparr>dials := x5\<rparr>) = snd_of s"
  "snd_of (s\<lparr>reads := x6\<rparr>) = snd_of s"
  "snd_of (s\<lparr>rx := x7\<rparr>) = snd_of s"
  "snd_of (s\<lparr>calls := x8\<rparr>) = snd_of s"
  "snd_of (s\<lparr>gen := x9\<rparr>) = snd_of s"
  by (simp_all add: snd_of_def)

lemma client_rcv_of_update [simp]:
  "rcv_of (s\<lparr>m_closed := x0\<rparr>) = rcv_of s"
  "rcv_of (s\<lparr>socket_open := x1\<rparr>) = rcv_of s"
  "rcv_of (s\<lparr>m_response := x2\<rparr>) = rcv_of s"
  "rcv_of (s\<lparr>m_recv_head := x3\<rparr>) = rcv_of s"
  "rcv_of (s\<lparr>m_recv_data := x4\<rparr>) = rcv_of s"
  "rcv_of (s\<lparr>m_send_data_list := x5\<rparr>) = rcv_of s"
  "rcv_of (s\<lparr>dials := x6\<rparr>) = rcv_of s"
  "rcv_of (s\<lparr>writes := x7\<rparr>) = rcv_of s"
  "rcv_of (s\<lparr>queued := x8\<rparr>) = rcv_of s"
  "rcv_of (s\<lparr>wire := x9\<rparr>) = rcv_of s"
  "rcv_of (s\<lparr>failed := x10\<rparr>) = rcv_of s"
  "rcv_of (s\<lparr>gen := x11\<rparr>) = rcv_of s"
  by (simp_all add: rcv_of_def)

lemma dial_snd:
  assumes ok: "client_ok s" and d: "(g, d) \<in> set (dials s)"
  shows "snd_of (connect_ok g s) = snd_of s" "snd_of (connect_err g m s) = snd_of s"
    "d = Dial_request \<Longrightarrow> snd_of (request_ok g s) = snd_of s"
    "d = Dial_request \<Longrightarrow> prefix e (m_request s) \<Longrightarrow> snd_of (request_err g e m s) = snd_of s"
    "snd_of (response_ok g bs s) = snd_of s" "snd_of (response_err g bs m s) = snd_of s"
proof -
  show "d = Dial_request \<Longrightarrow> snd_of (request_ok g s) = snd_of s"
    using dialing [OF ok d] dialing_wire [OF ok d] by (simp add: request_ok_def snd_of_def)
  show "d = Dial_request \<Longrightarrow> prefix e (m_request s) \<Longrightarrow> snd_of (request_err g e m s) = snd_of s"
    using dialing [OF ok d] dialing_wire [OF ok d]
    by (simp add: request_err_def snd_of_def prefix_length_le)
qed (simp_all add: connect_ok_def connect_err_def do_proxy_def do_read_def response_ok_def
      response_err_def Let_def)

lemma read_snd:
  "snd_of (read_head l g h s) = snd_of s" "snd_of (read_head_err g s) = snd_of s"
  "snd_of (read_body g b s) = snd_of s" "snd_of (read_body_err g n s) = snd_of s"
  by (simp_all add: read_head_def read_head_err_def read_body_def read_body_err_def do_read_def
      call_def Let_def)

lemma map_snd_remove1:
  "\<forall>x \<in> set xs. fst x = g \<Longrightarrow> map snd (remove1 (g, d) xs) = remove1 d (map snd xs)"
  by (induction xs) auto

lemma write_snd:
  assumes ok: "client_ok s" and w: "(g, d) \<in> set (writes s)"
  shows "\<not> failed s g \<Longrightarrow> sq_step l (snd_of s) (snd_of (write_ok g d s))"
    "prefix e d \<Longrightarrow> (failed s g \<longrightarrow> e = []) \<Longrightarrow> sq_step l (snd_of s) (snd_of (write_err g d e s))"
proof -
  have g: "g = 1" "gen s = 1" using writing [OF ok w] by auto
  have one: "\<forall>x \<in> set (writes s). fst x = 1" using ok by (simp add: client_views)
  have m: "d \<in> set (sq_out (snd_of s))" using w by (force simp: snd_of_def)
  have "length (m_request s) \<le> length (wire s 1)"
    using ok w by (auto simp: client_views prefix_length_le split: if_splits)
  then show "\<not> failed s g \<Longrightarrow> sq_step l (snd_of s) (snd_of (write_ok g d s))"
    "prefix e d \<Longrightarrow> (failed s g \<longrightarrow> e = []) \<Longrightarrow> sq_step l (snd_of s) (snd_of (write_err g d e s))"
    using sq_sent [OF m, of l] sq_broken [OF m, of e l] g one
    by (cases "tl (m_send_data_list s) = []";
      simp add: snd_of_def write_ok_def write_err_def map_snd_remove1 Let_def)+
qed

lemma send_snd:
  "snd_of (send_task l p s) = snd_of s \<or> sq_step l (snd_of s) (snd_of (send_task l p s))"
proof (cases "socket_open s")
  case True
  then show ?thesis
    using sq_enqueue [of l "snd_of s" p]
    by (cases "m_send_data_list s") (simp_all add: snd_of_def client_send_task_open)
qed (simp add: send_task_closed)

lemma client_snd_sim:
  assumes "orderly_step little s e t" and ok: "client_ok s"
  shows "snd_of t = snd_of s \<or> sq_step little (snd_of s) (snd_of t)"
proof -
  have st: "client_step little s e t" and x: "e \<noteq> Call_exit"
    using assms(1) by (simp_all add: orderly_step_def)
  from st show ?thesis
  proof cases
    case c_connect
    then show ?thesis using posts_only(1) [of s] by auto
  next
    case c_close
    then show ?thesis using posts_only(2) [of s] by auto
  next
    case (c_send p)
    then show ?thesis using posts_only(3) [of p s] by auto
  next
    case (c_task k ts)
    then show ?thesis
      using send_snd [of little _ "s\<lparr>tasks := ts\<rparr>"]
      by (cases k) (simp_all add: run_task_def close_task_def real_connect_def)
  next
    case (c_write_ok g d)
    then show ?thesis using write_snd(1) [OF ok] by simp
  next
    case (c_write_err g d e)
    then show ?thesis using write_snd(2) [OF ok] by simp
  qed (use x in \<open>simp_all add: dial_snd [OF ok] read_snd\<close>)
qed

text \<open>The receiving side.\<close>

lemma dial_rcv:
  assumes ok: "client_ok s" and d: "(g, d) \<in> set (dials s)"
  shows "rcv_of (connect_ok g s) = rcv_of s \<or> rc_step l (rcv_of s) (rcv_of (connect_ok g s))"
    "rcv_of (response_ok g bs s) = rcv_of s \<or> rc_step l (rcv_of s) (rcv_of (response_ok g bs s))"
  using dialing [OF ok d] rc_start [of "rcv_of s" l]
  by (simp_all add: rcv_of_def connect_ok_def response_ok_def do_proxy_def fresh_reader_def Let_def)

lemma dial_rcv_same [simp]:
  "rcv_of (connect_err g m s) = rcv_of s" "rcv_of (request_ok g s) = rcv_of s"
  "rcv_of (request_err g e m s) = rcv_of s" "rcv_of (response_err g bs m s) = rcv_of s"
  "rcv_of (write_ok g d s) = rcv_of s" "rcv_of (write_err g d e s) = rcv_of s"
  by (simp_all add: rcv_of_def connect_err_def request_ok_def request_err_def response_err_def
      write_ok_def write_err_def Let_def)

lemma read_rcv:
  assumes ok: "client_ok s" and r: "(g, r) \<in> set (reads s)"
  shows "r = Read_head \<Longrightarrow> length h = 6 \<Longrightarrow> rc_step l (rcv_of s) (rcv_of (read_head l g h s))"
    "r = Read_head \<Longrightarrow> rc_step l (rcv_of s) (rcv_of (read_head_err g s))"
    "r = Read_body (length b) \<Longrightarrow> rc_step l (rcv_of s) (rcv_of (read_body g b s))"
    "r = Read_body n \<Longrightarrow> rc_step l (rcv_of s) (rcv_of (read_body_err g n s))"
proof -
  have rc: "rc_reads (rcv_of s) = [r]" "m_sink s"
    using reading [OF ok r] ok by (simp_all add: rcv_of_def client_ok_def)
  show "rc_step l (rcv_of s) (rcv_of (read_head l g h s))" if "r = Read_head" "length h = 6"
    using that rc rc_bad_sign [of "rcv_of s" h l] rc_empty [of "rcv_of s" h l]
      rc_head [of "rcv_of s" h l] reading [OF ok r]
    by (cases "hdr_sign (read_header l h) = PROTOCOL_SIGN"; cases "hdr_size (read_header l h) = 0")
      (simp_all add: rcv_of_def read_head_def Let_def)
  show "rc_step l (rcv_of s) (rcv_of (read_head_err g s))" if "r = Read_head"
    using that rc_fail [of l "rcv_of s"] reading [OF ok r]
    by (simp add: rcv_of_def read_head_err_def)
  show "rc_step l (rcv_of s) (rcv_of (read_body g b s))" if "r = Read_body (length b)"
    using that rc rc_body [of "rcv_of s" "length b" b l] reading [OF ok r]
    by (simp add: rcv_of_def read_body_def Let_def)
  show "rc_step l (rcv_of s) (rcv_of (read_body_err g n s))" if "r = Read_body n"
    using that rc_fail [of l "rcv_of s"] reading [OF ok r]
    by (simp add: rcv_of_def read_body_err_def)
qed

lemma client_rcv_sim:
  assumes "orderly_step little s e t" and ok: "client_ok s"
  shows "rcv_of t = rcv_of s \<or> rc_step little (rcv_of s) (rcv_of t)"
proof -
  have st: "client_step little s e t" and x: "e \<noteq> Call_exit"
    using assms(1) by (simp_all add: orderly_step_def)
  from st show ?thesis
  proof cases
    case c_connect
    then show ?thesis using posts_only(1) [of s] by auto
  next
    case c_close
    then show ?thesis using posts_only(2) [of s] by auto
  next
    case (c_send p)
    then show ?thesis using posts_only(3) [of p s] by auto
  next
    case (c_task k ts)
    have "rcv_of (send_task little p (s\<lparr>tasks := ts\<rparr>)) = rcv_of s" for p
      by (simp add: rcv_of_def)
    with c_task show ?thesis
      by (cases k) (simp_all add: run_task_def close_task_def real_connect_def)
  qed (use x in \<open>simp_all add: dial_rcv [OF ok] read_rcv [OF ok]\<close>)
qed

interpretation client: etcp_endpoint little "orderly_step little" snd_of rcv_of client_ok for little
  by unfold_locales (rule client_ok_step client_snd_sim client_rcv_sim; assumption)+

text \<open>A client that \<open>init\<close> has accepted.\<close>

lemma init_fields:
  assumes "init valid sink th tp gh gp cd EtcpClientImpl = (Some True, s)"
  shows "s = EtcpClientImpl\<lparr>m_running := True, m_sink := sink, m_request := m_request s,
    m_endpoint := m_endpoint s, m_work := True\<rparr>"
  using assms by (auto simp: init_def exit_def EtcpClientImpl_def Let_def split: if_splits)

lemma init_endpoint:
  assumes i: "init valid True th tp gh gp cd EtcpClientImpl = (Some True, s)"
    and r: "run (orderly_step little) s es t"
  shows "client.endpoint_inv little t"
proof (rule client.endpoint_run [OF r])
  show "client_ok s"
    by (subst init_fields [OF i]) (simp add: client_views EtcpClientImpl_def received_def)
  show "snd_of s = sender_start"
    by (subst init_fields [OF i]) (simp add: snd_of_def sender_start_def EtcpClientImpl_def)
  show "rcv_of s = receiver_start"
    by (subst init_fields [OF i])
      (simp add: rcv_of_def receiver_start_def EtcpClientImpl_def received_def)
qed

text \<open>While its socket is open, no write has failed and it runs, the client can go on.\<close>

definition client_live :: "etcp_client \<Rightarrow> bool" where
  "client_live s \<longleftrightarrow> socket_open s \<and> m_running s \<and> \<not> failed s 1"

lemma orderly_quietly:
  "client_step little s e t \<Longrightarrow> e \<noteq> Call_exit \<Longrightarrow> gen t = gen s \<Longrightarrow> queued t = queued s \<Longrightarrow>
     client_ok s \<Longrightarrow> orderly_step little s e t"
  by (simp add: orderly_step_def client_ok_def one_socket_def)

lemma client_can_write:
  assumes "client.endpoint_inv little s" "client_live s" "sq_list (snd_of s) = d # ds"
  shows "\<exists>e t. orderly_step little s e t \<and> client_live t \<and> rcv_of t = rcv_of s \<and>
    sq_list (snd_of t) = ds \<and> sq_queued (snd_of t) = sq_queued (snd_of s)"
proof -
  have ok: "client_ok s" using assms(1) by (simp add: client.endpoint_inv_def)
  have "map snd (writes s) = [d]" "m_send_data_list s = d # ds"
    using client.one_write [OF assms(1)] assms(3) by (simp_all add: snd_of_def)
  then have w: "writes s = [(1, d)]" "m_send_data_list s = d # ds"
    using ok by (auto simp: client_ok_def one_socket_def)
  have "client_step little s (Write_ok 1 d) (write_ok 1 d s)"
    using w assms(2) by (simp add: client_step_simps client_live_def)
  then have "orderly_step little s (Write_ok 1 d) (write_ok 1 d s)"
    using w ok by (intro orderly_quietly)
      (auto simp: write_ok_def do_write_def Let_def split: list.splits)
  moreover have "client_live (write_ok 1 d s) \<and> rcv_of (write_ok 1 d s) = rcv_of s \<and>
      sq_list (snd_of (write_ok 1 d s)) = ds \<and> sq_queued (snd_of (write_ok 1 d s)) = sq_queued (snd_of s)"
    using w assms(2) by (cases ds)
      (simp_all add: client_live_def write_ok_def do_write_def snd_of_def rcv_of_def received_def Let_def)
  ultimately show ?thesis by blast
qed

lemma client_one_read:
  assumes "client_ok s" "rc_reads (rcv_of s) = [r]"
  shows "reads s = [(1, r)]" "gen s = 1"
proof -
  show r: "reads s = [(1, r)]"
    using assms by (auto simp: rcv_of_def client_ok_def one_socket_def)
  show "gen s = 1"
    using assms(1) reading [of s 1 r] r by simp
qed

lemma client_can_read_head:
  assumes "client.endpoint_inv little s" "client_live s" "rc_reads (rcv_of s) = [Read_head]"
    "length h = 6" "hdr_sign (read_header little h) = PROTOCOL_SIGN"
  shows "\<exists>e t. orderly_step little s e t \<and> client_live t \<and> snd_of t = snd_of s \<and>
    rc_reads (rcv_of t) \<noteq> [] \<and> rc_rx (rcv_of t) = rc_rx (rcv_of s) @ h"
proof -
  have ok: "client_ok s" using assms(1) by (simp add: client.endpoint_inv_def)
  note r = client_one_read [OF ok assms(3)]
  have "client_step little s (Head_ok 1 h) (read_head little 1 h s)"
    using r assms by (simp add: client_step_simps client_live_def)
  then have "orderly_step little s (Head_ok 1 h) (read_head little 1 h s)"
    using ok assms(5) by (intro orderly_quietly) (simp_all add: read_head_def do_read_def Let_def)
  moreover have "client_live (read_head little 1 h s) \<and> snd_of (read_head little 1 h s) = snd_of s \<and>
      rc_reads (rcv_of (read_head little 1 h s)) \<noteq> [] \<and>
      rc_rx (rcv_of (read_head little 1 h s)) = rc_rx (rcv_of s) @ h"
    using r assms(2,5) by (simp add: read_snd, simp add: client_live_def read_head_def do_read_def
        rcv_of_def Let_def)
  ultimately show ?thesis by blast
qed

lemma client_can_read_body:
  assumes "client.endpoint_inv little s" "client_live s" "rc_reads (rcv_of s) = [Read_body (length b)]"
  shows "\<exists>e t. orderly_step little s e t \<and> client_live t \<and> snd_of t = snd_of s \<and>
    rc_reads (rcv_of t) \<noteq> [] \<and> rc_rx (rcv_of t) = rc_rx (rcv_of s) @ b"
proof -
  have ok: "client_ok s" using assms(1) by (simp add: client.endpoint_inv_def)
  note r = client_one_read [OF ok assms(3)]
  have "client_step little s (Body_ok 1 b) (read_body 1 b s)"
    using r assms by (simp add: client_step_simps client_live_def)
  then have "orderly_step little s (Body_ok 1 b) (read_body 1 b s)"
    using ok by (intro orderly_quietly) (simp_all add: read_body_def do_read_def call_def Let_def)
  moreover have "client_live (read_body 1 b s) \<and> snd_of (read_body 1 b s) = snd_of s \<and>
      rc_reads (rcv_of (read_body 1 b s)) \<noteq> [] \<and>
      rc_rx (rcv_of (read_body 1 b s)) = rc_rx (rcv_of s) @ b"
    using r assms(2) by (simp add: read_snd, simp add: client_live_def read_body_def do_read_def
        call_def rcv_of_def Let_def)
  ultimately show ?thesis by blast
qed

interpretation client_live:
  live_endpoint little "orderly_step little" snd_of rcv_of client_ok client_live for little
proof unfold_locales
  show "client_live s \<Longrightarrow> \<not> sq_failed (snd_of s)" for s
    by (simp add: client_live_def snd_of_def)
qed (blast intro: client_can_write client_can_read_head client_can_read_body)+

lemma request_constant:
  "run (orderly_step little) s es t \<Longrightarrow> m_request t = m_request s"
proof (induction rule: run.induct)
  case (run_Cons s e t es u)
  then have "client_step little s e t" "e \<noteq> Call_exit" by (simp_all add: orderly_step_def)
  then have "m_request t = m_request s"
  proof cases
    case c_connect
    then show ?thesis using posts_only(1) [of s] by auto
  next
    case c_close
    then show ?thesis using posts_only(2) [of s] by auto
  next
    case (c_send p)
    then show ?thesis using posts_only(3) [of p s] by auto
  next
    case (c_task k ts)
    then show ?thesis
      by (cases k) (simp_all add: run_task_def close_task_def real_connect_def)
  qed (simp_all add: connect_ok_def connect_err_def request_ok_def request_err_def response_ok_def
        response_err_def write_ok_def write_err_def read_head_def read_head_err_def read_body_def
        read_body_err_def do_proxy_def Let_def)
  with run_Cons show ?case by simp
qed simp

section \<open>All sockets together\<close>

definition one_write :: "etcp_client \<Rightarrow> bool" where
  "one_write s \<longleftrightarrow> (m_running s \<longrightarrow> map snd (writes s) = take 1 (m_send_data_list s))"

lemma one_write_send:
  "one_write s \<Longrightarrow> m_running s \<Longrightarrow> one_write (send_task l p s)"
  by (cases "socket_open s"; cases "m_send_data_list s")
    (simp_all add: one_write_def send_task_closed client_send_task_open)

lemma one_write_step: "client_step little s e t \<Longrightarrow> one_write s \<Longrightarrow> one_write t"
proof (induction rule: client_step.induct)
  case (c_connect s)
  then show ?case using posts_only(1) [of s] by (auto simp: one_write_def)
next
  case (c_close s)
  then show ?case using posts_only(2) [of s] by (auto simp: one_write_def)
next
  case (c_send s p)
  then show ?case using posts_only(3) [of p s] by (auto simp: one_write_def)
next
  case (c_task s t ts)
  then have "one_write (s\<lparr>tasks := ts\<rparr>)" by (simp add: one_write_def)
  with c_task show ?case
    by (cases t) (simp_all add: run_task_def close_task_def real_connect_def one_write_send,
        simp_all add: one_write_def)
next
  case (c_write_ok s g d)
  then obtain xs where "writes s = [(g, d)]" "m_send_data_list s = d # xs"
    by (cases "m_send_data_list s") (auto simp: one_write_def)
  with c_write_ok show ?case by (cases xs) (simp_all add: one_write_def write_ok_def Let_def)
next
  case (c_write_err s g d e)
  then obtain xs where "writes s = [(g, d)]" "m_send_data_list s = d # xs"
    by (cases "m_send_data_list s") (auto simp: one_write_def)
  with c_write_err show ?case by (simp add: one_write_def write_err_def)
qed (simp_all add: one_write_def exit_def connect_ok_def connect_err_def request_ok_def
      request_err_def response_ok_def response_err_def read_head_def read_head_err_def
      read_body_def read_body_err_def do_proxy_def Let_def)

interpretation one_write: step_invariant "client_step little" one_write for little
  by unfold_locales (rule one_write_step)

text \<open>How often the sink hears of a connection and of its end.\<close>

fun attempts :: "client_event \<Rightarrow> nat" where
  "attempts (Connect_ok g) = 1"
| "attempts (Connect_err g m) = 1"
| "attempts _ = 0"

definition closings :: "etcp_client \<Rightarrow> nat" where
  "closings s = count_list (calls s) On_close + (if m_closed s then 0 else 1)"

lemma closings_quiet [simp]:
  "closings (on_error a m s) = closings s" "closings (real_close s) = closings s"
  "closings (on_connect s) = closings s" "closings (do_read s) = closings s"
  "closings (do_write s) = closings s" "closings (do_proxy s) = closings s"
  "closings (send_task l p s) = closings s" "closings (call (On_recv b) s) = closings s"
  by (simp_all add: closings_def on_error_def on_connect_def do_proxy_def call_def)

lemma closings_update [simp]:
  "closings (s\<lparr>socket_open := x0\<rparr>) = closings s"
  "closings (s\<lparr>m_response := x1\<rparr>) = closings s"
  "closings (s\<lparr>m_recv_head := x2\<rparr>) = closings s"
  "closings (s\<lparr>m_recv_data := x3\<rparr>) = closings s"
  "closings (s\<lparr>m_send_data_list := x4\<rparr>) = closings s"
  "closings (s\<lparr>tasks := x5\<rparr>) = closings s"
  "closings (s\<lparr>dials := x6\<rparr>) = closings s"
  "closings (s\<lparr>reads := x7\<rparr>) = closings s"
  "closings (s\<lparr>writes := x8\<rparr>) = closings s"
  "closings (s\<lparr>wire := x9\<rparr>) = closings s"
  "closings (s\<lparr>rx := x10\<rparr>) = closings s"
  "closings (s\<lparr>failed := x11\<rparr>) = closings s"
  "closings (s\<lparr>queued := x12\<rparr>) = closings s"
  "closings (s\<lparr>gen := x13\<rparr>) = closings s"
  "closings (s\<lparr>m_request := x14\<rparr>) = closings s"
  "closings (s\<lparr>m_work := x15\<rparr>) = closings s"
  "closings (s\<lparr>m_running := x16\<rparr>) = closings s"
  by (simp_all add: closings_def)

lemma closings_on_close: "closings s \<le> n \<Longrightarrow> closings (on_close s) \<le> n"
  by (simp add: closings_def on_close_def call_def split: if_splits)

lemma closings_opened: "closings s \<le> n \<Longrightarrow> closings (s\<lparr>m_closed := False\<rparr>) \<le> Suc n"
  by (simp add: closings_def split: if_splits)

lemma closings_step: "client_step little s e t \<Longrightarrow> closings t \<le> closings s + attempts e"
proof (induction rule: client_step.induct)
  case (c_connect s)
  then show ?case using posts_only(1) [of s] by auto
next
  case (c_close s)
  then show ?case using posts_only(2) [of s] by auto
next
  case (c_send s p)
  then show ?case using posts_only(3) [of p s] by auto
next
  case (c_task s t ts)
  then show ?case
    by (cases t) (simp_all add: run_task_def close_task_def real_connect_def closings_on_close)
qed (simp_all add: exit_def connect_ok_def connect_err_def request_ok_def request_err_def
      response_ok_def response_err_def read_head_def read_head_err_def read_body_def
      read_body_err_def write_ok_def write_err_def closings_opened closings_on_close Let_def)

lemma closings_run: "client_run little s es t \<Longrightarrow> closings t \<le> closings s + sum_list (map attempts es)"
  by (induction rule: run.induct) (auto dest!: closings_step)

section \<open>Properties\<close>

text \<open>
  Two clients that \<open>init\<close> has accepted, one with a direct address and one behind a
  gateway, and runs of them.
\<close>

definition demo_direct :: etcp_client where
  "demo_direct =
     snd (init (\<lambda>_. True) True (ascii ''10.0.0.2'') 80 [] 0 [] EtcpClientImpl)"

definition demo_proxied :: etcp_client where
  "demo_proxied =
     snd (init (\<lambda>_. True) True (ascii ''10.0.0.2'') 80 (ascii ''10.0.0.1'') 8080 [] EtcpClientImpl)"

lemma demo_init:
  "init (\<lambda>_. True) True (ascii ''10.0.0.2'') 80 [] 0 [] EtcpClientImpl = (Some True, demo_direct)"
  "init (\<lambda>_. True) True (ascii ''10.0.0.2'') 80 (ascii ''10.0.0.1'') 8080 [] EtcpClientImpl =
     (Some True, demo_proxied)"
  by (simp_all add: demo_direct_def demo_proxied_def init_def Let_def)

definition demo_client :: "client_event list" where
  "demo_client =
     [Call_connect, Run_task, Connect_ok 1, Request_ok 1,
      Response_ok 1 (ascii ''HTTP/1.0 200 OK'' @ [13, 10, 13, 10]),
      Call_send [1, 2, 3], Run_task, Write_ok 1 (packet_head True 3),
      Head_ok 1 (packet_head True 2), Body_ok 1 [7, 8], Write_ok 1 [1, 2, 3]]"

lemma demo_client_run:
  "\<exists>t. run (orderly_step True) demo_proxied demo_client t \<and>
     (queued t = [[1, 2, 3]] \<and> received t = [[7, 8]] \<and> m_running t \<and>
      calls t = [On_connect, On_recv [7, 8]] \<and>
      wire t 1 = m_request demo_proxied @ frame True [1, 2, 3])"
  by (rule orderly_exec.exec_ex) code_simp

lemma demo_direct_run:
  "\<exists>t. client_run True demo_direct
       [Call_connect, Run_task, Connect_ok 1, Call_send [1], Run_task, Head_err 1] t \<and>
     (m_running t \<and> calls t = [On_connect, On_close])"
  by (rule client_exec.exec_ex) code_simp





text \<open>
  In every run, over any number of connections, at most one packet write is
  outstanding, and it is the front of the send list.
\<close>

theorem client_one_write:
  assumes "init valid sink th tp gh gp cd EtcpClientImpl = (Some True, s)"
    and "client_run little s es t" and "m_running t"
  shows "map snd (writes t) = take 1 (m_send_data_list t)"
proof -
  have "one_write s"
    by (subst init_fields [OF assms(1)]) (simp add: one_write_def EtcpClientImpl_def)
  with one_write.run_inv [OF assms(2)] assms(3) show ?thesis by (simp add: one_write_def)
qed

theorem client_one_write_witness:
  "\<exists>es t. client_run True demo_direct es t \<and> map snd (writes t) = take 1 (m_send_data_list t)"
proof -
  obtain es t where "client_run True demo_direct es t" "m_running t"
    using demo_direct_run by blast
  then show ?thesis using client_one_write [OF demo_init(1)] by blast
qed

text \<open>
  The sink is told of a closed connection at most once per connection attempt that
  has completed, in every run.
\<close>

theorem client_closes_once:
  assumes "init valid sink th tp gh gp cd EtcpClientImpl = (Some True, s)"
    and "client_run little s es t"
  shows "count_list (calls t) On_close \<le> sum_list (map attempts es)"
proof -
  have "closings s = 0"
    by (subst init_fields [OF assms(1)]) (simp add: closings_def EtcpClientImpl_def)
  with closings_run [OF assms(2)] show ?thesis by (simp add: closings_def)
qed

theorem client_closes_once_witness:
  "\<exists>t. client_run True demo_direct
       [Call_connect, Run_task, Connect_ok 1, Call_send [1], Run_task, Head_err 1] t \<and>
     count_list (calls t) On_close = 1 \<and> count_list (calls t) On_close \<le> 1"
proof -
  obtain t where t: "client_run True demo_direct
       [Call_connect, Run_task, Connect_ok 1, Call_send [1], Run_task, Head_err 1] t"
    "calls t = [On_connect, On_close]"
    using demo_direct_run by blast
  then show ?thesis using client_closes_once [OF demo_init(1) t(1)] by auto
qed

text \<open>
  \<open>is_connected\<close> reports an open socket, not a connection. After a connection
  attempt has failed, or the peer has closed the connection, the sink has been told of
  the close but \<open>is_connected\<close> is still true and \<open>send_message\<close> accepts packets.
\<close>

theorem is_connected_after_failure:
  assumes "client_step little s e t" and "e = Connect_err g m \<or> e = Head_err g"
    and "socket_open s" and "p \<noteq> []"
  shows "m_closed t \<and> is_connected t \<and> fst (send_message p t)"
  using assms
  by (auto simp: client_step_simps connect_err_def read_head_err_def is_connected_def send_message_def)

theorem is_connected_after_failure_witness:
  "\<exists>s t. client_run True demo_direct [Call_connect, Run_task] s \<and>
     client_step True s (Connect_err 1 (ascii ''refused'')) t \<and> is_connected t \<and>
     fst (send_message [1] t)"
proof -
  have "\<exists>s. client_run True demo_direct [Call_connect, Run_task] s \<and>
      (m_running s \<and> (1, Dial_connect) \<in> set (dials s) \<and> socket_open s)"
    by (rule client_exec.exec_ex) code_simp
  then obtain s where s: "client_run True demo_direct [Call_connect, Run_task] s" "m_running s"
    "(1, Dial_connect) \<in> set (dials s)" "socket_open s" by blast
  have st: "client_step True s (Connect_err 1 (ascii ''refused'')) (connect_err 1 (ascii ''refused'') s)"
    by (rule c_connect_err) (use s in auto)
  with is_connected_after_failure [OF st disjI1 [OF refl] s(4), of "[1]"] s(1) show ?thesis
    by blast
qed


text \<open>
  \<open>is_connected\<close> is true as soon as the socket exists, so a packet sent before the
  connection is established overtakes the request to the proxy.
\<close>

theorem early_packet_overtakes_request:
  "\<exists>t. client_run True demo_proxied
       [Call_connect, Run_task, Call_send [1, 2], Run_task, Connect_ok 1,
        Write_ok 1 (packet_head True 2), Request_ok 1, Write_ok 1 [1, 2]] t \<and>
     wire t 1 = packet_head True 2 @ m_request demo_proxied @ [1, 2]"
  by (rule client_exec.exec_ex) code_simp

text \<open>
  Bytes that arrive together with the response of the proxy are lost.
  \<open>async_read_until\<close> leaves them in \<open>m_response\<close>, and the packet reader never looks
  there: the packet of a server that speaks first does not reach the sink.
\<close>

theorem response_overread_is_lost:
  "\<exists>t. client_run True demo_proxied
       [Call_connect, Run_task, Connect_ok 1, Request_ok 1,
        Response_ok 1 (ascii ''HTTP/1.0 200 OK'' @ [13, 10, 13, 10] @ frame True [7])] t \<and>
     (calls t = [On_connect] \<and> m_response t = frame True [7] \<and> rx t 1 = [] \<and>
      reads t = [(1, Read_head)])"
  by (rule client_exec.exec_ex) code_simp

text \<open>
  Two calls of \<open>connect\<close> before the first one has run end in two concurrent reads
  on one socket: the completed attempt of the replaced socket starts a read on its
  successor, which starts another when it connects.
\<close>

theorem double_connect_reads_twice:
  "\<exists>t. client_run True demo_direct
       [Call_connect, Call_connect, Run_task, Run_task, Connect_ok 1, Connect_ok 2] t \<and>
     (reads t = [(2, Read_head), (2, Read_head)] \<and> calls t = [On_connect, On_connect])"
  by (rule client_exec.exec_ex) code_simp

end
