(* ===== verification/Etcp_Client_Api.thy ===== *)
theory Etcp_Client_Api
  imports Etcp_Client
begin

text \<open>
  src/etcp_client/etcp_client.cpp: \<open>EtcpClient\<close>, the class users hold. It owns one
  \<open>EtcpClientImpl\<close> (\<open>None\<close>: the null pointer), takes C strings (\<open>None\<close>: a null pointer)
  and forwards every call.
\<close>

type_synonym etcp_client_api = "etcp_client option"

definition EtcpClient :: etcp_client_api where
  "EtcpClient = None"

definition exit :: "etcp_client_api \<Rightarrow> etcp_client_api" where
  "exit w = None"

text \<open>
  \<open>init\<close> with a gateway, and without one. An address without a host or a port counts
  as none. The result \<open>None\<close> is the exception of a text that is no address, which
  leaves the new implementation in place.
\<close>

definition init :: "(bytes \<Rightarrow> bool) \<Rightarrow> bool \<Rightarrow> bytes option \<Rightarrow> u16 \<Rightarrow> bytes option \<Rightarrow> u16 \<Rightarrow>
    bytes option \<Rightarrow> etcp_client_api \<Rightarrow> bool option \<times> etcp_client_api" where
  "init valid sink target_host target_port gateway_host gateway_port connect_data w =
     (let (th, tp) = (if c_text target_host = [] \<or> target_port = 0 then ([], 0)
                      else (c_text target_host, target_port));
          (gh, gp) = (if c_text gateway_host = [] \<or> gateway_port = 0 then ([], 0)
                      else (c_text gateway_host, gateway_port));
          w = exit w;
          (result, impl) = Etcp_Client.init valid sink th tp gh gp (c_text connect_data) EtcpClientImpl
      in case result of
           None \<Rightarrow> (None, Some impl)
         | Some True \<Rightarrow> (Some True, Some impl)
         | Some False \<Rightarrow> (Some False, exit (Some impl)))"

definition init_direct :: "(bytes \<Rightarrow> bool) \<Rightarrow> bool \<Rightarrow> bytes option \<Rightarrow> u16 \<Rightarrow> bytes option \<Rightarrow>
    etcp_client_api \<Rightarrow> bool option \<times> etcp_client_api" where
  "init_direct valid sink target_host target_port connect_data w =
     init valid sink target_host target_port None 0 connect_data w"

definition connect :: "etcp_client_api \<Rightarrow> etcp_client_api" where
  "connect w = map_option Etcp_Client.connect w"

definition close :: "etcp_client_api \<Rightarrow> etcp_client_api" where
  "close w = map_option Etcp_Client.close w"

definition send_message :: "bytes \<Rightarrow> etcp_client_api \<Rightarrow> bool \<times> etcp_client_api" where
  "send_message packet w =
     (case w of
        None \<Rightarrow> (False, None)
      | Some impl \<Rightarrow> (let (r, impl) = Etcp_Client.send_message packet impl in (r, Some impl)))"

text \<open>
  The overload for a raw buffer has no check for a null pointer: \<open>None\<close> is the undefined
  behaviour of reading \<open>sz\<close> bytes from it.
\<close>

definition send_message_data :: "bytes option \<Rightarrow> u32 \<Rightarrow> etcp_client_api \<Rightarrow>
    (bool \<times> etcp_client_api) option" where
  "send_message_data data sz w =
     (case data of
        None \<Rightarrow> if sz = 0 then Some (send_message [] w) else None
      | Some d \<Rightarrow> Some (send_message (take (unat sz) d) w))"

definition is_connected :: "etcp_client_api \<Rightarrow> bool" where
  "is_connected w = (case w of None \<Rightarrow> False | Some impl \<Rightarrow> Etcp_Client.is_connected impl)"

text \<open>What \<open>init\<close> leaves behind: a client exactly when it did not fail, not connected.\<close>

lemma etcp_init_live:
  "fst (init valid sink th tp gh gp cd w) = Some False \<longleftrightarrow>
     snd (init valid sink th tp gh gp cd w) = None"
  "\<not> is_connected (snd (init valid sink th tp gh gp cd w))"
  by (simp_all add: init_def Etcp_Client.init_def Etcp_Client.exit_def EtcpClientImpl_def exit_def
      is_connected_def Etcp_Client.is_connected_def Let_def)

lemma etcp_init_endpoint:
  fixes th gh and tp gp :: u16
  defines "gateway \<equiv> c_text gh \<noteq> [] \<and> gp \<noteq> 0"
  defines "host \<equiv> (if gateway then (c_text gh, gp) else (c_text th, tp))"
  assumes "c_text th \<noteq> [] \<and> tp \<noteq> 0 \<or> gateway" and "valid (fst host)"
  shows "\<exists>impl. init valid sink th tp gh gp cd w = (Some True, Some impl) \<and> m_endpoint impl = host"
  using assms
  by (auto simp: init_def Etcp_Client.init_def Etcp_Client.exit_def EtcpClientImpl_def exit_def Let_def
      split: if_split_asm)

section \<open>Properties\<close>

text \<open>
  \<open>init\<close> needs a target or a gateway, dials the gateway when there is one, and asks
  it for the target exactly when both are given; it fails without both and throws for a
  host that is no address. A client that is ready is closed and not yet connected.
\<close>

theorem client_init_cases:
  fixes valid sink th gh cd w and tp gp :: u16
  defines "target \<equiv> c_text th \<noteq> [] \<and> tp \<noteq> 0" and "gateway \<equiv> c_text gh \<noteq> [] \<and> gp \<noteq> 0"
  defines "host \<equiv> (if gateway then (c_text gh, gp) else (c_text th, tp))"
  shows "fst (init valid sink th tp gh gp cd w) =
      (if \<not> target \<and> \<not> gateway then Some False
       else if valid (fst host) then Some True else None) \<and>
    (case snd (init valid sink th tp gh gp cd w) of
       None \<Rightarrow> \<not> target \<and> \<not> gateway
     | Some impl \<Rightarrow>
         m_request impl =
           (if target \<and> gateway then proxy_request (c_text th) tp (c_text cd) else []) \<and>
         m_closed impl \<and> \<not> Etcp_Client.is_connected impl \<and>
         m_work impl = valid (fst host) \<and>
         m_endpoint impl = (if valid (fst host) then host else ([], 0)))"
  unfolding target_def gateway_def host_def
  by (simp add: init_def Etcp_Client.init_def Etcp_Client.exit_def EtcpClientImpl_def exit_def
      Etcp_Client.is_connected_def Let_def)

end
