(* ===== verification/Etcp_Server_Impl.thy ===== *)
theory Etcp_Server_Impl
  imports Prelude
begin

text \<open>
  src/etcp_server/etcp_server_impl.{h,cpp}: the ETCP server. Its io contexts are numbered
  \<open>0 ..< m_io_contexts\<close>, each run by one thread; a session is named by a number for its
  address. The first part models the operations of \<open>EtcpServerImpl\<close> one by one; the
  second part interleaves them with the sessions, whose handlers run on other threads
  than the accept handler, in the atomic actions that the mutex and the io contexts
  leave.
\<close>

section \<open>The server object\<close>

record etcp_server_impl =
  m_running :: bool
  m_sink :: bool
  m_acceptor :: bool
  m_io_works :: nat
  m_io_contexts :: nat
  m_io_context_iter :: nat
  m_work_threads :: nat
  m_session_map :: "nat set"

definition EtcpServerImpl :: etcp_server_impl where
  "EtcpServerImpl =
     \<lparr>m_running = False, m_sink = False, m_acceptor = False, m_io_works = 0, m_io_contexts = 0,
      m_io_context_iter = 0, m_work_threads = 0, m_session_map = {}\<rparr>"

text \<open>The next io context; the iterator at \<open>m_io_contexts\<close> is the end of the list.\<close>

definition get_io_context :: "etcp_server_impl \<Rightarrow> nat \<times> etcp_server_impl" where
  "get_io_context s =
     (let s = (if m_io_contexts s = m_io_context_iter s then s\<lparr>m_io_context_iter := 0\<rparr> else s)
      in (m_io_context_iter s, s\<lparr>m_io_context_iter := Suc (m_io_context_iter s)\<rparr>))"

definition append_session :: "nat option \<Rightarrow> etcp_server_impl \<Rightarrow> etcp_server_impl" where
  "append_session session s =
     (case session of None \<Rightarrow> s | Some k \<Rightarrow> s\<lparr>m_session_map := insert k (m_session_map s)\<rparr>)"

definition remove_session :: "nat option \<Rightarrow> etcp_server_impl \<Rightarrow> etcp_server_impl" where
  "remove_session session s =
     (case session of None \<Rightarrow> s | Some k \<Rightarrow> s\<lparr>m_session_map := m_session_map s - {k}\<rparr>)"

text \<open>\<open>clear_sessions\<close>: the sessions it closes (the weak pointers still alive), and its loop's end.\<close>

definition clear_sessions_closes :: "(nat \<Rightarrow> bool) \<Rightarrow> etcp_server_impl \<Rightarrow> nat set" where
  "clear_sessions_closes alive s = {k \<in> m_session_map s. alive k}"

definition clear_sessions_done :: "etcp_server_impl \<Rightarrow> bool" where
  "clear_sessions_done s \<longleftrightarrow> m_session_map s = {}"

text \<open>\<open>do_accept\<close>: the io context given to the next session, if the acceptor is there.\<close>

definition do_accept :: "etcp_server_impl \<Rightarrow> nat option \<times> etcp_server_impl" where
  "do_accept s =
     (if \<not> m_acceptor s then (None, s)
      else let (c, s) = get_io_context s in (Some c, s))"

text \<open>\<open>exit\<close> up to the wait for the sessions, and behind it.\<close>

definition exit_begin :: "etcp_server_impl \<Rightarrow> etcp_server_impl" where
  "exit_begin s = s\<lparr>m_running := False, m_acceptor := False\<rparr>"

definition exit_end :: "etcp_server_impl \<Rightarrow> etcp_server_impl" where
  "exit_end s = s\<lparr>m_io_works := 0, m_work_threads := 0, m_io_contexts := 0\<rparr>"

text \<open>
  \<open>exit\<close> of a server without sessions, as \<open>init\<close> calls it; with sessions it waits, see
  below.
\<close>

definition exit :: "etcp_server_impl \<Rightarrow> etcp_server_impl" where
  "exit s = (if m_running s then exit_end (exit_begin s) else s)"

text \<open>
  \<open>init\<close>: \<open>bindable host port\<close> says whether the address parses and the acceptor can be
  bound to it; otherwise asio throws, and \<open>init\<close> catches.
\<close>

definition clamp_threads :: "u32 \<Rightarrow> nat" where
  "clamp_threads thread_count =
     (if thread_count < 1 then 1 else if thread_count > 20 then 20 else unat thread_count)"

definition init :: "(bytes \<Rightarrow> u16 \<Rightarrow> bool) \<Rightarrow> bool \<Rightarrow> bytes \<Rightarrow> u16 \<Rightarrow> u32 \<Rightarrow> etcp_server_impl \<Rightarrow>
    bool \<times> etcp_server_impl" where
  "init bindable sink host port thread_count s =
     (let s = exit s
      in if host = [] \<or> port = 0 then (False, exit s)
         else
           let n = clamp_threads thread_count;
               s = s\<lparr>m_running := True, m_sink := sink\<rparr>;
               s = s\<lparr>m_io_contexts := m_io_contexts s + n, m_io_works := m_io_works s + n,
                     m_work_threads := m_work_threads s + n, m_io_context_iter := 0\<rparr>;
               s = (if bindable host port then (snd (get_io_context s))\<lparr>m_acceptor := True\<rparr>
                    else snd (get_io_context s))
           in if bindable host port then (True, snd (do_accept s)) else (False, exit s))"

section \<open>Round robin\<close>

lemma get_io_context_fields [simp]:
  "m_io_contexts (snd (get_io_context s)) = m_io_contexts s"
  "m_session_map (snd (get_io_context s)) = m_session_map s"
  "m_acceptor (snd (get_io_context s)) = m_acceptor s"
  "m_running (snd (get_io_context s)) = m_running s"
  by (simp_all add: get_io_context_def Let_def)

interpretation contexts: round_robin get_io_context m_io_contexts m_io_context_iter
  by unfold_locales (auto simp: get_io_context_def Let_def)

lemma clamp_threads_bounds: "1 \<le> clamp_threads n \<and> clamp_threads n \<le> 20"
  by (auto simp: clamp_threads_def word_less_nat_alt not_less)

lemma init_ok_fields:
  assumes "init bindable sink host port n EtcpServerImpl = (True, s)"
  shows "m_io_contexts s = clamp_threads n" "m_running s" "m_acceptor s" "m_session_map s = {}"
    "m_io_context_iter s \<le> clamp_threads n"
    "m_io_context_iter s mod clamp_threads n = 2 mod clamp_threads n"
  using assms clamp_threads_bounds [of n]
  by (auto simp: init_def exit_def EtcpServerImpl_def get_io_context_def do_accept_def Let_def
      numeral_2_eq_2 split: if_splits)

section \<open>The session map\<close>

interpretation sessions: registry "\<lambda>k. append_session (Some k)" "\<lambda>k. remove_session (Some k)"
    "\<lambda>s k. k \<in> m_session_map s"
  by unfold_locales (auto simp: append_session_def remove_session_def)

section \<open>Sessions and server together\<close>

text \<open>
  \<open>EtcpSession::start\<close> runs on the thread of the acceptor: it opens the session and tells
  the sink (\<open>Announced\<close>), which may call \<open>close\<close> there, then registers it and starts to
  read (\<open>Started\<close>). Posted closes and read completions run on the thread of the session.
\<close>

datatype start_phase = Accepted | Announced | Started

record conn =
  phase :: start_phase
  m_closed :: bool
  close_posted :: nat
  reading :: bool

record system =
  srv :: etcp_server_impl
  conns :: "nat \<Rightarrow> conn option"

datatype system_event =
    Accept nat
  | Announce nat bool
  | Register nat
  | Close nat
  | Run_close nat
  | Bad_packet nat
  | Read_error nat
  | Exit_begin
  | Exit_end

definition new_conn :: conn where
  "new_conn = \<lparr>phase = Accepted, m_closed = True, close_posted = 0, reading = False\<rparr>"

definition set_conn :: "nat \<Rightarrow> conn \<Rightarrow> system \<Rightarrow> system" where
  "set_conn k c s = s\<lparr>conns := (conns s)(k := Some c)\<rparr>"

definition close_conn :: "conn \<Rightarrow> conn" where
  "close_conn c = (if m_closed c then c else c\<lparr>close_posted := Suc (close_posted c)\<rparr>)"

text \<open>\<open>EtcpSession::on_close\<close>, with the server's part of it.\<close>

definition conn_on_close :: "nat \<Rightarrow> conn \<Rightarrow> system \<Rightarrow> system" where
  "conn_on_close k c s =
     (if m_closed c then set_conn k c s
      else set_conn k (c\<lparr>m_closed := True\<rparr>) (s\<lparr>srv := remove_session (Some k) (srv s)\<rparr>))"

text \<open>A session lives while a handler holds it.\<close>

definition alive :: "conn \<Rightarrow> bool" where
  "alive c \<longleftrightarrow> phase c \<noteq> Started \<or> 0 < close_posted c \<or> reading c"

definition conn_alive :: "system \<Rightarrow> nat \<Rightarrow> bool" where
  "conn_alive s k = (case conns s k of None \<Rightarrow> False | Some c \<Rightarrow> alive c)"

inductive system_step :: "system \<Rightarrow> system_event \<Rightarrow> system \<Rightarrow> bool" where
  y_accept: "m_acceptor (srv s) \<Longrightarrow> conns s k = None \<Longrightarrow>
     system_step s (Accept k) (set_conn k new_conn s)"
| y_announce: "conns s k = Some c \<Longrightarrow> phase c = Accepted \<Longrightarrow>
     system_step s (Announce k closes)
       (set_conn k ((if closes then close_conn else id) (c\<lparr>phase := Announced, m_closed := False\<rparr>)) s)"
| y_register: "conns s k = Some c \<Longrightarrow> phase c = Announced \<Longrightarrow>
     system_step s (Register k)
       (set_conn k (c\<lparr>phase := Started, reading := True\<rparr>)
          (s\<lparr>srv := append_session (Some k) (srv s)\<rparr>))"
| y_close: "conns s k = Some c \<Longrightarrow> phase c \<noteq> Accepted \<Longrightarrow>
     system_step s (Close k) (set_conn k (close_conn c) s)"
| y_run_close: "conns s k = Some c \<Longrightarrow> close_posted c = Suc n \<Longrightarrow>
     system_step s (Run_close k) (conn_on_close k (c\<lparr>close_posted := n\<rparr>) s)"
| y_bad_packet: "conns s k = Some c \<Longrightarrow> reading c \<Longrightarrow>
     system_step s (Bad_packet k)
       (set_conn k (c\<lparr>reading := False, close_posted := Suc (close_posted c)\<rparr>) s)"
| y_read_error: "conns s k = Some c \<Longrightarrow> reading c \<Longrightarrow>
     system_step s (Read_error k) (conn_on_close k (c\<lparr>reading := False\<rparr>) s)"
| y_exit_begin: "m_running (srv s) \<Longrightarrow>
     system_step s Exit_begin
       (s\<lparr>srv := exit_begin (srv s),
          conns := (\<lambda>k. if k \<in> clear_sessions_closes (conn_alive s) (srv s)
                        then map_option close_conn (conns s k) else conns s k)\<rparr>)"
| y_exit_end: "\<not> m_running (srv s) \<Longrightarrow> clear_sessions_done (srv s) \<Longrightarrow>
     system_step s Exit_end (s\<lparr>srv := exit_end (srv s)\<rparr>)"

inductive_simps system_step_simps:
  "system_step s (Accept k) t"
  "system_step s (Announce k b) t"
  "system_step s (Register k) t"
  "system_step s (Close k) t"
  "system_step s (Run_close k) t"
  "system_step s (Bad_packet k) t"
  "system_step s (Read_error k) t"
  "system_step s Exit_begin t"
  "system_step s Exit_end t"

definition system_next :: "system_event \<Rightarrow> system \<Rightarrow> system option" where
  "system_next e s =
     (case e of
        Accept k \<Rightarrow>
          if m_acceptor (srv s) \<and> Option.is_none (conns s k) then Some (set_conn k new_conn s) else None
      | Announce k closes \<Rightarrow> Option.bind (conns s k) (\<lambda>c.
          if phase c = Accepted
          then Some (set_conn k ((if closes then close_conn else id)
                 (c\<lparr>phase := Announced, m_closed := False\<rparr>)) s)
          else None)
      | Register k \<Rightarrow> Option.bind (conns s k) (\<lambda>c.
          if phase c = Announced
          then Some (set_conn k (c\<lparr>phase := Started, reading := True\<rparr>)
                 (s\<lparr>srv := append_session (Some k) (srv s)\<rparr>))
          else None)
      | Close k \<Rightarrow> Option.bind (conns s k) (\<lambda>c.
          if phase c \<noteq> Accepted then Some (set_conn k (close_conn c) s) else None)
      | Run_close k \<Rightarrow> Option.bind (conns s k) (\<lambda>c.
          if close_posted c \<noteq> 0
          then Some (conn_on_close k (c\<lparr>close_posted := close_posted c - 1\<rparr>) s) else None)
      | Bad_packet k \<Rightarrow> Option.bind (conns s k) (\<lambda>c.
          if reading c
          then Some (set_conn k (c\<lparr>reading := False, close_posted := Suc (close_posted c)\<rparr>) s)
          else None)
      | Read_error k \<Rightarrow> Option.bind (conns s k) (\<lambda>c.
          if reading c then Some (conn_on_close k (c\<lparr>reading := False\<rparr>) s) else None)
      | Exit_begin \<Rightarrow>
          if m_running (srv s)
          then Some (s\<lparr>srv := exit_begin (srv s),
                       conns := (\<lambda>k. if k \<in> clear_sessions_closes (conn_alive s) (srv s)
                                     then map_option close_conn (conns s k) else conns s k)\<rparr>)
          else None
      | Exit_end \<Rightarrow>
          if \<not> m_running (srv s) \<and> clear_sessions_done (srv s)
          then Some (s\<lparr>srv := exit_end (srv s)\<rparr>) else None)"

lemma system_step_iff: "system_step s e t \<longleftrightarrow> system_next e s = Some t"
  by (cases e)
    (auto simp: system_step_simps system_next_def Option.is_none_def bind_eq_Some_conv gr0_conv_Suc
      split: if_splits)

interpretation system_exec: executable_steps system_step system_next
  by unfold_locales (rule system_step_iff)

abbreviation system_run :: "system \<Rightarrow> system_event list \<Rightarrow> system \<Rightarrow> bool" where
  "system_run \<equiv> run system_step"

definition serving :: "etcp_server_impl \<Rightarrow> system" where
  "serving s = \<lparr>srv = s, conns = (\<lambda>_. None)\<rparr>"

text \<open>
  The order the classes rely on: no handler closes a session between its announcement
  and its registration. It holds when all contexts share one thread, or when no sink
  closes a session in \<open>on_etcp_accept\<close>.
\<close>

definition ordered_step :: "system \<Rightarrow> system_event \<Rightarrow> system \<Rightarrow> bool" where
  "ordered_step s e t \<longleftrightarrow>
     system_step s e t \<and>
     (\<forall>k c. e = Run_close k \<and> conns s k = Some c \<longrightarrow> phase c = Started)"

definition ordered_next :: "system_event \<Rightarrow> system \<Rightarrow> system option" where
  "ordered_next e s =
     (if (case e of
            Run_close k \<Rightarrow> (case conns s k of Some c \<Rightarrow> phase c = Started | None \<Rightarrow> True)
          | _ \<Rightarrow> True)
      then system_next e s else None)"

lemma ordered_step_iff: "ordered_step s e t \<longleftrightarrow> ordered_next e s = Some t"
  by (auto simp: ordered_step_def ordered_next_def system_step_iff
      split: system_event.splits option.splits)

interpretation ordered_exec: executable_steps ordered_step ordered_next
  by unfold_locales (rule ordered_step_iff)

definition conn_ok :: "conn \<Rightarrow> bool" where
  "conn_ok c \<longleftrightarrow>
     (if phase c = Started then m_closed c \<or> reading c \<or> 0 < close_posted c else \<not> reading c) \<and>
     (phase c = Announced \<longrightarrow> \<not> m_closed c)"

definition is_open :: "conn \<Rightarrow> bool" where
  "is_open c \<longleftrightarrow> phase c = Started \<and> \<not> m_closed c"

definition open_conns :: "system \<Rightarrow> nat set" where
  "open_conns s = {k. \<exists>c. conns s k = Some c \<and> is_open c}"

definition system_inv :: "system \<Rightarrow> bool" where
  "system_inv s \<longleftrightarrow>
     m_session_map (srv s) = open_conns s \<and> finite (m_session_map (srv s)) \<and>
     (\<forall>k c. conns s k = Some c \<longrightarrow> conn_ok c)"

lemma system_inv_serving: "m_session_map s = {} \<Longrightarrow> system_inv (serving s)"
  by (simp add: system_inv_def serving_def open_conns_def)

text \<open>Replacing one connection keeps the invariant if the map is changed with it.\<close>

lemma system_inv_set:
  assumes "system_inv s" "conn_ok c"
    and "m_session_map v =
      (if is_open c then insert k (m_session_map (srv s)) else m_session_map (srv s) - {k})"
  shows "system_inv (set_conn k c (s\<lparr>srv := v\<rparr>))"
  using assms by (auto simp: system_inv_def open_conns_def set_conn_def)

lemma in_map: "system_inv s \<Longrightarrow> conns s k = Some c \<Longrightarrow> k \<in> m_session_map (srv s) \<longleftrightarrow> is_open c"
  by (simp add: system_inv_def open_conns_def)

lemma not_in_map: "system_inv s \<Longrightarrow> conns s k = None \<Longrightarrow> k \<notin> m_session_map (srv s)"
  by (simp add: system_inv_def open_conns_def)

lemma system_inv_keep:
  assumes "system_inv s" "conns s k = Some c" "conn_ok d" "is_open d = is_open c"
  shows "system_inv (set_conn k d s)"
  using system_inv_set [OF assms(1,3), of "srv s" k] in_map [OF assms(1,2)] assms(4)
  by (cases "is_open c") (simp_all add: insert_absorb)

lemma system_inv_close:
  assumes "system_inv s" "conns s k = Some c" "phase c = Started"
    and d: "phase d = Started" "m_closed d = m_closed c"
  shows "system_inv (conn_on_close k d s)"
proof (cases "m_closed c")
  case True
  with assms system_inv_keep [OF assms(1,2), of d] show ?thesis
    by (simp add: conn_on_close_def conn_ok_def is_open_def)
next
  case False
  with assms show ?thesis
    by (auto simp: conn_on_close_def conn_ok_def is_open_def remove_session_def
        intro!: system_inv_set)
qed

lemma close_conn_simps [simp]:
  "phase (close_conn c) = phase c" "m_closed (close_conn c) = m_closed c"
  "reading (close_conn c) = reading c" "is_open (close_conn c) = is_open c"
  "conn_ok c \<Longrightarrow> conn_ok (close_conn c)"
  by (auto simp: close_conn_def is_open_def conn_ok_def)

lemma close_conn_posted: "close_posted (close_conn c) = 0 \<Longrightarrow> m_closed c"
  by (simp add: close_conn_def split: if_splits)

lemma system_inv_exit_begin:
  assumes "system_inv s"
  shows "system_inv (s\<lparr>srv := exit_begin (srv s),
    conns := (\<lambda>k. if k \<in> K then map_option close_conn (conns s k) else conns s k)\<rparr>)"
  using assms
  by (auto simp: system_inv_def open_conns_def exit_begin_def split: if_splits)

lemma system_inv_step: "ordered_step s e t \<Longrightarrow> system_inv s \<Longrightarrow> system_inv t"
  unfolding ordered_step_def
proof (elim conjE)
  assume st: "system_step s e t" and inv: "system_inv s"
    and o: "\<forall>k c. e = Run_close k \<and> conns s k = Some c \<longrightarrow> phase c = Started"
  have ok: "conn_ok c" if "conns s k = Some c" for k c
    using inv that by (simp add: system_inv_def)
  from st show "system_inv t"
  proof cases
    case (y_accept k)
    then show ?thesis
      using system_inv_set [OF inv, of new_conn "srv s" k] not_in_map [OF inv]
      by (simp add: new_conn_def conn_ok_def is_open_def)
  next
    case (y_announce k c closes)
    then show ?thesis
      using system_inv_set [OF inv, of _ "srv s" k] in_map [OF inv, of k] ok [of k]
      by (auto simp: conn_ok_def is_open_def close_conn_def)
  next
    case (y_register k c)
    then show ?thesis
      using system_inv_set [OF inv, of "c\<lparr>phase := Started, reading := True\<rparr>"
          "append_session (Some k) (srv s)" k] ok [of k]
      by (auto simp: conn_ok_def is_open_def append_session_def)
  next
    case (y_close k c)
    then show ?thesis
      using system_inv_keep [OF inv, of k c "close_conn c"] ok [of k] by simp
  next
    case (y_run_close k c n)
    with o show ?thesis by (auto intro!: system_inv_close [OF inv])
  next
    case (y_bad_packet k c)
    then show ?thesis
      using system_inv_keep [OF inv, of k c "c\<lparr>reading := False, close_posted := Suc (close_posted c)\<rparr>"]
        ok [of k]
      by (auto simp: conn_ok_def is_open_def)
  next
    case (y_read_error k c)
    then show ?thesis
      using ok [of k] by (auto simp: conn_ok_def split: if_splits intro!: system_inv_close [OF inv])
  next
    case y_exit_begin
    then show ?thesis using system_inv_exit_begin [OF inv] by simp
  next
    case y_exit_end
    with inv show ?thesis by (auto simp: system_inv_def exit_end_def open_conns_def)
  qed
qed

interpretation system_inv: step_invariant ordered_step system_inv
  by unfold_locales (rule system_inv_step)

section \<open>The end of the server\<close>

text \<open>
  After \<open>exit\<close> has asked the sessions to close, and none is still being accepted: every
  registered session has a posted close.
\<close>

definition closing_inv :: "system \<Rightarrow> bool" where
  "closing_inv s \<longleftrightarrow>
     system_inv s \<and> \<not> m_acceptor (srv s) \<and> \<not> m_running (srv s) \<and>
     (\<forall>k c. conns s k = Some c \<longrightarrow> phase c = Started \<and> (m_closed c \<or> 0 < close_posted c))"

lemma closing_inv_set:
  assumes "closing_inv s" "system_inv (set_conn k d (s\<lparr>srv := v\<rparr>))"
    and "\<not> m_acceptor v" "\<not> m_running v" "phase d = Started" "m_closed d \<or> 0 < close_posted d"
  shows "closing_inv (set_conn k d (s\<lparr>srv := v\<rparr>))"
  using assms by (simp add: closing_inv_def set_conn_def)

lemma closing_inv_on_close:
  assumes "closing_inv s" "system_inv (conn_on_close k d s)" "phase d = Started"
  shows "closing_inv (conn_on_close k d s)"
proof (cases "m_closed d")
  case True
  with assms show ?thesis
    using closing_inv_set [of s k d "srv s"] by (simp add: conn_on_close_def closing_inv_def)
next
  case False
  have "\<not> m_acceptor (srv s)" "\<not> m_running (srv s)" using assms(1) by (simp_all add: closing_inv_def)
  then show ?thesis
    using assms False closing_inv_set [OF assms(1), of k "d\<lparr>m_closed := True\<rparr>" "remove_session (Some k) (srv s)"]
    by (simp add: conn_on_close_def remove_session_def)
qed

lemma closing_inv_step:
  assumes "ordered_step s e t" "closing_inv s"
  shows "closing_inv t"
proof -
  have inv: "system_inv t" using system_inv_step [OF assms(1)] assms(2) by (simp add: closing_inv_def)
  have ph: "phase c = Started" "m_closed c \<or> 0 < close_posted c" if "conns s k = Some c" for k c
    using assms(2) that by (simp_all add: closing_inv_def)
  have down: "\<not> m_acceptor (srv s)" "\<not> m_running (srv s)"
    using assms(2) by (simp_all add: closing_inv_def)
  have "system_step s e t" using assms(1) by (simp add: ordered_step_def)
  then show ?thesis
  proof cases
    case (y_close k c)
    have "m_closed (close_conn c) \<or> 0 < close_posted (close_conn c)" by (simp add: close_conn_def)
    with y_close show ?thesis
      using closing_inv_set [OF assms(2), of k "close_conn c" "srv s"] inv ph [of k c] down by simp
  next
    case (y_bad_packet k c)
    then show ?thesis
      using closing_inv_set [OF assms(2), of k "c\<lparr>reading := False, close_posted := Suc (close_posted c)\<rparr>"
          "srv s"] inv ph [of k c] down by simp
  next
    case (y_run_close k c n)
    then show ?thesis using closing_inv_on_close [OF assms(2)] inv ph [of k c] by simp
  next
    case (y_read_error k c)
    then show ?thesis using closing_inv_on_close [OF assms(2)] inv ph [of k c] by simp
  next
    case y_exit_end
    then show ?thesis using assms(2) inv by (simp add: closing_inv_def exit_end_def)
  qed (use assms(2) ph in \<open>auto simp: closing_inv_def\<close>)
qed

interpretation closing_inv: step_invariant ordered_step closing_inv
  by unfold_locales (rule closing_inv_step)

lemma conns_accepted:
  "run ordered_step s es t \<Longrightarrow> conns t k \<noteq> None \<Longrightarrow> conns s k \<noteq> None \<or> Accept k \<in> set es"
proof (induction rule: run.induct)
  case (run_Cons s e t es u)
  then have "system_step s e t" by (simp add: ordered_step_def)
  then have "conns t k \<noteq> None \<Longrightarrow> conns s k \<noteq> None \<or> e = Accept k"
    by cases (auto simp: set_conn_def conn_on_close_def split: if_splits)
  with run_Cons show ?case by auto
qed simp

lemma run_close_ordered:
  assumes "closing_inv s" "conns s k = Some c" "\<not> m_closed c"
  shows "\<exists>t. ordered_step s (Run_close k) t \<and> m_session_map (srv t) = m_session_map (srv s) - {k}"
proof -
  obtain n where n: "close_posted c = Suc n" "phase c = Started"
    using assms by (auto simp: closing_inv_def gr0_conv_Suc)
  have "ordered_step s (Run_close k) (conn_on_close k (c\<lparr>close_posted := n\<rparr>) s)"
    using y_run_close [OF assms(2) n(1)] n assms(2) by (simp add: ordered_step_def)
  moreover have "m_session_map (srv (conn_on_close k (c\<lparr>close_posted := n\<rparr>) s)) =
      m_session_map (srv s) - {k}"
    using assms(3) by (simp add: conn_on_close_def set_conn_def remove_session_def)
  ultimately show ?thesis by blast
qed

lemma closing_drains:
  "closing_inv s \<Longrightarrow> card (m_session_map (srv s)) = n \<Longrightarrow>
     \<exists>ks t. run ordered_step s (map Run_close ks) t \<and> length ks = n \<and> m_session_map (srv t) = {}"
proof (induction n arbitrary: s)
  case 0
  have "finite (m_session_map (srv s))"
    using 0(1) unfolding closing_inv_def system_inv_def by blast
  with 0 have "m_session_map (srv s) = {}" by (simp only: card_0_eq)
  then show ?case using run_Nil [of ordered_step s] by (metis list.simps(8) list.size(3))
next
  case (Suc n)
  then obtain k where k: "k \<in> m_session_map (srv s)" by (metis card_eq_0_iff ex_in_conv nat.distinct(1))
  then obtain c where c: "conns s k = Some c" "\<not> m_closed c"
    using Suc.prems(1) by (auto simp: closing_inv_def system_inv_def open_conns_def is_open_def)
  obtain t where t: "ordered_step s (Run_close k) t" "m_session_map (srv t) = m_session_map (srv s) - {k}"
    using run_close_ordered [OF Suc.prems(1) c] by blast
  have "card (m_session_map (srv t)) = n" "closing_inv t"
    using t k Suc.prems closing_inv_step [OF t(1)] by simp_all
  with Suc.IH obtain ks u where "run ordered_step t (map Run_close ks) u" "length ks = n"
    "m_session_map (srv u) = {}" by blast
  with t(1) show ?case
    by (intro exI [of _ "k # ks"] exI [of _ u]) (auto intro: run_Cons)
qed

text \<open>
  A session that its own thread closed before the accept handler registered it: it is
  in the map, closed, and no handler of it is left that would remove it.
\<close>

definition leaked :: "nat \<Rightarrow> system \<Rightarrow> bool" where
  "leaked k s \<longleftrightarrow>
     k \<in> m_session_map (srv s) \<and> (\<exists>c. conns s k = Some c \<and> phase c = Started \<and> m_closed c)"

lemma leaked_step: "system_step s e t \<Longrightarrow> leaked k s \<Longrightarrow> leaked k t"
  by (induction rule: system_step.induct)
    (auto simp: leaked_def set_conn_def conn_on_close_def append_session_def remove_session_def
      exit_begin_def exit_end_def)

interpretation leaked: step_invariant system_step "leaked k" for k
  by unfold_locales (rule leaked_step)

section \<open>Properties\<close>

definition demo_server :: etcp_server_impl where
  "demo_server = snd (init (\<lambda>_ _. True) True (ascii ''0.0.0.0'') 80 2 EtcpServerImpl)"

lemma demo_server_init:
  "init (\<lambda>_ _. True) True (ascii ''0.0.0.0'') 80 2 EtcpServerImpl = (True, demo_server)"
  by (simp add: demo_server_def init_def Let_def)

definition demo_traffic :: "system_event list" where
  "demo_traffic =
     [Accept 0, Accept 1, Announce 0 False, Register 0, Announce 1 False, Register 1, Read_error 0]"

lemma demo_traffic_run:
  "\<exists>t. run ordered_step (serving demo_server) demo_traffic t \<and>
     (m_running (srv t) \<and> m_session_map (srv t) = {1} \<and>
      conns t 0 = Some \<lparr>phase = Started, m_closed = True, close_posted = 0, reading = False\<rparr> \<and>
      conns t 1 = Some \<lparr>phase = Started, m_closed = False, close_posted = 0, reading = True\<rparr>)"
  by (rule ordered_exec.exec_ex) code_simp

text \<open>
  The number of threads is between 1 and 20, and the sessions are spread over them
  round robin: behind the acceptor and the session already prepared, the \<open>i\<close>-th next
  session runs on context \<open>(2 + i) mod n\<close>.
\<close>

theorem sessions_round_robin:
  assumes "init bindable sink host port threads EtcpServerImpl = (True, s)"
  shows "1 \<le> m_io_contexts s \<and> m_io_contexts s \<le> 20 \<and>
    draw get_io_context k s = map (\<lambda>i. (2 + i) mod m_io_contexts s) [0..<k]"
proof -
  let ?n = "clamp_threads threads"
  have "(m_io_context_iter s + i) mod ?n = (2 + i) mod ?n" for i
    using init_ok_fields(6) [OF assms] by (metis mod_add_left_eq)
  moreover have "draw get_io_context k s = map (\<lambda>i. (m_io_context_iter s + i) mod ?n) [0..<k]"
    using contexts.draw_round [of s k] clamp_threads_bounds [of threads] init_ok_fields [OF assms]
    by simp
  ultimately show ?thesis
    using clamp_threads_bounds [of threads] init_ok_fields(1) [OF assms] by simp
qed

theorem sessions_round_robin_witness:
  "draw get_io_context 5 demo_server = [0, 1, 0, 1, 0]"
proof -
  have "m_io_contexts demo_server = 2" by code_simp
  with sessions_round_robin [OF demo_server_init, of 5] show ?thesis
    by (simp add: upt_rec)
qed

text \<open>
  C14: the session map holds exactly the open sessions, in every run in which no session
  is closed between its announcement and its registration.
\<close>

theorem session_map_exact:
  assumes "init bindable sink host port threads EtcpServerImpl = (True, s)"
    and "run ordered_step (serving s) es t"
  shows "k \<in> m_session_map (srv t) \<longleftrightarrow>
    (\<exists>c. conns t k = Some c \<and> phase c = Started \<and> \<not> m_closed c)"
proof -
  have "system_inv t"
    using system_inv.run_inv [OF assms(2)] system_inv_serving init_ok_fields(4) [OF assms(1)] by blast
  then show ?thesis by (simp add: system_inv_def open_conns_def is_open_def)
qed

theorem session_map_exact_witness:
  "\<exists>t. run ordered_step (serving demo_server) demo_traffic t \<and> 1 \<in> m_session_map (srv t) \<and>
     0 \<notin> m_session_map (srv t)"
proof -
  obtain t where t: "run ordered_step (serving demo_server) demo_traffic t"
    "conns t 0 = Some \<lparr>phase = Started, m_closed = True, close_posted = 0, reading = False\<rparr>"
    "conns t 1 = Some \<lparr>phase = Started, m_closed = False, close_posted = 0, reading = True\<rparr>"
    using demo_traffic_run by blast
  then show ?thesis
    using session_map_exact [OF demo_server_init t(1), of 0]
      session_map_exact [OF demo_server_init t(1), of 1] by auto
qed

text \<open>
  C13: \<open>exit\<close> returns. When it begins in such a run with no session still being
  accepted, then at any later time running the closes it has posted, one for each
  session left in the map, empties the map and lets \<open>exit\<close> end.
\<close>

theorem exit_can_return:
  assumes "init bindable sink host port threads EtcpServerImpl = (True, s0)"
    and "run ordered_step (serving s0) es s" and "ordered_step s Exit_begin t"
    and "\<And>k c. conns s k = Some c \<Longrightarrow> phase c = Started"
    and "run ordered_step t fs u"
  shows "\<exists>ks v. run ordered_step u (map Run_close ks @ [Exit_end]) v \<and>
    length ks = card (m_session_map (srv u))"
proof -
  have inv: "system_inv s"
    using system_inv.run_inv [OF assms(2)] system_inv_serving init_ok_fields(4) [OF assms(1)] by blast
  have t: "t = s\<lparr>srv := exit_begin (srv s),
      conns := (\<lambda>k. if k \<in> clear_sessions_closes (conn_alive s) (srv s)
                    then map_option close_conn (conns s k) else conns s k)\<rparr>"
    using assms(3) by (simp add: ordered_step_def system_step_simps)
  have "m_closed c \<or> k \<in> clear_sessions_closes (conn_alive s) (srv s)" if "conns s k = Some c" for k c
  proof -
    have "conn_ok c" using inv that by (simp add: system_inv_def)
    then show ?thesis
      using in_map [OF inv that] assms(4) [OF that] that
      by (auto simp: is_open_def clear_sessions_closes_def conn_alive_def alive_def conn_ok_def)
  qed
  then have "closing_inv t"
    using system_inv_step [OF assms(3) inv] assms(4) t
    by (auto simp: closing_inv_def exit_begin_def dest: close_conn_posted split: if_splits)
  then have u: "closing_inv u" using closing_inv.run_inv [OF assms(5)] by blast
  obtain ks v where v: "run ordered_step u (map Run_close ks) v" "m_session_map (srv v) = {}"
    "length ks = card (m_session_map (srv u))"
    using closing_drains [OF u refl] by blast
  then have "ordered_step v Exit_end (v\<lparr>srv := exit_end (srv v)\<rparr>)"
    using closing_inv.run_inv [OF v(1) u] y_exit_end [of v]
    by (simp add: ordered_step_def closing_inv_def clear_sessions_done_def)
  with v run_snoc show ?thesis by metis
qed

theorem exit_can_return_witness:
  "\<exists>s t ks v. run ordered_step (serving demo_server) demo_traffic s \<and>
     ordered_step s Exit_begin t \<and> run ordered_step t (map Run_close ks @ [Exit_end]) v"
proof -
  obtain s where s: "run ordered_step (serving demo_server) demo_traffic s" "m_running (srv s)"
    "conns s 0 = Some \<lparr>phase = Started, m_closed = True, close_posted = 0, reading = False\<rparr>"
    "conns s 1 = Some \<lparr>phase = Started, m_closed = False, close_posted = 0, reading = True\<rparr>"
    using demo_traffic_run by blast
  have st: "phase c = Started" if "conns s k = Some c" for k c
  proof -
    have "k = 0 \<or> k = 1"
      using conns_accepted [OF s(1), of k] that by (auto simp: demo_traffic_def serving_def)
    then show ?thesis using s(3,4) that by auto
  qed
  obtain t where t: "ordered_step s Exit_begin t"
    using y_exit_begin [OF s(2)] by (auto simp: ordered_step_def)
  have "\<exists>ks v. run ordered_step t (map Run_close ks @ [Exit_end]) v \<and>
      length ks = card (m_session_map (srv t))"
    by (rule exit_can_return [OF demo_server_init s(1) t _ run_Nil]) (rule st)
  with s(1) t show ?thesis by blast
qed

text \<open>
  A sink that closes a session in \<open>on_etcp_accept\<close> can hang the server. When the
  session's own thread runs that close before the accept handler has registered the
  session, the session enters the map closed and nothing removes it: once \<open>exit\<close> has
  begun, it never ends.
\<close>

theorem leaked_session_blocks_exit:
  assumes "system_run (serving s0) es s" and "\<not> m_acceptor (srv s)" and "leaked k s"
    and "system_run s fs t"
  shows "\<not> clear_sessions_done (srv t) \<and> \<not> system_step t Exit_end u"
  using leaked.run_inv [OF assms(4,3)]
  by (auto simp: leaked_def clear_sessions_done_def system_step_simps)

theorem leaked_session_blocks_exit_witness:
  "\<exists>s. system_run (serving demo_server)
       [Accept 0, Announce 0 True, Run_close 0, Register 0, Exit_begin, Read_error 0] s \<and>
     \<not> clear_sessions_done (srv s) \<and> (\<forall>u. \<not> system_step s Exit_end u)"
proof -
  have "\<exists>s. system_run (serving demo_server)
       [Accept 0, Announce 0 True, Run_close 0, Register 0, Exit_begin, Read_error 0] s \<and>
     (\<not> m_acceptor (srv s) \<and> 0 \<in> m_session_map (srv s) \<and>
      conns s 0 = Some \<lparr>phase = Started, m_closed = True, close_posted = 0, reading = False\<rparr>)"
    by (rule system_exec.exec_ex) code_simp
  then obtain s where s: "system_run (serving demo_server)
       [Accept 0, Announce 0 True, Run_close 0, Register 0, Exit_begin, Read_error 0] s"
    "\<not> m_acceptor (srv s)" "leaked 0 s"
    by (auto simp: leaked_def)
  with leaked_session_blocks_exit [OF s run_Nil] show ?thesis by blast
qed

end
