(* ===== verification/Etcp_Server.thy ===== *)
theory Etcp_Server
  imports Etcp_Server_Impl
begin

text \<open>
  src/etcp_server/etcp_server.cpp: \<open>EtcpServer\<close>, which owns one \<open>EtcpServerImpl\<close>
  (\<open>None\<close>: the null pointer), and the user data of an \<open>EtcpConnection\<close> (an address).
\<close>

type_synonym etcp_server = "etcp_server_impl option"

definition EtcpServer :: etcp_server where
  "EtcpServer = None"

text \<open>\<open>exit\<close> waits for the sessions, see \<open>Etcp_Server_Impl\<close>; the implementation is then deleted.\<close>

definition exit :: "etcp_server \<Rightarrow> etcp_server" where
  "exit w = None"

definition init :: "(bytes \<Rightarrow> u16 \<Rightarrow> bool) \<Rightarrow> bool \<Rightarrow> bytes option \<Rightarrow> u16 \<Rightarrow> u32 \<Rightarrow> etcp_server \<Rightarrow>
    bool \<times> etcp_server" where
  "init bindable sink host port thread_count w =
     (let host = (if c_text host = [] then ascii ''0.0.0.0'' else c_text host);
          w = exit w;
          (ok, impl) = Etcp_Server_Impl.init bindable sink host port thread_count EtcpServerImpl
      in if ok then (True, Some impl) else (False, exit (Some impl)))"

record etcp_connection =
  m_user_data :: nat

definition EtcpConnection :: etcp_connection where
  "EtcpConnection = \<lparr>m_user_data = 0\<rparr>"

definition set_user_data :: "nat \<Rightarrow> etcp_connection \<Rightarrow> etcp_connection" where
  "set_user_data user_data c = c\<lparr>m_user_data := user_data\<rparr>"

definition get_user_data :: "etcp_connection \<Rightarrow> nat" where
  "get_user_data c = m_user_data c"

lemma user_data_round_trip: "get_user_data (set_user_data d c) = d"
  by (simp add: get_user_data_def set_user_data_def)

text \<open>
  The server listens on all addresses when it is given no host, and a server that
  started has between 1 and 20 threads and an acceptor.
\<close>

lemma server_init_started:
  "init bindable sink host port n w = (ok, w') \<Longrightarrow>
     ok = (port \<noteq> 0 \<and> bindable (if c_text host = [] then ascii ''0.0.0.0'' else c_text host) port) \<and>
     (ok \<longleftrightarrow> w' \<noteq> None) \<and>
     (\<forall>impl. w' = Some impl \<longrightarrow>
        m_running impl \<and> m_acceptor impl \<and> m_io_contexts impl = clamp_threads n)"
  by (auto simp: init_def Etcp_Server_Impl.init_def exit_def Etcp_Server_Impl.exit_def
      EtcpServerImpl_def get_io_context_def do_accept_def Let_def split: if_splits)

end
