(* ===== verification/Tcp_Relay.thy ===== *)
theory Tcp_Relay
  imports Prelude "HOL-Library.Sublist"
begin

text \<open>
  src/tcp_gateway_server/tcp_gateway_session.cpp and
  src/tcp_forward_server/tcp_forward_session.cpp, which differ in their log texts only:
  a session that copies bytes between two connected sockets. A direction is named by
  \<open>local_recv\<close>: \<open>True\<close> reads the local socket into \<open>m_local_buffer\<close> and writes the
  remote socket. \<open>pending\<close> are the operations not yet completed; \<open>got d\<close> and \<open>sent d\<close>
  are the bytes read and written in direction \<open>d\<close> so far.
\<close>

section \<open>State and handlers\<close>

datatype relay_op = Recv | Send nat

record relay =
  m_local_open :: bool
  m_remote_open :: bool
  m_local_buffer :: bytes
  m_remote_buffer :: bytes
  pending :: "(bool \<times> relay_op) list"
  got :: "bool \<Rightarrow> bytes"
  sent :: "bool \<Rightarrow> bytes"

definition buffer_size :: nat where
  "buffer_size = 32 * 1024"

definition TcpGatewaySession :: relay where
  "TcpGatewaySession =
     \<lparr>m_local_open = True, m_remote_open = True,
      m_local_buffer = replicate buffer_size 0, m_remote_buffer = replicate buffer_size 0,
      pending = [], got = (\<lambda>_. []), sent = (\<lambda>_. [])\<rparr>"

definition recv_buffer :: "bool \<Rightarrow> relay \<Rightarrow> bytes" where
  "recv_buffer local_recv s = (if local_recv then m_local_buffer s else m_remote_buffer s)"

definition set_recv_buffer :: "bool \<Rightarrow> bytes \<Rightarrow> relay \<Rightarrow> relay" where
  "set_recv_buffer local_recv b s =
     (if local_recv then s\<lparr>m_local_buffer := b\<rparr> else s\<lparr>m_remote_buffer := b\<rparr>)"

definition close_local :: "relay \<Rightarrow> relay" where
  "close_local s = s\<lparr>m_local_open := False\<rparr>"

definition close_remote :: "relay \<Rightarrow> relay" where
  "close_remote s = s\<lparr>m_remote_open := False\<rparr>"

definition stop :: "relay \<Rightarrow> relay" where
  "stop s = close_remote (close_local s)"

definition do_recv :: "bool \<Rightarrow> relay \<Rightarrow> relay" where
  "do_recv local_recv s = s\<lparr>pending := pending s @ [(local_recv, Recv)]\<rparr>"

definition start :: "relay \<Rightarrow> relay" where
  "start s = do_recv False (do_recv True s)"

text \<open>
  The completion handlers. A read of \<open>bs\<close> has overwritten the front of the buffer; a
  write sends what the buffer holds while it runs.
\<close>

definition recv_ok :: "bool \<Rightarrow> bytes \<Rightarrow> relay \<Rightarrow> relay" where
  "recv_ok d bs s =
     (let s = set_recv_buffer d (bs @ drop (length bs) (recv_buffer d s)) s
      in s\<lparr>pending := remove1 (d, Recv) (pending s) @ [(d, Send (length bs))],
           got := (got s)(d := got s d @ bs)\<rparr>)"

definition recv_err :: "bool \<Rightarrow> relay \<Rightarrow> relay" where
  "recv_err d s = stop (s\<lparr>pending := remove1 (d, Recv) (pending s)\<rparr>)"

definition send_ok :: "bool \<Rightarrow> nat \<Rightarrow> relay \<Rightarrow> relay" where
  "send_ok d len s =
     do_recv d (s\<lparr>pending := remove1 (d, Send len) (pending s),
                  sent := (sent s)(d := sent s d @ take len (recv_buffer d s))\<rparr>)"

definition send_err :: "bool \<Rightarrow> nat \<Rightarrow> nat \<Rightarrow> relay \<Rightarrow> relay" where
  "send_err d len part s =
     stop (s\<lparr>pending := remove1 (d, Send len) (pending s),
             sent := (sent s)(d := sent s d @ take part (recv_buffer d s))\<rparr>)"

text \<open>The class of the forward server is the same code.\<close>

definition TcpForwardSession :: relay where
  "TcpForwardSession = TcpGatewaySession"

definition forward_start :: "relay \<Rightarrow> relay" where
  "forward_start s = start s"

definition forward_stop :: "relay \<Rightarrow> relay" where
  "forward_stop s = stop s"

definition forward_do_recv :: "bool \<Rightarrow> relay \<Rightarrow> relay" where
  "forward_do_recv local_recv s = do_recv local_recv s"

section \<open>Steps\<close>

datatype relay_event =
    Recv_ok bool bytes
  | Recv_err bool
  | Send_ok bool nat
  | Send_err bool nat nat
  | Stop

inductive relay_step :: "relay \<Rightarrow> relay_event \<Rightarrow> relay \<Rightarrow> bool" where
  l_recv_ok: "(d, Recv) \<in> set (pending s) \<Longrightarrow> bs \<noteq> [] \<Longrightarrow> length bs \<le> buffer_size \<Longrightarrow>
     relay_step s (Recv_ok d bs) (recv_ok d bs s)"
| l_recv_err: "(d, Recv) \<in> set (pending s) \<Longrightarrow> relay_step s (Recv_err d) (recv_err d s)"
| l_send_ok: "(d, Send n) \<in> set (pending s) \<Longrightarrow> relay_step s (Send_ok d n) (send_ok d n s)"
| l_send_err: "(d, Send n) \<in> set (pending s) \<Longrightarrow> part \<le> n \<Longrightarrow>
     relay_step s (Send_err d n part) (send_err d n part s)"
| l_stop: "relay_step s Stop (stop s)"

definition relay_next :: "relay_event \<Rightarrow> relay \<Rightarrow> relay option" where
  "relay_next e s =
     (case e of
        Recv_ok d bs \<Rightarrow>
          if (d, Recv) \<in> set (pending s) \<and> bs \<noteq> [] \<and> length bs \<le> buffer_size
          then Some (recv_ok d bs s) else None
      | Recv_err d \<Rightarrow> if (d, Recv) \<in> set (pending s) then Some (recv_err d s) else None
      | Send_ok d n \<Rightarrow> if (d, Send n) \<in> set (pending s) then Some (send_ok d n s) else None
      | Send_err d n part \<Rightarrow>
          if (d, Send n) \<in> set (pending s) \<and> part \<le> n then Some (send_err d n part s) else None
      | Stop \<Rightarrow> Some (stop s))"

inductive_simps relay_step_simps:
  "relay_step s (Recv_ok d bs) t"
  "relay_step s (Recv_err d) t"
  "relay_step s (Send_ok d n) t"
  "relay_step s (Send_err d n part) t"
  "relay_step s Stop t"

lemma relay_step_iff: "relay_step s e t \<longleftrightarrow> relay_next e s = Some t"
  by (cases e) (auto simp: relay_step_simps relay_next_def)

interpretation relay_exec: executable_steps relay_step relay_next
  by unfold_locales (rule relay_step_iff)

section \<open>The relay copies bytes\<close>

text \<open>The operations of one direction, and the invariant that ties them to the bytes.\<close>

definition ops :: "bool \<Rightarrow> relay \<Rightarrow> relay_op list" where
  "ops d s = map snd (filter (\<lambda>x. fst x = d) (pending s))"

definition direction_ok :: "bool \<Rightarrow> relay \<Rightarrow> bool" where
  "direction_ok d s \<longleftrightarrow>
     length (recv_buffer d s) = buffer_size \<and>
     (case ops d s of
        [] \<Rightarrow> prefix (sent s d) (got s d)
      | [Recv] \<Rightarrow> sent s d = got s d
      | [Send n] \<Rightarrow> n \<le> buffer_size \<and> got s d = sent s d @ take n (recv_buffer d s)
      | _ \<Rightarrow> False)"

lemma filter_remove1_other:
  "fst x \<noteq> d \<Longrightarrow> filter (\<lambda>y. fst y = d) (remove1 x xs) = filter (\<lambda>y. fst y = d) xs"
  by (induction xs) auto

lemma map_filter_remove1:
  "map snd (filter (\<lambda>y. fst y = d) (remove1 (d, p) xs)) =
    remove1 p (map snd (filter (\<lambda>y. fst y = d) xs))"
  by (induction xs) auto

lemma ops_mem: "(d, p) \<in> set (pending s) \<Longrightarrow> p \<in> set (ops d s)"
  by (force simp: ops_def)

lemma direction_ops:
  assumes "direction_ok d s" "(d, p) \<in> set (pending s)"
  shows "ops d s = [p]"
  using assms(1) ops_mem [OF assms(2)]
  by (auto simp: direction_ok_def split: list.splits relay_op.splits)

text \<open>What the handlers do to the two directions.\<close>

lemma recv_buffer_set [simp]:
  "recv_buffer d (set_recv_buffer d' b s) = (if d = d' then b else recv_buffer d s)"
  "pending (set_recv_buffer d' b s) = pending s" "got (set_recv_buffer d' b s) = got s"
  "sent (set_recv_buffer d' b s) = sent s"
  by (auto simp: recv_buffer_def set_recv_buffer_def)

lemma recv_buffer_update [simp]:
  "recv_buffer d (s\<lparr>pending := x1\<rparr>) = recv_buffer d s"
  "recv_buffer d (s\<lparr>got := x2\<rparr>) = recv_buffer d s"
  "recv_buffer d (s\<lparr>sent := x3\<rparr>) = recv_buffer d s"
  "recv_buffer d (stop s) = recv_buffer d s"
  by (simp_all add: recv_buffer_def stop_def close_local_def close_remote_def)

lemma stop_fields [simp]:
  "pending (stop s) = pending s" "got (stop s) = got s" "sent (stop s) = sent s"
  "\<not> m_local_open (stop s)" "\<not> m_remote_open (stop s)"
  by (simp_all add: stop_def close_local_def close_remote_def)

lemma direction_ok_cong:
  assumes "recv_buffer d s = recv_buffer d t" "ops d s = ops d t" "got s d = got t d"
    "sent s d = sent t d"
  shows "direction_ok d s = direction_ok d t"
  unfolding direction_ok_def assms by (rule refl)

lemma direction_ok_stop: "direction_ok d (stop s) = direction_ok d s"
  by (rule direction_ok_cong) (simp_all add: ops_def)

lemma other_direction:
  assumes "d' \<noteq> d"
  shows "direction_ok d' (recv_ok d bs s) = direction_ok d' s"
    "direction_ok d' (recv_err d s) = direction_ok d' s"
    "direction_ok d' (send_ok d n s) = direction_ok d' s"
    "direction_ok d' (send_err d n part s) = direction_ok d' s"
  using assms
  by (rule_tac [!] direction_ok_cong)
    (simp_all add: ops_def recv_ok_def recv_err_def send_ok_def send_err_def do_recv_def
      filter_remove1_other Let_def)

lemma same_direction:
  assumes "direction_ok d s"
  shows "(d, Recv) \<in> set (pending s) \<Longrightarrow> length bs \<le> buffer_size \<Longrightarrow> direction_ok d (recv_ok d bs s)"
    "(d, Recv) \<in> set (pending s) \<Longrightarrow> direction_ok d (recv_err d s)"
    "(d, Send n) \<in> set (pending s) \<Longrightarrow> direction_ok d (send_ok d n s)"
    "(d, Send n) \<in> set (pending s) \<Longrightarrow> part \<le> n \<Longrightarrow> direction_ok d (send_err d n part s)"
proof -
  have o: "(d, p) \<in> set (pending s) \<Longrightarrow> map snd (filter (\<lambda>y. fst y = d) (pending s)) = [p]" for p
    using direction_ops [OF assms] by (simp add: ops_def)
  show "(d, Recv) \<in> set (pending s) \<Longrightarrow> length bs \<le> buffer_size \<Longrightarrow> direction_ok d (recv_ok d bs s)"
    using assms o [of Recv]
    by (simp add: direction_ok_def ops_def recv_ok_def map_filter_remove1 Let_def)
  show "(d, Recv) \<in> set (pending s) \<Longrightarrow> direction_ok d (recv_err d s)"
    using assms o [of Recv]
    by (simp add: direction_ok_def ops_def recv_err_def map_filter_remove1)
  show "(d, Send n) \<in> set (pending s) \<Longrightarrow> direction_ok d (send_ok d n s)"
    using assms o [of "Send n"]
    by (simp add: direction_ok_def ops_def send_ok_def do_recv_def map_filter_remove1)
  show "(d, Send n) \<in> set (pending s) \<Longrightarrow> part \<le> n \<Longrightarrow> direction_ok d (send_err d n part s)"
    using assms o [of "Send n"] take_is_prefix [of part "take n (recv_buffer d s)"]
    by (simp add: direction_ok_def ops_def send_err_def map_filter_remove1 min_def)
qed

definition relay_ok :: "relay \<Rightarrow> bool" where
  "relay_ok s \<longleftrightarrow> (\<forall>d. direction_ok d s)"

lemma relay_ok_step:
  assumes "relay_step s e t" "relay_ok s"
  shows "relay_ok t"
  unfolding relay_ok_def
proof
  fix d
  from assms(1) show "direction_ok d t"
  proof cases
    case (l_recv_ok d' bs)
    with assms(2) show ?thesis
      by (cases "d = d'") (simp_all add: relay_ok_def same_direction other_direction)
  next
    case (l_recv_err d')
    with assms(2) show ?thesis
      by (cases "d = d'") (simp_all add: relay_ok_def same_direction other_direction)
  next
    case (l_send_ok d' n)
    with assms(2) show ?thesis
      by (cases "d = d'") (simp_all add: relay_ok_def same_direction other_direction)
  next
    case (l_send_err d' n part)
    with assms(2) show ?thesis
      by (cases "d = d'") (simp_all add: relay_ok_def same_direction other_direction)
  next
    case l_stop
    with assms(2) show ?thesis by (simp add: relay_ok_def direction_ok_stop)
  qed
qed

interpretation relay_ok: step_invariant relay_step relay_ok
  by unfold_locales (rule relay_ok_step)

lemma relay_ok_start: "relay_ok (start TcpGatewaySession)"
  by (auto simp: relay_ok_def direction_ok_def ops_def start_def do_recv_def TcpGatewaySession_def
      recv_buffer_def)

text \<open>
  The bytes that the peer behind the relay may have read: those of completed writes and
  those of the outstanding one.
\<close>

definition onward :: "relay \<Rightarrow> bool \<Rightarrow> bytes" where
  "onward s d = sent s d @ (case ops d s of [Send n] \<Rightarrow> take n (recv_buffer d s) | _ \<Rightarrow> [])"

lemma onward_prefix: "direction_ok d s \<Longrightarrow> prefix (onward s d) (got s d) \<and> prefix (sent s d) (onward s d)"
  by (auto simp: onward_def direction_ok_def split: list.splits relay_op.splits)

section \<open>A live relay forwards everything\<close>

text \<open>Both sockets are open, and the loop of the direction has not ended.\<close>

definition relay_live :: "bool \<Rightarrow> relay \<Rightarrow> bool" where
  "relay_live d s \<longleftrightarrow> m_local_open s \<and> m_remote_open s \<and> ops d s \<noteq> []"

lemma relay_ok_ops:
  assumes "relay_ok s" "relay_live d s"
  obtains "ops d s = [Recv]" | n where "ops d s = [Send n]"
proof -
  have "direction_ok d s" "ops d s \<noteq> []"
    using assms by (simp_all add: relay_ok_def relay_live_def)
  then obtain p where "ops d s = [p]"
    by (auto simp: direction_ok_def split: list.splits relay_op.splits)
  with that show ?thesis by (cases p) simp_all
qed

lemma ops_pending: "ops d s = [p] \<Longrightarrow> (d, p) \<in> set (pending s)"
proof -
  assume "ops d s = [p]"
  then have "p \<in> snd ` set (filter (\<lambda>x. fst x = d) (pending s))"
    by (metis list.set_intros(1) list.set_map ops_def)
  then show ?thesis by auto
qed

lemma relay_sends:
  assumes "relay_ok s" "relay_live d s" "ops d s = [Send n]"
  shows "relay_step s (Send_ok d n) (send_ok d n s)" "relay_ok (send_ok d n s)"
    "relay_live d (send_ok d n s)" "ops d (send_ok d n s) = [Recv]" "got (send_ok d n s) d = got s d"
proof -
  show st: "relay_step s (Send_ok d n) (send_ok d n s)"
    using ops_pending [OF assms(3)] by (rule l_send_ok)
  show "relay_ok (send_ok d n s)" by (rule relay_ok_step [OF st assms(1)])
  show "ops d (send_ok d n s) = [Recv]" "got (send_ok d n s) d = got s d"
    using assms(3) by (simp_all add: ops_def send_ok_def do_recv_def map_filter_remove1)
  with assms(2) show "relay_live d (send_ok d n s)"
    by (simp add: relay_live_def send_ok_def do_recv_def)
qed

lemma relay_receives:
  assumes "relay_ok s" "relay_live d s" "ops d s = [Recv]" "bs \<noteq> []" "length bs \<le> buffer_size"
  shows "relay_step s (Recv_ok d bs) (recv_ok d bs s)" "relay_ok (recv_ok d bs s)"
    "relay_live d (recv_ok d bs s)" "ops d (recv_ok d bs s) = [Send (length bs)]"
    "got (recv_ok d bs s) d = got s d @ bs"
proof -
  show st: "relay_step s (Recv_ok d bs) (recv_ok d bs s)"
    using ops_pending [OF assms(3)] assms(4,5) by (rule l_recv_ok)
  show "relay_ok (recv_ok d bs s)" by (rule relay_ok_step [OF st assms(1)])
  show o: "ops d (recv_ok d bs s) = [Send (length bs)]" "got (recv_ok d bs s) d = got s d @ bs"
    using assms(3) by (simp_all add: ops_def recv_ok_def map_filter_remove1 Let_def)
  with assms(2) show "relay_live d (recv_ok d bs s)"
    by (simp add: relay_live_def recv_ok_def set_recv_buffer_def Let_def)
qed

lemma relay_catches_up:
  assumes "relay_ok s" "relay_live d s"
  shows "\<exists>es t. run relay_step s es t \<and> relay_ok t \<and> relay_live d t \<and> ops d t = [Recv] \<and> got t d = got s d"
  using assms
proof (cases rule: relay_ok_ops)
  case 1
  with assms show ?thesis by (intro exI [of _ "[]"] exI [of _ s]) (simp add: run_Nil)
next
  case (2 n)
  note u = relay_sends [OF assms 2]
  have "run relay_step s [Send_ok d n] (send_ok d n s)"
    by (rule run_Cons [of relay_step, OF u(1) run_Nil])
  with u(2-5) show ?thesis by (intro exI [of _ "[Send_ok d n]"] exI [of _ "send_ok d n s"]) simp
qed

lemma relay_forwards:
  assumes "relay_ok s" "relay_live d s"
  shows "\<exists>es t. run relay_step s es t \<and> relay_live d t \<and>
    got t d = got s d @ bs \<and> sent t d = got s d @ bs"
proof -
  from relay_catches_up [OF assms] obtain es u where u: "run relay_step s es u" "relay_ok u"
    "relay_live d u" "ops d u = [Recv]" "got u d = got s d"
    by blast
  have "\<exists>es t. run relay_step u es t \<and> relay_live d t \<and> got t d = got u d @ bs \<and> sent t d = got u d @ bs"
    using u(2-4)
  proof (induction "length bs" arbitrary: u bs rule: less_induct)
    case less
    show ?case
    proof (cases "bs = []")
      case True
      have "sent u d = got u d"
        using less.prems by (auto simp: relay_ok_def direction_ok_def dest!: spec [of _ d])
      with True less.prems show ?thesis by (metis append_Nil2 run_Nil)
    next
      case False
      define c where "c = take buffer_size bs"
      have c: "c \<noteq> []" "length c \<le> buffer_size" "bs = c @ drop buffer_size bs"
        using False by (simp_all add: c_def buffer_size_def)
      note v = relay_receives [OF less.prems c(1,2)]
      note w = relay_sends [OF v(2-4)]
      have "length (drop buffer_size bs) < length bs"
        using False by (simp add: buffer_size_def)
      from less.hyps [OF this w(2-4)] obtain es t where
        t: "run relay_step (send_ok d (length c) (recv_ok d c u)) es t" "relay_live d t"
        "got t d = got u d @ c @ drop buffer_size bs" "sent t d = got u d @ c @ drop buffer_size bs"
        by (auto simp: v(5) w(5))
      have "run relay_step u (Recv_ok d c # Send_ok d (length c) # es) t"
        by (rule run_Cons [of relay_step, OF v(1) run_Cons [of relay_step, OF w(1) t(1)]])
      with t(2-4) c(3) show ?thesis by metis
    qed
  qed
  with u show ?thesis by (metis run_append)
qed

section \<open>Properties\<close>

text \<open>
  C20: a relay session copies each direction unchanged. What it has written to one
  socket is always a prefix of what it has read from the other; a direction that waits
  for input has written everything; it never has two operations outstanding in one
  direction, and at most 32 KiB are held back.
\<close>

theorem relay_copies:
  assumes "run relay_step (start TcpGatewaySession) es s"
  shows "prefix (sent s d) (got s d) \<and> length (ops d s) \<le> 1 \<and>
    (ops d s = [Recv] \<longrightarrow> sent s d = got s d) \<and>
    (ops d s \<noteq> [] \<longrightarrow> length (got s d) \<le> length (sent s d) + buffer_size)"
proof -
  have "direction_ok d s"
    using relay_ok.run_inv [OF assms] relay_ok_start by (simp add: relay_ok_def)
  then show ?thesis
    by (auto simp: direction_ok_def split: list.splits relay_op.splits)
qed

definition demo_relay :: "relay_event list" where
  "demo_relay =
     [Recv_ok True [1, 2, 3], Recv_ok False [9], Send_ok True 3, Recv_ok True [4, 5],
      Send_err True 2 1, Send_ok False 1]"

theorem relay_copies_witness:
  "\<exists>s. run relay_step (start TcpGatewaySession) demo_relay s \<and> sent s True = [1, 2, 3, 4] \<and>
     prefix (sent s True) (got s True) \<and> sent s False = got s False"
proof -
  have "\<exists>s. run relay_step (start TcpGatewaySession) demo_relay s \<and>
      (sent s True = [1, 2, 3, 4] \<and> ops False s = [Recv])"
    by (rule relay_exec.exec_ex)
      (simp add: demo_relay_def relay_next_def recv_ok_def send_ok_def send_err_def do_recv_def
        start_def stop_def close_local_def close_remote_def TcpGatewaySession_def recv_buffer_def
        set_recv_buffer_def ops_def buffer_size_def)
  then show ?thesis using relay_copies by blast
qed

end
