(* ===== verification/Tcp_Gateway.thy ===== *)
theory Tcp_Gateway
  imports Base Tcp_Relay
begin

text \<open>
  src/tcp_gateway_server: the gateway. It accepts a connection, reads a request (an
  HTTP CONNECT, or seven obfuscated bytes with an address), answers, connects to the
  target and starts a relay session. Name resolution and the results of socket
  operations are parameters; \<open>little\<close> is the byte order of the host.
\<close>

section \<open>Requests and responses\<close>

datatype address = V4 u32 | V6 bytes

type_synonym endpoint = "address \<times> u16"

definition ntohl :: "bool \<Rightarrow> u32 \<Rightarrow> u32" where
  "ntohl little x = load32 little (net_to_host little (mem32 little x) 4)"

definition ntohs :: "bool \<Rightarrow> u16 \<Rightarrow> u16" where
  "ntohs little x = load16 little (net_to_host little (mem16 little x) 2)"

text \<open>
  The handler behind the first seven bytes: \<open>None\<close> for a CONNECT request, otherwise the
  response byte, whether to go on, and the target.
\<close>

definition xor_bytes :: "byte \<Rightarrow> bytes \<Rightarrow> bytes" where
  "xor_bytes v bs = map (\<lambda>b. b XOR v) bs"

definition recv_head :: "bool \<Rightarrow> bytes \<Rightarrow> (bytes \<times> bool \<times> endpoint) option" where
  "recv_head little request =
     (if request = ascii ''CONNECT'' then None
      else
        let xor_val = hd request;
            request = xor_val # xor_bytes xor_val (tl request);
            addr = load32 little (take 4 (drop 1 request));
            port = load16 little (take 2 (drop 5 request));
            response = (if addr = 0 \<or> port = 0 then 0 else 1 :: byte)
        in Some ([response], response \<noteq> 0, (V4 (ntohl little addr), ntohs little port)))"

text \<open>
  The pointer loops over the request text: \<open>None\<close> is a read behind the data. The second
  loop remembers the last colon and stops at a blank or a carriage return.
\<close>

function skip_blanks :: "bytes \<Rightarrow> nat \<Rightarrow> nat option" where
  "skip_blanks data i =
     (if length data \<le> i then None
      else if data ! i = ch (CHR '' '') then skip_blanks data (Suc i) else Some i)"
  by pat_completeness auto
termination by (relation "measure (\<lambda>(data, i). length data - i)") auto

function scan_target :: "bytes \<Rightarrow> nat \<Rightarrow> nat option \<Rightarrow> (nat option \<times> nat) option" where
  "scan_target data port_end host_end =
     (if length data \<le> port_end then None
      else if data ! port_end = ch (CHR '' '') \<or> data ! port_end = 13 then Some (host_end, port_end)
      else scan_target data (Suc port_end)
             (if data ! port_end = ch (CHR '':'') then Some port_end else host_end))"
  by pat_completeness auto
termination by (relation "measure (\<lambda>(data, i, h). length data - i)") auto

declare skip_blanks.simps [simp del] scan_target.simps [simp del]

datatype parsed = Out_of_bounds | Invalid_format | Target bytes bytes

definition parse_target :: "bytes \<Rightarrow> parsed" where
  "parse_target data =
     (case skip_blanks data 0 of
        None \<Rightarrow> Out_of_bounds
      | Some host_beg \<Rightarrow>
          (case scan_target data host_beg None of
             None \<Rightarrow> Out_of_bounds
           | Some (None, _) \<Rightarrow> Invalid_format
           | Some (Some host_end, port_end) \<Rightarrow>
               Target (take (host_end - host_beg) (drop host_beg data))
                 (take (port_end - Suc host_end) (drop (Suc host_end) data))))"

definition http_response :: "string \<Rightarrow> bytes" where
  "http_response status =
     ascii ''HTTP/1.1 '' @ ascii status @ [13, 10] @ ascii ''Content-Length: 0'' @ [13, 10, 13, 10]"

fun is_v4 :: "endpoint \<Rightarrow> bool" where
  "is_v4 (V4 a, p) = True"
| "is_v4 (V6 a, p) = False"

text \<open>
  The handler of the request text; \<open>resolve host port\<close> is the answer of the resolver,
  \<open>None\<close> its error. The result \<open>None\<close> is a read behind the data.
\<close>

definition recv_body :: "(bytes \<Rightarrow> bytes \<Rightarrow> endpoint list option) \<Rightarrow> bytes \<Rightarrow>
    (bytes \<times> bool \<times> endpoint option) option" where
  "recv_body resolve data =
     (case parse_target data of
        Out_of_bounds \<Rightarrow> None
      | Invalid_format \<Rightarrow> Some (http_response ''400 Bad Request'', False, None)
      | Target host port \<Rightarrow>
          (case resolve host port of
             None \<Rightarrow> Some (http_response ''502 Bad Gateway'', False, None)
           | Some endpoints \<Rightarrow>
               (case dropWhile (\<lambda>e. \<not> is_v4 e) endpoints of
                  [] \<Rightarrow> Some (http_response ''404 Not Found'', False, None)
                | e # _ \<Rightarrow> Some (http_response ''200 Connection Established'', True, Some e))))"

section \<open>One connection\<close>

text \<open>
  The chain of handlers of one accepted connection. \<open>request\<close> are the bytes of the
  request head read so far, \<open>answered\<close> the response written, \<open>unread\<close> the bytes behind
  the request that the streambuf has swallowed.
\<close>

datatype progress =
    Reading_head
  | Reading_body
  | Sending bytes bool "endpoint option"
  | Connecting endpoint
  | Relaying endpoint
  | Ended

record handshake =
  progress :: progress
  request :: bytes
  answered :: bytes
  unread :: bytes

definition do_recv_head :: handshake where
  "do_recv_head = \<lparr>progress = Reading_head, request = [], answered = [], unread = []\<rparr>"

definition do_recv_body :: "handshake \<Rightarrow> handshake" where
  "do_recv_body s = s\<lparr>progress := Reading_body\<rparr>"

definition do_send_result :: "bytes \<Rightarrow> bool \<Rightarrow> endpoint option \<Rightarrow> handshake \<Rightarrow> handshake" where
  "do_send_result response result e s = s\<lparr>progress := Sending response result e\<rparr>"

definition head_handler :: "bool \<Rightarrow> bytes \<Rightarrow> handshake \<Rightarrow> handshake" where
  "head_handler little bs s =
     (let s = s\<lparr>request := bs\<rparr>
      in case recv_head little bs of
           None \<Rightarrow> do_recv_body s
         | Some (response, result, e) \<Rightarrow> do_send_result response result (Some e) s)"

definition body_handler :: "(bytes \<Rightarrow> bytes \<Rightarrow> endpoint list option) \<Rightarrow> bytes \<Rightarrow> handshake \<Rightarrow>
    handshake option" where
  "body_handler resolve data s =
     (case recv_body resolve data of
        None \<Rightarrow> None
      | Some (response, result, e) \<Rightarrow>
          Some (do_send_result response result e (s\<lparr>unread := drop (the (head_end data)) data\<rparr>)))"

definition sent_handler :: "handshake \<Rightarrow> handshake" where
  "sent_handler s =
     (case progress s of
        Sending response result e \<Rightarrow>
          let s = s\<lparr>answered := response\<rparr>
          in if \<not> result then s\<lparr>progress := Ended\<rparr> else s\<lparr>progress := Connecting (the e)\<rparr>
      | _ \<Rightarrow> s)"

definition connected_handler :: "handshake \<Rightarrow> handshake" where
  "connected_handler s =
     (case progress s of Connecting e \<Rightarrow> s\<lparr>progress := Relaying e\<rparr> | _ \<Rightarrow> s)"

text \<open>An operation is outstanding, which may fail; the handlers then drop the connection.\<close>

fun waiting :: "progress \<Rightarrow> bool" where
  "waiting Ended = False"
| "waiting (Relaying e) = False"
| "waiting _ = True"

datatype handshake_event =
    Head bytes
  | Body bytes
  | Sent
  | Connected
  | Failed

inductive handshake_step :: "bool \<Rightarrow> (bytes \<Rightarrow> bytes \<Rightarrow> endpoint list option) \<Rightarrow> handshake \<Rightarrow>
    handshake_event \<Rightarrow> handshake \<Rightarrow> bool" for little resolve where
  h_head: "progress s = Reading_head \<Longrightarrow> length bs = 7 \<Longrightarrow>
     handshake_step little resolve s (Head bs) (head_handler little bs s)"
| h_body: "progress s = Reading_body \<Longrightarrow> head_end data \<noteq> None \<Longrightarrow>
     body_handler resolve data s = Some t \<Longrightarrow> handshake_step little resolve s (Body data) t"
| h_sent: "progress s = Sending r b e \<Longrightarrow> handshake_step little resolve s Sent (sent_handler s)"
| h_connected: "progress s = Connecting e \<Longrightarrow>
     handshake_step little resolve s Connected (connected_handler s)"
| h_failed: "waiting (progress s) \<Longrightarrow>
     handshake_step little resolve s Failed (s\<lparr>progress := Ended\<rparr>)"

definition handshake_next :: "bool \<Rightarrow> (bytes \<Rightarrow> bytes \<Rightarrow> endpoint list option) \<Rightarrow>
    handshake_event \<Rightarrow> handshake \<Rightarrow> handshake option" where
  "handshake_next little resolve e s =
     (case e of
        Head bs \<Rightarrow>
          if progress s = Reading_head \<and> length bs = 7 then Some (head_handler little bs s) else None
      | Body data \<Rightarrow>
          if progress s = Reading_body \<and> head_end data \<noteq> None then body_handler resolve data s else None
      | Sent \<Rightarrow> (case progress s of Sending r b e \<Rightarrow> Some (sent_handler s) | _ \<Rightarrow> None)
      | Connected \<Rightarrow> (case progress s of Connecting e \<Rightarrow> Some (connected_handler s) | _ \<Rightarrow> None)
      | Failed \<Rightarrow> if waiting (progress s) then Some (s\<lparr>progress := Ended\<rparr>) else None)"

inductive_simps handshake_step_simps:
  "handshake_step little resolve s (Head bs) t"
  "handshake_step little resolve s (Body data) t"
  "handshake_step little resolve s Sent t"
  "handshake_step little resolve s Connected t"
  "handshake_step little resolve s Failed t"

lemma handshake_step_iff:
  "handshake_step little resolve s e t \<longleftrightarrow> handshake_next little resolve e s = Some t"
  by (cases e) (auto simp: handshake_step_simps handshake_next_def split: progress.splits)

interpretation handshake_exec: executable_steps "handshake_step little resolve" "handshake_next little resolve"
    for little resolve
  by unfold_locales (rule handshake_step_iff)

section \<open>The server object\<close>

record tcp_gateway_server_impl =
  m_running :: bool
  m_acceptor :: bool
  m_io_works :: nat
  m_io_contexts :: nat
  m_io_context_iter :: nat
  m_work_threads :: nat
  accepts :: nat
  handshakes :: nat

definition TcpGatewayServerImpl :: tcp_gateway_server_impl where
  "TcpGatewayServerImpl =
     \<lparr>m_running = False, m_acceptor = False, m_io_works = 0, m_io_contexts = 0,
      m_io_context_iter = 0, m_work_threads = 0, accepts = 0, handshakes = 0\<rparr>"

definition get_io_context :: "tcp_gateway_server_impl \<Rightarrow> nat \<times> tcp_gateway_server_impl" where
  "get_io_context s =
     (let s = (if m_io_contexts s = m_io_context_iter s then s\<lparr>m_io_context_iter := 0\<rparr> else s)
      in (m_io_context_iter s, s\<lparr>m_io_context_iter := Suc (m_io_context_iter s)\<rparr>))"

text \<open>\<open>accepts\<close> counts the accept operations outstanding, \<open>handshakes\<close> the connections begun.\<close>

definition do_accept :: "tcp_gateway_server_impl \<Rightarrow> tcp_gateway_server_impl" where
  "do_accept s =
     (if \<not> m_acceptor s then s
      else let s = snd (get_io_context s) in s\<lparr>accepts := Suc (accepts s)\<rparr>)"

definition accept_handler :: "bool \<Rightarrow> tcp_gateway_server_impl \<Rightarrow> tcp_gateway_server_impl" where
  "accept_handler err s =
     (let s = s\<lparr>accepts := accepts s - 1\<rparr>
      in if err then s else do_accept (s\<lparr>handshakes := Suc (handshakes s)\<rparr>))"

definition exit :: "tcp_gateway_server_impl \<Rightarrow> tcp_gateway_server_impl" where
  "exit s =
     (if m_running s
      then s\<lparr>m_running := False, m_acceptor := False, m_io_works := 0, m_work_threads := 0,
             m_io_contexts := 0\<rparr>
      else s)"

definition clamp_threads :: "u32 \<Rightarrow> nat" where
  "clamp_threads thread_count =
     (if thread_count < 1 then 1 else if thread_count > 20 then 20 else unat thread_count)"

definition init :: "(bytes \<Rightarrow> u16 \<Rightarrow> bool) \<Rightarrow> bytes \<Rightarrow> u16 \<Rightarrow> u32 \<Rightarrow> tcp_gateway_server_impl \<Rightarrow>
    bool \<times> tcp_gateway_server_impl" where
  "init bindable host port thread_count s =
     (let s = exit s
      in if host = [] \<or> port = 0 then (False, exit s)
         else
           let n = clamp_threads thread_count;
               s = s\<lparr>m_running := True, m_io_contexts := m_io_contexts s + n,
                     m_io_works := m_io_works s + n, m_work_threads := m_work_threads s + n,
                     m_io_context_iter := 0\<rparr>;
               s = snd (get_io_context s)
           in if bindable host port then (True, do_accept (s\<lparr>m_acceptor := True\<rparr>))
              else (False, exit s))"

interpretation gateway_contexts: round_robin get_io_context m_io_contexts m_io_context_iter
  by unfold_locales (auto simp: get_io_context_def Let_def)

datatype gateway_event = Accepted | Accept_error | Exit

inductive gateway_step :: "tcp_gateway_server_impl \<Rightarrow> gateway_event \<Rightarrow>
    tcp_gateway_server_impl \<Rightarrow> bool" where
  g_accepted: "m_running s \<Longrightarrow> 0 < accepts s \<Longrightarrow> gateway_step s Accepted (accept_handler False s)"
| g_error: "m_running s \<Longrightarrow> 0 < accepts s \<Longrightarrow> gateway_step s Accept_error (accept_handler True s)"
| g_exit: "gateway_step s Exit (exit s)"

text \<open>The class users hold, \<open>TcpGatewayServer\<close>; \<open>None\<close> is the null pointer.\<close>

definition TcpGatewayServer :: "tcp_gateway_server_impl option" where
  "TcpGatewayServer = None"

definition server_exit :: "tcp_gateway_server_impl option \<Rightarrow> tcp_gateway_server_impl option" where
  "server_exit w = None"

definition server_init :: "(bytes \<Rightarrow> u16 \<Rightarrow> bool) \<Rightarrow> bytes option \<Rightarrow> u16 \<Rightarrow> u32 \<Rightarrow>
    tcp_gateway_server_impl option \<Rightarrow> bool \<times> tcp_gateway_server_impl option" where
  "server_init bindable host port thread_count w =
     (let host = (if c_text host = [] then ascii ''0.0.0.0'' else c_text host);
          thread_count = (if thread_count = 0 then 1 else thread_count);
          w = server_exit w;
          (ok, impl) = init bindable host port thread_count TcpGatewayServerImpl
      in if ok then (True, Some impl) else (False, server_exit (Some impl)))"

section \<open>Reading the request text\<close>

lemma head_end_cr: "head_end data \<noteq> None \<Longrightarrow> 13 \<in> set data"
  by (induction data) (auto split: if_splits)

lemma skip_blanks_some:
  "i \<le> j \<Longrightarrow> j < length data \<Longrightarrow> data ! j = 13 \<Longrightarrow> \<exists>k. skip_blanks data i = Some k \<and> k \<le> j"
proof (induction data i rule: skip_blanks.induct)
  case (1 data i)
  show ?case
  proof (cases "data ! i = 32")
    case True
    with "1.prems"(3) have "i \<noteq> j" by auto
    with "1.prems"(1) have "Suc i \<le> j" by simp
    with True "1.prems" "1.IH" show ?thesis by (subst skip_blanks.simps) simp
  next
    case False
    with "1.prems" show ?thesis by (subst skip_blanks.simps) simp
  qed
qed

lemma scan_target_some:
  "i \<le> j \<Longrightarrow> j < length data \<Longrightarrow> data ! j = 13 \<Longrightarrow> scan_target data i h \<noteq> None"
proof (induction data i h rule: scan_target.induct)
  case (1 data i h)
  show ?case
  proof (cases "data ! i = 32 \<or> data ! i = 13")
    case True
    with "1.prems" show ?thesis by (subst scan_target.simps) simp
  next
    case False
    with "1.prems"(3) have "i \<noteq> j" by auto
    with "1.prems"(1) have "Suc i \<le> j" by simp
    with False "1.prems" "1.IH" show ?thesis by (subst scan_target.simps) simp
  qed
qed

lemma parse_in_bounds:
  assumes "head_end data \<noteq> None"
  shows "parse_target data \<noteq> Out_of_bounds"
proof -
  obtain j where j: "j < length data" "data ! j = 13"
    using head_end_cr [OF assms] by (auto simp: in_set_conv_nth)
  obtain k where k: "skip_blanks data 0 = Some k" "k \<le> j"
    using skip_blanks_some [OF _ j, of 0] by auto
  have "scan_target data k None \<noteq> None"
    by (rule scan_target_some [OF k(2) j])
  with k(1) show ?thesis
    by (auto simp: parse_target_def split: option.splits)
qed

text \<open>What the loops find in a well-formed text.\<close>

lemma skip_blanks_over:
  "c \<noteq> 32 \<Longrightarrow> skip_blanks (pre @ replicate n 32 @ c # rest) (length pre) = Some (length pre + n)"
proof (induction n arbitrary: pre)
  case 0
  then show ?case by (subst skip_blanks.simps) (simp add: nth_append)
next
  case (Suc n)
  from Suc.IH [OF Suc.prems, of "pre @ [32]"] show ?case
    by (subst skip_blanks.simps) (simp add: nth_append)
qed

lemma scan_plain:
  "32 \<notin> set t \<Longrightarrow> 13 \<notin> set t \<Longrightarrow> 58 \<notin> set t \<Longrightarrow> c = 32 \<or> c = 13 \<Longrightarrow>
     scan_target (pre @ t @ c # rest) (length pre) h = Some (h, length pre + length t)"
proof (induction t arbitrary: pre)
  case Nil
  then show ?case by (subst scan_target.simps) (auto simp: nth_append)
next
  case (Cons b t)
  with Cons.IH [of "pre @ [b]"] show ?case
    by (subst scan_target.simps) (auto simp: nth_append)
qed

lemma scan_colon:
  "32 \<notin> set t \<Longrightarrow> 13 \<notin> set t \<Longrightarrow>
     32 \<notin> set port \<Longrightarrow> 13 \<notin> set port \<Longrightarrow> 58 \<notin> set port \<Longrightarrow> c = 32 \<or> c = 13 \<Longrightarrow>
     scan_target (pre @ t @ 58 # port @ c # rest) (length pre) h =
       Some (Some (length pre + length t), length pre + length t + 1 + length port)"
proof (induction t arbitrary: pre h)
  case Nil
  then show ?case
    using scan_plain [of port c "pre @ [58]" rest "Some (length pre)"]
    by (subst scan_target.simps) (simp add: nth_append)
next
  case (Cons b t)
  then show ?case
    using Cons.IH [of "pre @ [b]" h] Cons.IH [of "pre @ [b]" "Some (length pre)"]
    by (subst scan_target.simps) (auto simp: nth_append)
qed

lemma parse_target_address:
  assumes "32 \<notin> set host" "13 \<notin> set host"
    and "32 \<notin> set port" "13 \<notin> set port" "58 \<notin> set port" and "c = 32 \<or> c = 13"
  shows "parse_target (replicate n 32 @ host @ 58 # port @ c # rest) = Target host port"
proof -
  obtain b bs where b: "host @ 58 # port @ c # rest = b # bs" "b \<noteq> 32"
    using assms(1) by (cases host) auto
  have "skip_blanks (replicate n 32 @ host @ 58 # port @ c # rest) 0 = Some n"
    using skip_blanks_over [OF b(2), of "[]" n bs] by (simp add: b(1))
  then show ?thesis
    using scan_colon [OF assms, of "replicate n 32" rest None]
    by (simp add: parse_target_def)
qed

lemma parse_target_no_colon:
  assumes "32 \<notin> set t" "13 \<notin> set t" "58 \<notin> set t" "c = 13 \<or> c = 32 \<and> t \<noteq> []"
  shows "parse_target (replicate n 32 @ t @ c # rest) = Invalid_format"
proof -
  obtain b bs where b: "t @ c # rest = b # bs" "b \<noteq> 32"
    using assms by (cases t) auto
  show ?thesis
    using skip_blanks_over [OF b(2), of "[]" n bs] assms
      scan_plain [OF assms(1-3), of c "replicate n 32" rest None] b(1)
    by (auto simp: parse_target_def)
qed

section \<open>The order of a handshake\<close>

definition success :: "bytes \<Rightarrow> bool" where
  "success r \<longleftrightarrow> r = [1] \<or> r = http_response ''200 Connection Established''"

definition handshake_ok :: "handshake \<Rightarrow> bool" where
  "handshake_ok s \<longleftrightarrow>
     (case progress s of
        Reading_head \<Rightarrow> request s = [] \<and> answered s = []
      | Reading_body \<Rightarrow> request s = ascii ''CONNECT'' \<and> answered s = []
      | Sending r ok e \<Rightarrow>
          answered s = [] \<and> ok = success r \<and> (ok \<longrightarrow> (\<exists>e'. e = Some e' \<and> is_v4 e'))
      | Connecting e \<Rightarrow> success (answered s) \<and> is_v4 e
      | Relaying e \<Rightarrow> success (answered s) \<and> is_v4 e
      | Ended \<Rightarrow> True)"

lemma recv_head_ok:
  "recv_head little bs = Some (r, ok, e) \<Longrightarrow> ok = success r \<and> is_v4 e"
  by (auto simp: recv_head_def success_def http_response_def Let_def split: if_splits)

lemma recv_head_connect: "recv_head little bs = None \<Longrightarrow> bs = ascii ''CONNECT''"
  by (auto simp: recv_head_def Let_def split: if_splits)

lemma http_response_inject:
  "http_response a = http_response b \<longleftrightarrow> ascii a = ascii b"
  by (simp add: http_response_def)

lemma recv_body_ok:
  assumes "recv_body resolve data = Some (r, ok, e)"
  shows "ok = success r \<and> (ok \<longrightarrow> (\<exists>e'. e = Some e' \<and> is_v4 e'))"
proof -
  have "\<not> success (http_response ''400 Bad Request'')" "\<not> success (http_response ''502 Bad Gateway'')"
    "\<not> success (http_response ''404 Not Found'')"
    "success (http_response ''200 Connection Established'')"
    by (simp_all add: success_def http_response_def)
  then show ?thesis
    using assms
    by (auto simp: recv_body_def dropWhile_eq_Cons_conv
        split: parsed.splits option.splits list.splits)
qed

lemma handshake_ok_step:
  "handshake_step little resolve s e t \<Longrightarrow> handshake_ok s \<Longrightarrow> handshake_ok t"
proof (induction rule: handshake_step.induct)
  case (h_head s bs)
  then show ?case
    using recv_head_ok [of little bs] recv_head_connect [of little bs]
    by (auto simp: handshake_ok_def head_handler_def do_recv_body_def do_send_result_def Let_def
        split: option.splits)
next
  case (h_body s data t)
  then show ?case
    using recv_body_ok [of resolve data]
    by (auto simp: handshake_ok_def body_handler_def do_send_result_def split: option.splits)
next
  case (h_sent s r b e)
  then show ?case by (auto simp: handshake_ok_def sent_handler_def Let_def)
next
  case (h_connected s e)
  then show ?case by (auto simp: handshake_ok_def connected_handler_def)
qed (simp add: handshake_ok_def)

interpretation handshake_ok: step_invariant "handshake_step little resolve" handshake_ok
    for little resolve
  by unfold_locales (rule handshake_ok_step)

section \<open>The accept loop\<close>

definition stalled :: "tcp_gateway_server_impl \<Rightarrow> bool" where
  "stalled s \<longleftrightarrow> accepts s = 0"

lemma stalled_step: "gateway_step s e t \<Longrightarrow> stalled s \<Longrightarrow> stalled t \<and> handshakes t = handshakes s"
  by (induction rule: gateway_step.induct) (auto simp: stalled_def exit_def)

lemma stalled_run:
  "run gateway_step s es t \<Longrightarrow> stalled s \<Longrightarrow> stalled t \<and> handshakes t = handshakes s"
  by (induction rule: run.induct) (auto dest: stalled_step)

lemma one_accept_step: "gateway_step s e t \<Longrightarrow> accepts s \<le> 1 \<Longrightarrow> accepts t \<le> 1"
  by (induction rule: gateway_step.induct)
    (auto simp: accept_handler_def do_accept_def get_io_context_def exit_def Let_def)

interpretation one_accept: step_invariant gateway_step "\<lambda>s. accepts s \<le> 1"
  by unfold_locales (rule one_accept_step)

lemma gateway_init_fields:
  assumes "init bindable host port threads TcpGatewayServerImpl = (True, s)"
  shows "accepts s = 1" "m_running s" "m_acceptor s"
  using assms
  by (auto simp: init_def exit_def do_accept_def get_io_context_def TcpGatewayServerImpl_def Let_def
      split: if_splits)

lemma first_v4:
  "(case dropWhile (\<lambda>e. \<not> P e) es of [] \<Rightarrow> a | e # _ \<Rightarrow> g e) =
    (if filter P es = [] then a else g (hd (filter P es)))"
  by (induction es) auto

section \<open>Properties\<close>



text \<open>
  C34: the pointer loops never read behind the request: any text that contains the empty
  line the gateway waits for, well-formed or not, is answered.
\<close>

theorem gateway_reads_in_bounds:
  assumes "head_end data \<noteq> None"
  shows "recv_body resolve data \<noteq> None"
  using parse_in_bounds [OF assms]
  by (auto simp: recv_body_def split: parsed.splits option.splits list.splits)

theorem gateway_reads_in_bounds_witness:
  "recv_body (\<lambda>_ _. None) [58, 58, 13, 10, 13, 10] \<noteq> None"
  by (rule gateway_reads_in_bounds) simp

text \<open>
  The gateway connects to a target, and relays, only behind a request it has
  accepted, to an IPv4 address, and after it has written the answer of success: the
  peer is told "200 Connection Established" before the connection is attempted, so a
  target that refuses the connection is reported as connected.
\<close>

theorem gateway_answers_before_connecting:
  assumes "run (handshake_step little resolve) do_recv_head es s"
    and "progress s = Connecting e \<or> progress s = Relaying e"
  shows "is_v4 e \<and>
    (answered s = [1] \<or> answered s = http_response ''200 Connection Established'')"
proof -
  have "handshake_ok do_recv_head"
    by (simp add: handshake_ok_def do_recv_head_def)
  from handshake_ok.run_inv [OF assms(1) this] assms(2) show ?thesis
    by (auto simp: handshake_ok_def success_def)
qed

theorem gateway_answers_before_connecting_witness:
  "\<exists>s. run (handshake_step True (\<lambda>_ _. None)) do_recv_head [Head [7, 13, 7, 7, 6, 7, 87], Sent] s \<and>
     (answered s = [1] \<or> answered s = http_response ''200 Connection Established'')"
proof -
  let ?s1 = "head_handler True [7, 13, 7, 7, 6, 7, 87] do_recv_head"
  have p1: "progress ?s1 = Sending [1] True (Some (V4 0x0A000001, 80))"
    by code_simp
  have st1: "handshake_step True (\<lambda>_ _. None) do_recv_head (Head [7, 13, 7, 7, 6, 7, 87]) ?s1"
    by (rule h_head) (simp_all add: do_recv_head_def)
  have st2: "handshake_step True (\<lambda>_ _. None) ?s1 Sent (sent_handler ?s1)"
    by (rule h_sent [OF p1])
  have r: "run (handshake_step True (\<lambda>_ _. None)) do_recv_head [Head [7, 13, 7, 7, 6, 7, 87], Sent]
      (sent_handler ?s1)"
    by (rule run_Cons, rule st1, rule run_Cons, rule st2, rule run_Nil)
  have "progress (sent_handler ?s1) = Connecting (V4 0x0A000001, 80)"
    using p1 by (simp add: sent_handler_def Let_def)
  with gateway_answers_before_connecting [OF r, of "(V4 0x0A000001, 80)"] r show ?thesis by blast
qed

text \<open>
  One failed accept stops the gateway. The handler returns without starting the
  next accept, so in every run no connection is taken up after an accept error, while
  the server keeps running.
\<close>

theorem gateway_accept_error_is_final:
  assumes "init bindable host port threads TcpGatewayServerImpl = (True, s)"
    and "run gateway_step s es t" and "gateway_step t Accept_error u" and "run gateway_step u fs v"
  shows "handshakes v = handshakes t \<and> Accepted \<notin> set fs \<and> m_running u"
proof -
  have "accepts t \<le> 1"
    using one_accept.run_inv [OF assms(2)] gateway_init_fields(1) [OF assms(1)] by simp
  with assms(3) have u: "stalled u" "handshakes u = handshakes t" "m_running u"
    by (auto simp: stalled_def accept_handler_def Let_def elim: gateway_step.cases)
  have no: "run gateway_step s es t \<Longrightarrow> stalled s \<Longrightarrow> Accepted \<notin> set es" for s es t
  proof (induction rule: run.induct)
    case (run_Cons s e t es u)
    then show ?case
      using stalled_step [of s e t] by (auto simp: stalled_def elim: gateway_step.cases)
  qed simp
  show ?thesis
    using stalled_run [OF assms(4) u(1)] no [OF assms(4) u(1)] u(2,3) by simp
qed

theorem gateway_accept_error_is_final_witness:
  "\<exists>s u. init (\<lambda>_ _. True) (ascii ''0.0.0.0'') 80 1 TcpGatewayServerImpl = (True, s) \<and>
     gateway_step s Accept_error u \<and> m_running u \<and> handshakes u = handshakes s"
proof -
  obtain s where s: "init (\<lambda>_ _. True) (ascii ''0.0.0.0'') 80 1 TcpGatewayServerImpl = (True, s)"
    by (simp add: init_def Let_def)
  have "gateway_step s Accept_error (accept_handler True s)"
    by (rule g_error) (simp_all add: gateway_init_fields [OF s])
  with gateway_accept_error_is_final [OF s run_Nil this run_Nil] s show ?thesis by blast
qed

end
