(* ===== verification/Tcp_Forward.thy ===== *)
theory Tcp_Forward
  imports Tcp_Gateway
begin

text \<open>
  src/tcp_forward_server: local ports whose connections are forwarded to a target
  through the gateway. Every acquired port has a \<open>TcpForwardAcceptor\<close>, an object on the
  heap named by a number; its handlers capture the raw pointer \<open>this\<close>. \<open>handlers\<close> are the
  operations not yet completed, each with the acceptor it belongs to, \<open>faulted\<close> says
  whether a handler has used an acceptor that was already destroyed. Name resolution,
  \<open>inet_addr\<close>, the results of socket operations and the random numbers are parameters.
\<close>

section \<open>The message to the gateway\<close>

definition htons :: "bool \<Rightarrow> u16 \<Rightarrow> u16" where
  "htons little x = ntohs little x"

text \<open>The random byte: drawn until it is neither zero nor the letter C.\<close>

partial_function (option) pick_xor :: "(nat \<Rightarrow> nat) \<Rightarrow> nat \<Rightarrow> (byte \<times> nat) option" where
  "pick_xor random i =
     (let xor_val = of_nat (random i mod 256)
      in if xor_val = 0 \<or> xor_val = ch (CHR ''C'') then pick_xor random (Suc i)
         else Some (xor_val, Suc i))"

declare pick_xor.simps [code]

definition make_forward_message :: "bool \<Rightarrow> (nat \<Rightarrow> nat) \<Rightarrow> u32 \<Rightarrow> u16 \<Rightarrow> nat \<Rightarrow> (bytes \<times> nat) option" where
  "make_forward_message little random addr port i =
     (case pick_xor random i of
        None \<Rightarrow> None
      | Some (xor_val, j) \<Rightarrow>
          Some (xor_val # xor_bytes xor_val (mem32 little addr @ mem16 little port), j))"

section \<open>State\<close>

datatype chain_op = Do_accept | Do_connect | Do_write | Do_read

record tcp_forward_acceptor =
  a_running :: bool
  a_open :: bool
  m_listen_port :: u16
  a_gateway_endpoint :: endpoint
  m_target_endpoint :: endpoint
  m_message :: bytes

record tcp_forward_server_impl =
  m_running :: bool
  m_gateway_host :: bytes
  m_gateway_port :: u16
  m_gateway_endpoint :: endpoint
  m_work :: bool
  m_random :: nat
  m_acceptor_map :: "u16 \<Rightarrow> nat option"
  heap :: "nat \<Rightarrow> tcp_forward_acceptor option"
  next_id :: nat
  handlers :: "(nat \<times> chain_op) list"
  sessions :: "endpoint list"
  faulted :: bool

definition TcpForwardServerImpl :: tcp_forward_server_impl where
  "TcpForwardServerImpl =
     \<lparr>m_running = False, m_gateway_host = [], m_gateway_port = 0, m_gateway_endpoint = (V4 0, 0),
      m_work = False, m_random = 0, m_acceptor_map = (\<lambda>_. None), heap = (\<lambda>_. None), next_id = 0,
      handlers = [], sessions = [], faulted = False\<rparr>"

definition TcpForwardAcceptor :: "endpoint \<Rightarrow> endpoint \<Rightarrow> bytes \<Rightarrow> tcp_forward_acceptor" where
  "TcpForwardAcceptor gateway target message =
     \<lparr>a_running = False, a_open = False, m_listen_port = 0, a_gateway_endpoint = gateway,
      m_target_endpoint = target, m_message = message\<rparr>"

section \<open>The acceptor\<close>

definition stop :: "tcp_forward_acceptor \<Rightarrow> tcp_forward_acceptor" where
  "stop a = (if a_running a then a\<lparr>a_running := False, a_open := False, m_listen_port := 0\<rparr> else a)"

definition get_listen_port :: "tcp_forward_acceptor \<Rightarrow> u16" where
  "get_listen_port a = m_listen_port a"

text \<open>
  What the operating system answers to \<open>listen\<close>: an error of open or bind, the exception
  of \<open>asio\<close>'s listen, or the local port (0 when it cannot be read).
\<close>

datatype listen_answer = Open_error | Bind_error | Listen_throws | Port u16

definition listen :: "listen_answer \<Rightarrow> tcp_forward_acceptor \<Rightarrow> bool option \<times> tcp_forward_acceptor" where
  "listen answer a =
     (case answer of
        Open_error \<Rightarrow> (Some False, a)
      | Bind_error \<Rightarrow> (Some False, a\<lparr>a_open := True\<rparr>)
      | Listen_throws \<Rightarrow> (None, a\<lparr>a_open := True\<rparr>)
      | Port p \<Rightarrow> (Some (p \<noteq> 0), a\<lparr>a_open := True, m_listen_port := p\<rparr>))"

definition do_accept :: "nat \<Rightarrow> tcp_forward_server_impl \<Rightarrow> tcp_forward_server_impl" where
  "do_accept k s = s\<lparr>handlers := handlers s @ [(k, Do_accept)]\<rparr>"

text \<open>\<open>start\<close>: the result of \<open>listen() && do_accept()\<close>, \<open>None\<close> when listen throws.\<close>

definition start :: "listen_answer \<Rightarrow> nat \<Rightarrow> tcp_forward_acceptor \<Rightarrow> tcp_forward_server_impl \<Rightarrow>
    bool option \<times> tcp_forward_server_impl" where
  "start answer k a s =
     (let (r, a) = listen answer ((stop a)\<lparr>a_running := True\<rparr>);
          s = s\<lparr>heap := (heap s)(k := Some a)\<rparr>
      in if r = Some True then (Some True, do_accept k s) else (r, s))"

text \<open>
  The handlers of one accepted connection. A handler that touches its acceptor after the
  acceptor was destroyed is a fault.
\<close>

definition touch :: "nat \<Rightarrow> (tcp_forward_acceptor \<Rightarrow> tcp_forward_server_impl) \<Rightarrow>
    tcp_forward_server_impl \<Rightarrow> tcp_forward_server_impl" where
  "touch k use s = (case heap s k of None \<Rightarrow> s\<lparr>faulted := True\<rparr> | Some a \<Rightarrow> use a)"

definition take_handler :: "nat \<Rightarrow> chain_op \<Rightarrow> tcp_forward_server_impl \<Rightarrow> tcp_forward_server_impl" where
  "take_handler k c s = s\<lparr>handlers := remove1 (k, c) (handlers s)\<rparr>"

definition await :: "nat \<Rightarrow> chain_op \<Rightarrow> tcp_forward_server_impl \<Rightarrow> tcp_forward_server_impl" where
  "await k c s = s\<lparr>handlers := handlers s @ [(k, c)]\<rparr>"

definition accept_handler :: "bool \<Rightarrow> nat \<Rightarrow> tcp_forward_server_impl \<Rightarrow> tcp_forward_server_impl" where
  "accept_handler err k s =
     (let s = take_handler k Do_accept s
      in touch k (\<lambda>a. if err then s else do_accept k (await k Do_connect s)) s)"

definition connect_handler :: "bool \<Rightarrow> nat \<Rightarrow> tcp_forward_server_impl \<Rightarrow> tcp_forward_server_impl" where
  "connect_handler err k s =
     (let s = take_handler k Do_connect s
      in touch k (\<lambda>a. if err then s else await k Do_write s) s)"

definition write_handler :: "bool \<Rightarrow> nat \<Rightarrow> tcp_forward_server_impl \<Rightarrow> tcp_forward_server_impl" where
  "write_handler err k s =
     (let s = take_handler k Do_write s
      in if err then touch k (\<lambda>a. s) s else await k Do_read s)"

definition read_handler :: "byte option \<Rightarrow> nat \<Rightarrow> tcp_forward_server_impl \<Rightarrow> tcp_forward_server_impl" where
  "read_handler result k s =
     (let s = take_handler k Do_read s
      in touch k (\<lambda>a. if result = None \<or> result = Some 0 then s
                      else s\<lparr>sessions := sessions s @ [m_target_endpoint a]\<rparr>) s)"

section \<open>The server\<close>

text \<open>Destroying the acceptor \<open>k\<close>; its destructor stops it.\<close>

definition destroy :: "nat \<Rightarrow> tcp_forward_server_impl \<Rightarrow> tcp_forward_server_impl" where
  "destroy k s = s\<lparr>heap := (heap s)(k := None)\<rparr>"

definition all_ports :: "u16 list" where
  "all_ports = map of_nat [0..<2 ^ 16]"

definition release_all_local_forward_ports :: "tcp_forward_server_impl \<Rightarrow> tcp_forward_server_impl" where
  "release_all_local_forward_ports s =
     s\<lparr>heap := (\<lambda>k. if list_ex (\<lambda>p. m_acceptor_map s p = Some k) all_ports then None else heap s k),
       m_acceptor_map := (\<lambda>_. None)\<rparr>"

definition exit :: "tcp_forward_server_impl \<Rightarrow> tcp_forward_server_impl" where
  "exit s =
     (if m_running s
      then release_all_local_forward_ports (s\<lparr>m_running := False, m_work := False\<rparr>)
      else s)"

definition init :: "(bytes \<Rightarrow> bytes \<Rightarrow> endpoint list option) \<Rightarrow> nat \<Rightarrow> bytes \<Rightarrow> u16 \<Rightarrow>
    tcp_forward_server_impl \<Rightarrow> bool \<times> tcp_forward_server_impl" where
  "init resolve seed gateway_host gateway_port s =
     (let s = (exit s)\<lparr>m_gateway_host := gateway_host, m_gateway_port := gateway_port\<rparr>
      in case resolve gateway_host (to_string (unat gateway_port)) of
           None \<Rightarrow> (False, exit s)
         | Some endpoints \<Rightarrow>
             (case dropWhile (\<lambda>e. \<not> is_v4 e) endpoints of
                [] \<Rightarrow> (False, exit s)
              | e # _ \<Rightarrow>
                  (True, s\<lparr>m_gateway_endpoint := e, m_running := True, m_random := seed,
                           m_work := True\<rparr>)))"

text \<open>
  The results of \<open>acquire_local_forward_port\<close> (\<open>launch\<close> is its part behind the
  construction of the acceptor): it returns a port (0 on failure), an
  exception of asio leaves it, or the search for the random byte does not end.
\<close>

datatype acquired = Returns u16 | Throws | Diverges

definition launch :: "listen_answer \<Rightarrow> tcp_forward_acceptor \<Rightarrow> tcp_forward_server_impl \<Rightarrow>
    acquired \<times> tcp_forward_server_impl" where
  "launch answer acceptor s =
     (let k = next_id s;
          (r, s) = start answer k acceptor (s\<lparr>next_id := Suc k\<rparr>)
      in case r of
           None \<Rightarrow> (Throws, destroy k s)
         | Some False \<Rightarrow> (Returns 0, destroy k s)
         | Some True \<Rightarrow>
             let listen_port = (case heap s k of Some a \<Rightarrow> get_listen_port a | None \<Rightarrow> 0)
             in if listen_port = 0 then (Returns 0, destroy k s)
                else
                  let s = (case m_acceptor_map s listen_port of
                             None \<Rightarrow> s | Some old \<Rightarrow> destroy old s)
                  in (Returns listen_port,
                      s\<lparr>m_acceptor_map := (m_acceptor_map s)(listen_port := Some k)\<rparr>))"

definition acquire_local_forward_port :: "bool \<Rightarrow> (bytes \<Rightarrow> u32) \<Rightarrow> (bytes \<Rightarrow> u32 option) \<Rightarrow>
    (nat \<Rightarrow> nat) \<Rightarrow> listen_answer \<Rightarrow> bytes \<Rightarrow> u16 \<Rightarrow> tcp_forward_server_impl \<Rightarrow>
    acquired \<times> tcp_forward_server_impl" where
  "acquire_local_forward_port little inet_addr make_address_v4 random answer target_host target_port s =
     (if target_host = [] \<or> target_port = 0 then (Returns 0, s)
      else
        let addr = inet_addr target_host in
        if addr = 0xFFFFFFFF then (Returns 0, s)
        else
          case make_address_v4 target_host of
            None \<Rightarrow> (Throws, s)
          | Some a \<Rightarrow>
              (case make_forward_message little random addr (htons little target_port) (m_random s) of
                 None \<Rightarrow> (Diverges, s)
               | Some (message, j) \<Rightarrow>
                   launch answer (TcpForwardAcceptor (m_gateway_endpoint s) (V4 a, target_port) message)
                     (s\<lparr>m_random := j\<rparr>)))"

definition release_local_forward_port :: "u16 \<Rightarrow> tcp_forward_server_impl \<Rightarrow> tcp_forward_server_impl" where
  "release_local_forward_port listen_port s =
     (case m_acceptor_map s listen_port of
        None \<Rightarrow> s
      | Some k \<Rightarrow> (destroy k s)\<lparr>m_acceptor_map := (m_acceptor_map s)(listen_port := None)\<rparr>)"

text \<open>The class users hold, \<open>TcpForwardServer\<close>; \<open>None\<close> is the null pointer.\<close>

definition TcpForwardServer :: "tcp_forward_server_impl option" where
  "TcpForwardServer = None"

definition server_exit :: "tcp_forward_server_impl option \<Rightarrow> tcp_forward_server_impl option" where
  "server_exit w = None"

definition server_init :: "(bytes \<Rightarrow> bytes \<Rightarrow> endpoint list option) \<Rightarrow> nat \<Rightarrow> bytes option \<Rightarrow> u16 \<Rightarrow>
    tcp_forward_server_impl option \<Rightarrow> bool \<times> tcp_forward_server_impl option" where
  "server_init resolve seed gateway_host gateway_port w =
     (let w = server_exit w;
          (ok, impl) = init resolve seed (c_text gateway_host) gateway_port TcpForwardServerImpl
      in if ok then (True, Some impl) else (False, server_exit (Some impl)))"

definition server_acquire :: "bool \<Rightarrow> (bytes \<Rightarrow> u32) \<Rightarrow> (bytes \<Rightarrow> u32 option) \<Rightarrow> (nat \<Rightarrow> nat) \<Rightarrow>
    listen_answer \<Rightarrow> bytes option \<Rightarrow> u16 \<Rightarrow> tcp_forward_server_impl option \<Rightarrow>
    acquired \<times> tcp_forward_server_impl option" where
  "server_acquire little inet_addr make_address_v4 random answer target_host target_port w =
     (case w of
        None \<Rightarrow> (Returns 0, None)
      | Some impl \<Rightarrow>
          map_prod id Some (acquire_local_forward_port little inet_addr make_address_v4 random answer
            (c_text target_host) target_port impl))"

definition server_release :: "u16 \<Rightarrow> tcp_forward_server_impl option \<Rightarrow> tcp_forward_server_impl option" where
  "server_release listen_port w =
     (case w of
        None \<Rightarrow> None
      | Some impl \<Rightarrow> Some (if listen_port \<noteq> 0 then release_local_forward_port listen_port impl else impl))"

section \<open>Steps\<close>

text \<open>
  The operating system gives out no port that is in use, so an acquired port is not yet
  in the map. After \<open>exit\<close> no handler runs.
\<close>

datatype forward_event =
    Acquire listen_answer bytes u16 acquired
  | Release u16
  | Exit
  | Accept_done nat bool
  | Connect_done nat bool
  | Write_done nat bool
  | Read_done nat "byte option"

inductive forward_step :: "bool \<Rightarrow> (bytes \<Rightarrow> u32) \<Rightarrow> (bytes \<Rightarrow> u32 option) \<Rightarrow> (nat \<Rightarrow> nat) \<Rightarrow>
    tcp_forward_server_impl \<Rightarrow> forward_event \<Rightarrow> tcp_forward_server_impl \<Rightarrow> bool"
  for little inet_addr v4 random where
  f_acquire: "(\<And>q. answer = Port q \<Longrightarrow> m_acceptor_map s q = None) \<Longrightarrow>
     acquire_local_forward_port little inet_addr v4 random answer host port s = (r, t) \<Longrightarrow>
     forward_step little inet_addr v4 random s (Acquire answer host port r) t"
| f_release: "forward_step little inet_addr v4 random s (Release p) (release_local_forward_port p s)"
| f_exit: "forward_step little inet_addr v4 random s Exit (exit s)"
| f_accept: "m_running s \<Longrightarrow> (k, Do_accept) \<in> set (handlers s) \<Longrightarrow>
     forward_step little inet_addr v4 random s (Accept_done k err) (accept_handler err k s)"
| f_connect: "m_running s \<Longrightarrow> (k, Do_connect) \<in> set (handlers s) \<Longrightarrow>
     forward_step little inet_addr v4 random s (Connect_done k err) (connect_handler err k s)"
| f_write: "m_running s \<Longrightarrow> (k, Do_write) \<in> set (handlers s) \<Longrightarrow>
     forward_step little inet_addr v4 random s (Write_done k err) (write_handler err k s)"
| f_read: "m_running s \<Longrightarrow> (k, Do_read) \<in> set (handlers s) \<Longrightarrow>
     forward_step little inet_addr v4 random s (Read_done k b) (read_handler b k s)"

section \<open>What acquiring and releasing a port do\<close>

interpretation ports: registry
    "\<lambda>p s. s\<lparr>m_acceptor_map := (m_acceptor_map s)(p := Some k)\<rparr>" release_local_forward_port
    "\<lambda>s p. m_acceptor_map s p \<noteq> None" for k
  by unfold_locales (auto simp: release_local_forward_port_def destroy_def split: option.splits)

lemma start_port:
  "start (Port q) k a s =
     (Some (q \<noteq> 0), (if q \<noteq> 0 then do_accept k else id)
        (s\<lparr>heap := (heap s)(k := Some ((stop a)\<lparr>a_running := True, a_open := True,
           m_listen_port := q\<rparr>))\<rparr>))"
  by (simp add: start_def listen_def Let_def)

lemma start_not_port:
  "\<nexists>q. answer = Port q \<Longrightarrow>
     \<exists>r b. r \<noteq> Some True \<and> start answer k a s = (r, s\<lparr>heap := (heap s)(k := Some b)\<rparr>)"
  by (cases answer) (auto simp: start_def listen_def Let_def)

lemma destroy_fresh:
  "heap s k = None \<Longrightarrow> destroy k (s\<lparr>heap := (heap s)(k := Some b)\<rparr>) = s"
  by (simp add: destroy_def) (metis (no_types, lifting) fun_upd_triv fun_upd_upd
      tcp_forward_server_impl.surjective tcp_forward_server_impl.update_convs(8))

text \<open>
  Acquiring a port either fails, changing nothing but counters, or registers a new
  acceptor whose accept is outstanding.
\<close>

definition registers :: "u16 \<Rightarrow> tcp_forward_server_impl \<Rightarrow> tcp_forward_server_impl \<Rightarrow> bool" where
  "registers q s t \<longleftrightarrow>
     m_running t = m_running s \<and> faulted t = faulted s \<and> next_id t = Suc (next_id s) \<and>
     (\<exists>a. heap t = (heap s)(next_id s := Some a)) \<and>
     handlers t = handlers s @ [(next_id s, Do_accept)] \<and>
     m_acceptor_map t = (m_acceptor_map s)(q := Some (next_id s))"

definition unchanged :: "tcp_forward_server_impl \<Rightarrow> tcp_forward_server_impl \<Rightarrow> bool" where
  "unchanged s t \<longleftrightarrow>
     m_running t = m_running s \<and> faulted t = faulted s \<and> next_id s \<le> next_id t \<and>
     heap t = heap s \<and> handlers t = handlers s \<and> m_acceptor_map t = m_acceptor_map s"

lemma launch_cases:
  assumes "launch answer a s = (r, t)"
    and "\<And>q. answer = Port q \<Longrightarrow> m_acceptor_map s q = None" and "heap s (next_id s) = None"
  shows "(\<exists>q. r = Returns q \<and> q \<noteq> 0 \<and> registers q s t) \<or>
    ((\<forall>q. r = Returns q \<longrightarrow> q = 0) \<and> unchanged s t)"
proof (cases "\<exists>q. answer = Port q \<and> q \<noteq> 0")
  case True
  then obtain q where q: "answer = Port q" "q \<noteq> 0" by blast
  with assms show ?thesis
    by (auto simp: launch_def start_port do_accept_def get_listen_port_def registers_def Let_def)
next
  case False
  have f: "heap (s\<lparr>next_id := Suc (next_id s)\<rparr>) (next_id s) = None" using assms(3) by simp
  have "\<exists>r' b. r' \<noteq> Some True \<and> start answer (next_id s) a (s\<lparr>next_id := Suc (next_id s)\<rparr>) =
      (r', s\<lparr>next_id := Suc (next_id s), heap := (heap s)(next_id s := Some b)\<rparr>)"
    using False start_not_port [of answer "next_id s" a "s\<lparr>next_id := Suc (next_id s)\<rparr>"]
    by (cases "\<exists>q. answer = Port q") (auto simp: start_port)
  then show ?thesis
    using assms(1) destroy_fresh [OF f]
    by (auto simp: launch_def unchanged_def Let_def split: option.splits bool.splits)
qed

lemma acquire_cases:
  assumes "acquire_local_forward_port little inet_addr v4 random answer host port s = (r, t)"
    and "\<And>q. answer = Port q \<Longrightarrow> m_acceptor_map s q = None" and "heap s (next_id s) = None"
  shows "(\<exists>q. r = Returns q \<and> q \<noteq> 0 \<and> registers q s t) \<or>
    ((\<forall>q. r = Returns q \<longrightarrow> q = 0) \<and> unchanged s t)"
  using assms launch_cases [of answer _ "s\<lparr>m_random := _\<rparr>" r t]
  by (auto simp: acquire_local_forward_port_def Let_def registers_def unchanged_def
      split: if_splits option.splits)

section \<open>Which acceptors live\<close>

definition fresh_ids :: "tcp_forward_server_impl \<Rightarrow> bool" where
  "fresh_ids s \<longleftrightarrow> (\<forall>k \<ge> next_id s. heap s k = None)"

lemma fresh_now: "fresh_ids s \<Longrightarrow> heap s (next_id s) = None"
  by (simp add: fresh_ids_def)

text \<open>No handler changes the heap, the map or the counters.\<close>

lemma handler_frame [simp]:
  "heap (accept_handler e k s) = heap s" "next_id (accept_handler e k s) = next_id s"
  "m_acceptor_map (accept_handler e k s) = m_acceptor_map s"
  "m_running (accept_handler e k s) = m_running s"
  "heap (connect_handler e k s) = heap s" "next_id (connect_handler e k s) = next_id s"
  "m_acceptor_map (connect_handler e k s) = m_acceptor_map s"
  "m_running (connect_handler e k s) = m_running s"
  "heap (write_handler e k s) = heap s" "next_id (write_handler e k s) = next_id s"
  "m_acceptor_map (write_handler e k s) = m_acceptor_map s"
  "m_running (write_handler e k s) = m_running s"
  "heap (read_handler b k s) = heap s" "next_id (read_handler b k s) = next_id s"
  "m_acceptor_map (read_handler b k s) = m_acceptor_map s"
  "m_running (read_handler b k s) = m_running s"
  by (simp_all add: accept_handler_def connect_handler_def write_handler_def read_handler_def
      touch_def take_handler_def do_accept_def await_def Let_def split: option.splits)

lemma fresh_ids_step:
  "forward_step little inet_addr v4 random s e t \<Longrightarrow> fresh_ids s \<Longrightarrow> fresh_ids t"
proof (induction rule: forward_step.induct)
  case (f_acquire answer s host port r t)
  then show ?case
    using acquire_cases [OF f_acquire(2) f_acquire(1) fresh_now [OF f_acquire(3)]]
    by (auto simp: fresh_ids_def registers_def unchanged_def)
qed (auto simp: fresh_ids_def release_local_forward_port_def destroy_def exit_def
      release_all_local_forward_ports_def split: option.splits)

interpretation fresh_ids: step_invariant "forward_step little inet_addr v4 random" fresh_ids
  for little inet_addr v4 random
  by unfold_locales (rule fresh_ids_step)

text \<open>As long as no port is released, every outstanding handler has its acceptor.\<close>

definition quiet_step :: "bool \<Rightarrow> (bytes \<Rightarrow> u32) \<Rightarrow> (bytes \<Rightarrow> u32 option) \<Rightarrow> (nat \<Rightarrow> nat) \<Rightarrow>
    tcp_forward_server_impl \<Rightarrow> forward_event \<Rightarrow> tcp_forward_server_impl \<Rightarrow> bool" where
  "quiet_step little inet_addr v4 random s e t \<longleftrightarrow>
     forward_step little inet_addr v4 random s e t \<and> (\<forall>p. e \<noteq> Release p)"

definition owned :: "tcp_forward_server_impl \<Rightarrow> bool" where
  "owned s \<longleftrightarrow>
     fresh_ids s \<and> \<not> faulted s \<and> (m_running s \<longrightarrow> (\<forall>x \<in> set (handlers s). heap s (fst x) \<noteq> None))"

lemma set_remove1_in: "x \<in> set (remove1 y xs) \<Longrightarrow> x \<in> set xs"
  using set_remove1_subset by fast

lemma owned_handler:
  assumes "owned s" "m_running s" "(k, c) \<in> set (handlers s)"
  shows "c = Do_accept \<Longrightarrow> owned (accept_handler e k s)" "c = Do_connect \<Longrightarrow> owned (connect_handler e k s)"
    "c = Do_write \<Longrightarrow> owned (write_handler e k s)" "c = Do_read \<Longrightarrow> owned (read_handler b k s)"
proof -
  obtain a where "heap s k = Some a" using assms by (force simp: owned_def)
  then show "c = Do_accept \<Longrightarrow> owned (accept_handler e k s)"
    "c = Do_connect \<Longrightarrow> owned (connect_handler e k s)"
    "c = Do_write \<Longrightarrow> owned (write_handler e k s)" "c = Do_read \<Longrightarrow> owned (read_handler b k s)"
    using assms
    by (auto simp: owned_def accept_handler_def connect_handler_def write_handler_def
        read_handler_def touch_def take_handler_def do_accept_def await_def fresh_ids_def Let_def
        dest!: set_remove1_in split: if_splits)
qed

lemma owned_step:
  assumes "quiet_step little inet_addr v4 random s e t" "owned s"
  shows "owned t"
proof -
  have st: "forward_step little inet_addr v4 random s e t" and nr: "\<And>p. e \<noteq> Release p"
    using assms(1) by (simp_all add: quiet_step_def)
  have fr: "fresh_ids s" "fresh_ids t" using assms(2) fresh_ids_step [OF st] by (simp_all add: owned_def)
  from st show ?thesis
  proof cases
    case (f_acquire answer host port r)
    then show ?thesis
      using acquire_cases [OF f_acquire(3) f_acquire(2) fresh_now [OF fr(1)]] assms(2) fr
      by (auto simp: owned_def registers_def unchanged_def) (metis fst_conv)+
  next
    case f_exit
    with assms(2) fr show ?thesis
      by (simp add: owned_def exit_def release_all_local_forward_ports_def split: if_splits)
  qed (use nr assms(2) in \<open>simp_all add: owned_handler\<close>)
qed

interpretation owned: step_invariant "quiet_step little inet_addr v4 random" owned
  for little inet_addr v4 random
  by unfold_locales (rule owned_step)

lemma init_forward:
  assumes "init resolve seed host port TcpForwardServerImpl = (True, s)"
  shows "owned s" "m_acceptor_map s = (\<lambda>_. None)" "m_running s"
  using assms
  by (auto simp: init_def exit_def TcpForwardServerImpl_def owned_def fresh_ids_def Let_def
      split: option.splits list.splits)

text \<open>The calls that register and unregister ports, with their results.\<close>

fun registration_of :: "forward_event \<Rightarrow> u16 registration list" where
  "registration_of (Acquire answer host port (Returns q)) = (if q \<noteq> 0 then [Added q] else [])"
| "registration_of (Release q) = [Removed q]"
| "registration_of _ = []"

lemma registered_append: "registered (rs @ rs') k b = registered rs' k (registered rs k b)"
  by (induction rs k b rule: registered.induct) simp_all

lemma registered_step:
  assumes "forward_step little inet_addr v4 random s e t" "fresh_ids s" "e \<noteq> Exit"
  shows "(m_acceptor_map t q \<noteq> None) = registered (registration_of e) q (m_acceptor_map s q \<noteq> None)"
  using assms(1)
proof cases
  case (f_acquire answer host port r)
  then show ?thesis
    using acquire_cases [OF f_acquire(3) f_acquire(2) fresh_now [OF assms(2)]]
    by (cases r) (auto simp: registers_def unchanged_def)
next
  case (f_release p)
  then show ?thesis using ports.has_del [of p s q] by auto
qed (use assms(3) in simp_all)

lemma registered_run:
  "run (forward_step little inet_addr v4 random) s es t \<Longrightarrow> fresh_ids s \<Longrightarrow> Exit \<notin> set es \<Longrightarrow>
     (m_acceptor_map t q \<noteq> None) =
       registered (concat (map registration_of es)) q (m_acceptor_map s q \<noteq> None)"
proof (induction rule: run.induct)
  case (run_Cons s e t es u)
  then have "e \<noteq> Exit" by auto
  with run_Cons show ?case
    using registered_step [OF run_Cons(1), of q] fresh_ids_step [OF run_Cons(1)]
    by (simp add: registered_append del: not_None_eq)
qed simp

section \<open>The random byte and the message\<close>

definition good_draw :: "nat \<Rightarrow> bool" where
  "good_draw n \<longleftrightarrow> (of_nat (n mod 256) :: byte) \<noteq> 0 \<and> (of_nat (n mod 256) :: byte) \<noteq> 67"

lemma pick_xor_found:
  assumes "good_draw (random j)" "i \<le> j"
  shows "\<exists>v k. pick_xor random i = Some (v, k) \<and> v \<noteq> 0 \<and> v \<noteq> 67"
  using assms(2)
proof (induction "j - i" arbitrary: i)
  case 0
  then have "i = j" by simp
  with assms(1) show ?case by (subst pick_xor.simps) (simp add: good_draw_def Let_def)
next
  case (Suc n)
  show ?case
  proof (cases "good_draw (random i)")
    case True
    then show ?thesis by (subst pick_xor.simps) (simp add: good_draw_def Let_def)
  next
    case False
    have "\<exists>v k. pick_xor random (Suc i) = Some (v, k) \<and> v \<noteq> 0 \<and> v \<noteq> 67"
      using Suc by (intro Suc.hyps(1)) simp_all
    with False show ?thesis by (subst pick_xor.simps) (auto simp: good_draw_def Let_def)
  qed
qed

lemma xor_bytes_twice [simp]: "xor_bytes v (xor_bytes v bs) = bs"
  by (simp add: xor_bytes_def o_def xor.assoc)

lemma length_xor_bytes [simp]: "length (xor_bytes v bs) = length bs"
  by (simp add: xor_bytes_def)

text \<open>\<open>ntohl\<close> and \<open>ntohs\<close> read the bytes in memory most significant first.\<close>

lemma ntohl_bytes: "ntohl little x = load32 False (mem32 little x)"
proof -
  have "net_to_host little (mem32 little x) 4 = mem32 little (load32 False (mem32 little x))"
    using net_to_host_mem32 [of little "load32 False (mem32 little x)"] by simp
  then show ?thesis by (simp add: ntohl_def)
qed

lemma ntohs_bytes: "ntohs little x = load16 False (mem16 little x)"
proof -
  have "net_to_host little (mem16 little x) 2 = mem16 little (load16 False (mem16 little x))"
    using net_to_host_mem16 [of little "load16 False (mem16 little x)"] by simp
  then show ?thesis by (simp add: ntohs_def)
qed

lemma ntohs_twice: "ntohs little (htons little p) = p"
proof -
  have r: "load16 True (mem16 False w) = load16 False (mem16 True w)" for w
    by (simp add: load16_def mem16_def)
  show ?thesis
    by (cases little) (simp_all add: htons_def ntohs_bytes r [symmetric])
qed

lemma load_zero:
  "load32 little (mem32 host x) = 0 \<longleftrightarrow> x = 0" "load16 little (mem16 host y) = 0 \<longleftrightarrow> y = 0"
proof -
  have z: "mem32 l 0 = [0, 0, 0, 0]" "mem16 l 0 = [0, 0]" "load32 l [0, 0, 0, 0] = 0" "load16 l [0, 0] = 0"
    for l by (cases l; simp add: mem32_def mem16_def load32_def load16_def)+
  show "load32 little (mem32 host x) = 0 \<longleftrightarrow> x = 0"
    using mem32_load32 [of "mem32 host x" little] load32_mem32 [of host x] z by (metis length_mem(2))
  show "load16 little (mem16 host y) = 0 \<longleftrightarrow> y = 0"
    using mem16_load16 [of "mem16 host y" little] load16_mem16 [of host y] z by (metis length_mem(1))
qed

section \<open>Properties\<close>

text \<open>
  C22: the message to the gateway is well-defined and understood. When the random
  numbers contain a usable byte, \<open>make_forward_message\<close> finds one and builds seven
  bytes that no gateway mistakes for a CONNECT request, and that a gateway on a host of
  either byte order decodes to the address and the port; it refuses exactly a zero
  address or port.
\<close>

theorem forward_message_understood:
  assumes "good_draw (random j)" and "i \<le> j"
  shows "\<exists>message k. make_forward_message little random addr (htons little port) i = Some (message, k) \<and>
    length message = 7 \<and>
    recv_head little' message =
      Some ([if addr = 0 \<or> port = 0 then 0 else 1], addr \<noteq> 0 \<and> port \<noteq> 0,
            (V4 (ntohl little addr), port))"
proof -
  obtain v k where v: "pick_xor random i = Some (v, k)" "v \<noteq> 67"
    using pick_xor_found [of random j i, OF assms] by blast
  let ?body = "mem32 little addr @ mem16 little (htons little port)"
  have z: "htons little port = 0 \<longleftrightarrow> port = 0"
    by (simp add: htons_def ntohs_bytes load_zero)
  have n: "ntohl little' (load32 little' (mem32 little addr)) = ntohl little addr"
    "ntohs little' (load16 little' (mem16 little (htons little port))) = port"
    using ntohs_twice [of little port] by (simp_all add: ntohl_bytes ntohs_bytes)
  have "recv_head little' (v # xor_bytes v ?body) =
      Some ([if addr = 0 \<or> port = 0 then 0 else 1], addr \<noteq> 0 \<and> port \<noteq> 0,
            (V4 (ntohl little addr), port))"
    using v(2) by (simp add: recv_head_def load_zero z n Let_def)
  then show ?thesis using v(1) by (simp add: make_forward_message_def)
qed

theorem forward_message_understood_witness:
  "good_draw 5 \<and>
   (\<exists>message k. make_forward_message True (\<lambda>n. if n = 0 then 256 else 5) 0x0100000A (htons True 80) 0 =
      Some (message, k) \<and>
    recv_head False message = Some ([1], True, (V4 0x0A000001, 80)))"
proof -
  have g: "good_draw 5" by (simp add: good_draw_def)
  have a: "ntohl True 0x0100000A = 0x0A000001" by code_simp
  show ?thesis
    using forward_message_understood [where random = "\<lambda>n. if n = 0 then 256 else 5" and j = 1
        and i = 0 and little = True and addr = "0x0100000A" and port = 80 and little' = False] g
    by (auto simp: a)
qed

text \<open>A server that forwards port 4000, for the instances below.\<close>

definition demo_forward :: tcp_forward_server_impl where
  "demo_forward =
     snd (init (\<lambda>_ _. Some [(V4 1, 8080)]) 0 (ascii ''gateway'') 8080 TcpForwardServerImpl)"

abbreviation demo_forward_step ::
    "tcp_forward_server_impl \<Rightarrow> forward_event \<Rightarrow> tcp_forward_server_impl \<Rightarrow> bool" where
  "demo_forward_step \<equiv>
     forward_step True (\<lambda>_. 0x0100000A) (\<lambda>_. Some 0x0A000001) (\<lambda>_. 5)"

lemma demo_forward_init:
  "init (\<lambda>_ _. Some [(V4 1, 8080)]) 0 (ascii ''gateway'') 8080 TcpForwardServerImpl =
     (True, demo_forward)"
  by (simp add: demo_forward_def init_def Let_def)

lemma demo_acquire:
  "\<exists>t. demo_forward_step demo_forward
     (Acquire (Port 4000) (ascii ''10.0.0.1'') 80 (Returns 4000)) t"
proof -
  have "fst (acquire_local_forward_port True (\<lambda>_. 0x0100000A) (\<lambda>_. Some 0x0A000001) (\<lambda>_. 5)
      (Port 4000) (ascii ''10.0.0.1'') 80 demo_forward) = Returns 4000"
    by code_simp
  then obtain t where "acquire_local_forward_port True (\<lambda>_. 0x0100000A) (\<lambda>_. Some 0x0A000001)
      (\<lambda>_. 5) (Port 4000) (ascii ''10.0.0.1'') 80 demo_forward = (Returns 4000, t)"
    by (metis prod.collapse)
  then have "demo_forward_step demo_forward
      (Acquire (Port 4000) (ascii ''10.0.0.1'') 80 (Returns 4000)) t"
    by (intro f_acquire) (simp_all add: init_forward [OF demo_forward_init])
  then show ?thesis by blast
qed

text \<open>
  C39: a port is registered exactly when the last call about it was an \<open>acquire\<close> that
  returned it, in every run of calls and handlers before \<open>exit\<close>.
\<close>

theorem forward_ports_registered:
  assumes "init resolve seed host port TcpForwardServerImpl = (True, s)"
    and "run (forward_step little inet_addr v4 random) s es t" and "Exit \<notin> set es"
  shows "m_acceptor_map t q \<noteq> None \<longleftrightarrow> registered (concat (map registration_of es)) q False"
  using registered_run [OF assms(2) _ assms(3), of q] init_forward [OF assms(1)]
  by (simp add: owned_def)

theorem forward_ports_registered_witness:
  "\<exists>t. run demo_forward_step demo_forward
       [Acquire (Port 4000) (ascii ''10.0.0.1'') 80 (Returns 4000)] t \<and>
     m_acceptor_map t 4000 \<noteq> None \<and> m_acceptor_map t 80 = None"
proof -
  obtain t where "demo_forward_step demo_forward
      (Acquire (Port 4000) (ascii ''10.0.0.1'') 80 (Returns 4000)) t"
    using demo_acquire by blast
  then have r: "run demo_forward_step demo_forward
      [Acquire (Port 4000) (ascii ''10.0.0.1'') 80 (Returns 4000)] t"
    by (rule run_Cons) (rule run_Nil)
  show ?thesis
    using forward_ports_registered [OF demo_forward_init r, of 4000]
      forward_ports_registered [OF demo_forward_init r, of 80] r by auto
qed

text \<open>
  Without \<open>release_local_forward_port\<close> no handler ever uses a destroyed acceptor,
  not even when the server exits with handlers outstanding.
\<close>

theorem no_fault_without_release:
  assumes "init resolve seed host port TcpForwardServerImpl = (True, s)"
    and "run (quiet_step little inet_addr v4 random) s es t"
  shows "\<not> faulted t"
  using owned.run_inv [OF assms(2) init_forward(1) [OF assms(1)]] by (simp add: owned_def)

theorem no_fault_without_release_witness:
  "\<exists>t. run (quiet_step True (\<lambda>_. 0x0100000A) (\<lambda>_. Some 0x0A000001) (\<lambda>_. 5)) demo_forward
       [Acquire (Port 4000) (ascii ''10.0.0.1'') 80 (Returns 4000)] t \<and> \<not> faulted t"
proof -
  obtain t where "demo_forward_step demo_forward
      (Acquire (Port 4000) (ascii ''10.0.0.1'') 80 (Returns 4000)) t"
    using demo_acquire by blast
  then have "quiet_step True (\<lambda>_. 0x0100000A) (\<lambda>_. Some 0x0A000001) (\<lambda>_. 5) demo_forward
      (Acquire (Port 4000) (ascii ''10.0.0.1'') 80 (Returns 4000)) t"
    by (simp add: quiet_step_def)
  then have r: "run (quiet_step True (\<lambda>_. 0x0100000A) (\<lambda>_. Some 0x0A000001) (\<lambda>_. 5)) demo_forward
      [Acquire (Port 4000) (ascii ''10.0.0.1'') 80 (Returns 4000)] t"
    by (rule run_Cons) (rule run_Nil)
  with no_fault_without_release [OF demo_forward_init r] show ?thesis by blast
qed

text \<open>
  Releasing an acquired port is a use after free. The accept of its acceptor is
  still outstanding when the acceptor is destroyed; the handler that then reports the
  cancellation (or a last connection) reads the destroyed object.
\<close>

theorem released_acceptor_is_used:
  assumes "init resolve seed host port TcpForwardServerImpl = (True, s0)"
    and "run (forward_step little inet_addr v4 random) s0 es s" and "m_running s"
    and "forward_step little inet_addr v4 random s (Acquire answer target target_port (Returns q)) t"
    and "q \<noteq> 0"
  shows "\<exists>k. \<forall>err. \<exists>u. forward_step little inet_addr v4 random
      (release_local_forward_port q t) (Accept_done k err) u \<and> faulted u"
proof -
  have f: "fresh_ids s"
    using fresh_ids.run_inv [OF assms(2)] init_forward(1) [OF assms(1)] by (simp add: owned_def)
  have "registers q s t"
    using assms(4)
  proof cases
    case f_acquire
    then show ?thesis using acquire_cases [OF f_acquire(2,1) fresh_now [OF f]] assms(5) by auto
  qed
  then have r: "m_running t" "(next_id s, Do_accept) \<in> set (handlers t)"
    "m_acceptor_map t q = Some (next_id s)"
    using assms(3) by (simp_all add: registers_def)
  let ?u = "release_local_forward_port q t"
  have u: "m_running ?u" "(next_id s, Do_accept) \<in> set (handlers ?u)" "heap ?u (next_id s) = None"
    using r by (simp_all add: release_local_forward_port_def destroy_def)
  show ?thesis
  proof (rule exI, rule allI, rule exI, rule conjI)
    fix err
    show "forward_step little inet_addr v4 random ?u (Accept_done (next_id s) err)
        (accept_handler err (next_id s) ?u)"
      by (rule f_accept [OF u(1,2)])
    show "faulted (accept_handler err (next_id s) ?u)"
      using u(3) by (simp add: accept_handler_def touch_def take_handler_def Let_def)
  qed
qed

theorem released_acceptor_is_used_witness:
  "\<exists>t k u. demo_forward_step demo_forward
       (Acquire (Port 4000) (ascii ''10.0.0.1'') 80 (Returns 4000)) t \<and>
     demo_forward_step (release_local_forward_port 4000 t) (Accept_done k True) u \<and> faulted u"
proof -
  obtain t where t: "demo_forward_step demo_forward
      (Acquire (Port 4000) (ascii ''10.0.0.1'') 80 (Returns 4000)) t"
    using demo_acquire by blast
  have "m_running demo_forward" by (rule init_forward [OF demo_forward_init])
  then obtain k where "\<forall>err. \<exists>u. demo_forward_step (release_local_forward_port 4000 t)
      (Accept_done k err) u \<and> faulted u"
    using released_acceptor_is_used [OF demo_forward_init run_Nil _ t] by auto
  with t show ?thesis by blast
qed

end
