(* ===== verification/Proxy_Handshake.thy ===== *)
theory Proxy_Handshake
  imports Etcp_Client Tcp_Gateway
begin

text \<open>
  The ETCP client and the gateway together: the request that \<open>EtcpClientImpl::init\<close>
  builds, as the handlers of the gateway read it, and the answers of the gateway, as the
  client reads them.
\<close>

lemma head_end_skip: "13 \<notin> set xs \<Longrightarrow> head_end (xs @ ys) = map_option ((+) (length xs)) (head_end ys)"
  by (cases "head_end ys"; induction xs) auto

lemma to_string_range: "c \<in> set (to_string n) \<Longrightarrow> c \<noteq> 32 \<and> c \<noteq> 13 \<and> c \<noteq> 58"
  using to_string_digits [of c n] by auto

lemma to_string_plain: "32 \<notin> set (to_string n)" "13 \<notin> set (to_string n)" "58 \<notin> set (to_string n)"
  using to_string_range by blast+

text \<open>The request behind the word CONNECT.\<close>

definition request_rest :: "bytes \<Rightarrow> u16 \<Rightarrow> bytes \<Rightarrow> bytes" where
  "request_rest th tp cd =
     32 # th @ 58 # to_string (unat tp) @ 32 # ascii ''HTTP/1.0'' @ [13, 10] @
     (if cd \<noteq> [] then ascii ''user_data:'' @ cd @ [13, 10] else []) @ [13, 10]"

lemma proxy_request_split: "proxy_request th tp cd = ascii ''CONNECT'' @ request_rest th tp cd"
  by (simp add: proxy_request_def request_rest_def)

lemma request_rest_end:
  assumes "13 \<notin> set th" "13 \<notin> set cd"
  shows "head_end (request_rest th tp cd) = Some (length (request_rest th tp cd))"
proof -
  let ?line = "32 # th @ 58 # to_string (unat tp) @ 32 # ascii ''HTTP/1.0''"
  let ?data = "ascii ''user_data:'' @ cd"
  have l: "13 \<notin> set ?line" "13 \<notin> set ?data"
    using assms to_string_plain by auto
  have c: "head_end (13 # 10 # ?data @ [13, 10, 13, 10]) = Some (2 + length ?data + 4)"
    using head_end_skip [OF l(2), of "[13, 10, 13, 10]"] by simp
  show ?thesis
    using head_end_skip [OF l(1), of "13 # 10 # ?data @ [13, 10, 13, 10]"]
      head_end_skip [OF l(1), of "[13, 10, 13, 10]"] c
    by (cases "cd = []") (simp_all add: request_rest_def)
qed

text \<open>What \<open>sscanf\<close> makes of the status lines of the gateway.\<close>

lemma gateway_statuses:
  "scan_status (http_response ''200 Connection Established'') = 200"
  "scan_status (http_response ''400 Bad Request'') = 400"
  "scan_status (http_response ''404 Not Found'') = 404"
  "scan_status (http_response ''502 Bad Gateway'') = 502"
  by code_simp+

section \<open>Properties\<close>

text \<open>
  C18: the gateway understands the client. For a target and connect data without
  carriage returns (and a target without blanks) it recognises the request by its first
  seven bytes, finds its end exactly where the client ended it, and resolves exactly the
  host and the decimal port the client was given; of its four answers the client takes
  the success, and no other, for a connection.
\<close>

theorem client_gateway_handshake:
  assumes "32 \<notin> set th" and "13 \<notin> set th" and "13 \<notin> set cd"
  shows "take 7 (proxy_request th tp cd) = ascii ''CONNECT'' \<and>
    recv_head little (take 7 (proxy_request th tp cd)) = None \<and>
    head_end (drop 7 (proxy_request th tp cd)) = Some (length (drop 7 (proxy_request th tp cd))) \<and>
    recv_body resolve (drop 7 (proxy_request th tp cd)) =
      (case resolve th (to_string (unat tp)) of
         None \<Rightarrow> Some (http_response ''502 Bad Gateway'', False, None)
       | Some es \<Rightarrow>
           if filter is_v4 es = [] then Some (http_response ''404 Not Found'', False, None)
           else Some (http_response ''200 Connection Established'', True, Some (hd (filter is_v4 es)))) \<and>
    (\<forall>r ok e. recv_body resolve (drop 7 (proxy_request th tp cd)) = Some (r, ok, e) \<longrightarrow>
       (scan_status r sdiv 100 = 2 \<longleftrightarrow> ok))"
proof -
  have d: "take 7 (proxy_request th tp cd) = ascii ''CONNECT''"
    "drop 7 (proxy_request th tp cd) = request_rest th tp cd"
    by (simp_all add: proxy_request_split)
  have body: "recv_body resolve (request_rest th tp cd) =
      (case resolve th (to_string (unat tp)) of
         None \<Rightarrow> Some (http_response ''502 Bad Gateway'', False, None)
       | Some es \<Rightarrow>
           if filter is_v4 es = [] then Some (http_response ''404 Not Found'', False, None)
           else Some (http_response ''200 Connection Established'', True, Some (hd (filter is_v4 es))))"
    using parse_target_address [OF assms(1,2) to_string_plain [of "unat tp"], of 32 1]
    by (simp add: request_rest_def recv_body_def first_v4 del: filter_empty_conv cong: option.case_cong)
  have st: "recv_body resolve (request_rest th tp cd) = Some (r, ok, e) \<Longrightarrow>
      scan_status r sdiv 100 = 2 \<longleftrightarrow> ok" for r ok e
    unfolding body by (auto simp: gateway_statuses signed_divide_int_def split: option.splits if_splits)
  show ?thesis
    using request_rest_end [OF assms(2,3)] body st
    unfolding d by (simp add: recv_head_def)
qed

theorem client_gateway_handshake_witness:
  "recv_body (\<lambda>h p. if h = ascii ''db'' \<and> p = ascii ''80'' then Some [(V4 7, 80)] else None)
     (drop 7 (proxy_request (ascii ''db'') 80 [])) =
   Some (http_response ''200 Connection Established'', True, Some (V4 7, 80))"
proof -
  have p: "to_string 80 = ascii ''80''" by code_simp
  show ?thesis
    using client_gateway_handshake [of "ascii ''db''" "[]" 80 True
        "\<lambda>h p. if h = ascii ''db'' \<and> p = ascii ''80'' then Some [(V4 7, 80)] else None"]
    by (simp add: p)
qed

end
