(* ===== verification/End_To_End.thy ===== *)
theory End_To_End
  imports Etcp_Session Etcp_Client Tcp_Relay
begin

text \<open>
  An ETCP client and a session of an ETCP server, joined by TCP connections and any
  number of relays: none when the client dials the server, the relay of the gateway when
  it dials that, and the relay of a forward server before it when the gateway is reached
  through a forwarded port. A TCP connection delivers at any time a prefix of the bytes
  written into it, those of an outstanding write included (\<open>on_wire\<close>, \<open>onward\<close>); what the
  components make of the bytes is the model of each, and they take their steps in any
  order.
\<close>

section \<open>A path of relays\<close>

definition relaying :: "relay \<Rightarrow> bool" where
  "relaying r \<longleftrightarrow>
     (\<exists>es. run relay_step (start TcpGatewaySession) es r) \<or>
     (\<exists>es. run relay_step (forward_start TcpForwardSession) es r)"

text \<open>
  \<open>carried hops w v\<close>: of the bytes \<open>w\<close> written at one end, \<open>v\<close> have been read at the
  other; every hop is a relay with the direction it copies the bytes in.
\<close>

fun carried :: "(bool \<times> relay) list \<Rightarrow> bytes \<Rightarrow> bytes \<Rightarrow> bool" where
  "carried [] w v \<longleftrightarrow> prefix v w"
| "carried ((d, r) # hops) w v \<longleftrightarrow> prefix (got r d) w \<and> carried hops (onward r d) v"

lemma relaying_ok: "relaying r \<Longrightarrow> relay_ok r"
  using relay_ok.run_inv relay_ok_start
  by (fastforce simp: relaying_def forward_start_def TcpForwardSession_def)

lemma relaying_prefix: "relaying r \<Longrightarrow> prefix (onward r d) (got r d) \<and> prefix (sent r d) (onward r d)"
  using relaying_ok onward_prefix by (simp add: relay_ok_def)

lemma carried_prefix:
  "list_all (\<lambda>(d, r). relaying r) hops \<Longrightarrow> carried hops w v \<Longrightarrow> prefix v w"
proof (induction hops w v rule: carried.induct)
  case (2 d r hops w v)
  then show ?case
    using relaying_prefix [of r d] by (fastforce intro: prefix_order.trans)
qed simp

section \<open>Framed packets over a path\<close>

lemma carried_packets:
  assumes "list_all (\<lambda>(d, r). relaying r) hops" and "carried hops w v"
    and "prefix w (framed little ps)" and "list_all sendable ps"
  shows "\<exists>k. fst (deframe little' v) = take k ps \<and> snd (deframe little' v) \<noteq> Bad_sign"
  using deframe_prefix [OF assms(4), of v little little'] carried_prefix [OF assms(1,2)] assms(3)
  by (metis framed_def prefix_order.trans)

lemma framed_complete: "list_all sendable ps \<Longrightarrow> deframe little (framed little' ps) = (ps, Need_more [])"
  using deframe_frames [of ps little little' "[]"] by (simp add: framed_def)

lemma session_received:
  "session_run little True es s \<Longrightarrow>
     Etcp_Session.received s = fst (deframe little (etcp_session.rx s))"
  using session.received_packets [OF session_run_endpoint]
  by (simp add: Etcp_Session.rcv_of_def)

lemma session_sent:
  "session_run little True es s \<Longrightarrow>
     prefix (on_wire (Etcp_Session.snd_of s)) (framed little (etcp_session.queued s))"
  using session.on_wire_is_prefix [OF session_run_endpoint] by (simp add: Etcp_Session.snd_of_def)

text \<open>The bytes of a client, behind its request to the proxy.\<close>

lemma client_sent:
  assumes "Etcp_Client.init valid True th tp gh gp cd EtcpClientImpl = (Some True, c)"
    and "run (orderly_step little) c es t"
  shows "prefix (on_wire (Etcp_Client.snd_of t)) (framed little (etcp_client.queued t))"
  using client.on_wire_is_prefix [OF init_endpoint [OF assms]] by (simp add: Etcp_Client.snd_of_def)

lemma client_received:
  assumes "Etcp_Client.init valid True th tp gh gp cd EtcpClientImpl = (Some True, c)"
    and "run (orderly_step little) c es t"
  shows "Etcp_Client.received t = fst (deframe little (etcp_client.rx t 1))"
  using client.received_packets [OF init_endpoint [OF assms]] by (simp add: Etcp_Client.rcv_of_def)

section \<open>Progress over a path\<close>

text \<open>The same relays after further steps.\<close>

definition advanced :: "(bool \<times> relay) list \<Rightarrow> (bool \<times> relay) list \<Rightarrow> bool" where
  "advanced = list_all2 (\<lambda>(d, r) (d', r'). d' = d \<and> (\<exists>es. run relay_step r es r'))"

text \<open>Whatever extends the bytes written at one end can be carried to the other.\<close>

lemma carried_extend:
  assumes "list_all (\<lambda>(d, r). relaying r \<and> relay_live d r) hops" "carried hops w v" "prefix w w'"
  shows "\<exists>hops'. advanced hops hops' \<and> (\<forall>v'. prefix v' w' \<longrightarrow> carried hops' w' v')"
  using assms
proof (induction hops w v arbitrary: w' rule: carried.induct)
  case (1 w v)
  then show ?case by (intro exI [of _ "[]"]) (simp add: advanced_def)
next
  case (2 d r hops w v)
  then have r: "relaying r" "relay_live d r" "prefix (got r d) w'" "carried hops (onward r d) v"
    by (auto intro: prefix_order.trans)
  then obtain bs where bs: "w' = got r d @ bs" by (auto simp: prefix_def)
  from relay_forwards [OF relaying_ok [OF r(1)] r(2), of bs] obtain es r' where r':
    "run relay_step r es r'" "got r' d = w'" "sent r' d = w'"
    by (auto simp: bs)
  have "prefix (sent r' d) (onward r' d) \<and> prefix (onward r' d) (got r' d)"
    using relay_ok.run_inv [OF r'(1) relaying_ok [OF r(1)]] onward_prefix by (simp add: relay_ok_def)
  with r' have o: "onward r' d = w'" using prefix_order.antisym by auto
  have "prefix (onward r d) w'"
    using relaying_prefix [OF r(1)] r(3) by (blast intro: prefix_order.trans)
  with 2 r(4) obtain hops' where "advanced hops hops'" "\<forall>v'. prefix v' w' \<longrightarrow> carried hops' w' v'"
    by (auto dest!: meta_spec [of _ w'])
  with r' o show ?case
    by (intro exI [of _ "(d, r') # hops'"]) (auto simp: advanced_def)
qed

lemma list_all_live:
  "list_all (\<lambda>(d, r). relaying r \<and> relay_live d r) hops \<Longrightarrow> list_all (\<lambda>(d, r). relaying r) hops"
  by (induction hops) auto

lemma path_completes:
  assumes "list_all (\<lambda>(d, r). relaying r \<and> relay_live d r) hops" "carried hops w v"
    and "prefix w (framed little ps)" "list_all sendable ps"
  shows "\<exists>hops' bs. advanced hops hops' \<and> framed little ps = v @ bs \<and>
    carried hops' (framed little ps) (v @ bs) \<and> deframe little' (v @ bs) = (ps, Need_more [])"
proof -
  have "prefix v (framed little ps)"
    using carried_prefix [OF list_all_live [OF assms(1)] assms(2)] assms(3) by (rule prefix_order.trans)
  then obtain bs where "framed little ps = v @ bs" by (auto simp: prefix_def)
  with carried_extend [OF assms(1-3)] framed_complete [OF assms(4), of little' little] show ?thesis
    by (metis prefix_order.order_refl)
qed

section \<open>Demonstration\<close>

text \<open>A client behind a forward server and a gateway, and a server of the other byte order.\<close>

definition demo_hop :: "relay_event list" where
  "demo_hop = [Recv_ok True (frame True [1, 2, 3]), Send_ok True 9, Recv_ok False (frame False [7, 8]),
     Send_ok False 8]"

definition demo_server_side :: "session_event list" where
  "demo_server_side =
     [session_event.Start ([49], 1) ([50], 2), session_event.Head_ok (packet_head True 3),
      session_event.Body_ok [1, 2, 3], session_event.Call_send [7, 8], session_event.Run_task,
      session_event.Write_ok (packet_head False 2), session_event.Write_ok [7, 8]]"

lemma onward_written: "relaying r \<Longrightarrow> sent r d = w \<Longrightarrow> got r d = w \<Longrightarrow> onward r d = w"
  using relaying_prefix [of r d] by (auto intro: prefix_order.antisym)

lemma demo_path:
  "\<exists>r. relaying r \<and> got r True = frame True [1, 2, 3] \<and> onward r True = frame True [1, 2, 3] \<and>
     got r False = frame False [7, 8] \<and> onward r False = frame False [7, 8]"
proof -
  have b: "frame True [1, 2, 3] = [69, 84, 0, 0, 0, 3, 1, 2, 3]" "frame False [7, 8] = [69, 84, 0, 0, 0, 2, 7, 8]"
    by code_simp+
  have "\<exists>r. run relay_step (start TcpGatewaySession) demo_hop r \<and>
      (got r True = frame True [1, 2, 3] \<and> sent r True = frame True [1, 2, 3] \<and>
       got r False = frame False [7, 8] \<and> sent r False = frame False [7, 8])"
    unfolding demo_hop_def b
    by (rule relay_exec.exec_ex)
      (simp add: relay_next_def recv_ok_def send_ok_def do_recv_def start_def TcpGatewaySession_def
        recv_buffer_def set_recv_buffer_def buffer_size_def)
  then obtain r where "relaying r" "got r True = frame True [1, 2, 3]" "sent r True = frame True [1, 2, 3]"
    "got r False = frame False [7, 8]" "sent r False = frame False [7, 8]"
    by (auto simp: relaying_def)
  then show ?thesis using onward_written by blast
qed

lemma demo_client_side:
  "\<exists>t. run (orderly_step True) demo_proxied demo_client t \<and>
     (etcp_client.queued t = [[1, 2, 3]] \<and> Etcp_Client.received t = [[7, 8]] \<and>
      on_wire (Etcp_Client.snd_of t) = frame True [1, 2, 3] \<and>
      etcp_client.rx t 1 = frame False [7, 8])"
  by (rule orderly_exec.exec_ex) code_simp

lemma demo_session_side:
  "\<exists>s. session_run False True demo_server_side s \<and>
     (Etcp_Session.received s = [[1, 2, 3]] \<and> etcp_session.rx s = frame True [1, 2, 3] \<and>
      etcp_session.queued s = [[7, 8]] \<and> on_wire (Etcp_Session.snd_of s) = frame False [7, 8])"
  by (rule session_exec.exec_ex) code_simp

text \<open>The same client, relay and session before the packets have been carried.\<close>

definition waiting_client :: "client_event list" where
  "waiting_client =
     [Call_connect, Run_task, Connect_ok 1, Request_ok 1,
      Response_ok 1 (ascii ''HTTP/1.0 200 OK'' @ [13, 10, 13, 10]),
      Call_send [1, 2, 3], Run_task, Write_ok 1 (packet_head True 3)]"

lemma waiting_client:
  "\<exists>t. run (orderly_step True) demo_proxied waiting_client t \<and>
     (client_live t \<and> etcp_client.queued t = [[1, 2, 3]] \<and> etcp_client.reads t \<noteq> [] \<and>
      on_wire (Etcp_Client.snd_of t) = packet_head True 3 @ [1, 2, 3] \<and>
      etcp_client.rx t 1 = [])"
  by (rule orderly_exec.exec_ex) code_simp

definition waiting_session :: "session_event list" where
  "waiting_session =
     [session_event.Start ([49], 1) ([50], 2), session_event.Call_send [7, 8], session_event.Run_task,
      session_event.Write_ok (packet_head False 2)]"

lemma waiting_session:
  "\<exists>s. session_run False True waiting_session s \<and>
     (session_live s \<and> etcp_session.queued s = [[7, 8]] \<and> etcp_session.reads s = [Read_head] \<and>
      on_wire (Etcp_Session.snd_of s) = packet_head False 2 @ [7, 8] \<and> etcp_session.rx s = [])"
  by (rule session_exec.exec_ex) code_simp

lemma waiting_path:
  "\<exists>r. relaying r \<and> relay_live d r \<and> got r d = [69, 84] \<and> sent r d = []"
proof -
  have "\<exists>r. run relay_step (start TcpGatewaySession) [Recv_ok d [69, 84]] r \<and>
      (relay_live d r \<and> got r d = [69, 84] \<and> sent r d = [])"
    by (rule relay_exec.exec_ex)
      (cases d; simp add: relay_next_def recv_ok_def do_recv_def start_def TcpGatewaySession_def
        recv_buffer_def set_recv_buffer_def buffer_size_def relay_live_def ops_def)
  then show ?thesis by (auto simp: relaying_def)
qed

section \<open>Properties\<close>









end
