(* ===== verification/Consumer.thy ===== *)
theory Consumer
  imports Prelude "HOL-Library.Sublist"
begin

text \<open>
  The loop that five threads of the library share (\<open>handle_data\<close> of
  src/multicast_helper/multicast_helper_impl.cpp, the event and the callback threads of
  src/enet_client/enet_client_impl.cpp and src/websocket_client/websocket_client_impl.h):
  a thread waits on a condition variable for a list to fill, swaps the list out under the
  mutex and handles its elements one by one while \<open>m_running\<close> holds. Producers append
  under the mutex and notify; the owner lowers \<open>m_running\<close> without the mutex,
  notifies, and joins.
\<close>

section \<open>State\<close>

text \<open>
  Where the thread is: before the outer test, asking for the mutex, before the inner
  test, decided to wait with the mutex still held, waiting, asking for the mutex again,
  before the test of the \<open>for\<close> loop, handling an element, or returned.
\<close>

datatype 'a place =
    Outer
  | Enter
  | Test
  | Doze
  | Asleep
  | Woken
  | Each "'a list"
  | Busy 'a "'a list"
  | Returned

record 'a consumer =
  running :: bool
  items :: "'a list"
  place :: "'a place"
  wakeups :: nat
  puts :: "'a list"
  handled :: "'a list"

definition launch_consumer :: "'a consumer" where
  "launch_consumer =
     \<lparr>running = True, items = [], place = Outer, wakeups = 0, puts = [], handled = []\<rparr>"

section \<open>Operations\<close>

definition mutex_free :: "'a consumer \<Rightarrow> bool" where
  "mutex_free s \<longleftrightarrow> (case place s of Test \<Rightarrow> False | Doze \<Rightarrow> False | _ \<Rightarrow> True)"

definition consumer_next :: "'a consumer \<Rightarrow> 'a consumer option" where
  "consumer_next s =
     (case place s of
        Outer \<Rightarrow> Some (s\<lparr>place := if running s then Enter else Returned\<rparr>)
      | Enter \<Rightarrow> Some (s\<lparr>place := Test\<rparr>)
      | Test \<Rightarrow>
          Some (if running s \<and> items s = [] then s\<lparr>place := Doze\<rparr>
                else s\<lparr>place := Each (items s), items := []\<rparr>)
      | Doze \<Rightarrow> Some (s\<lparr>place := Asleep\<rparr>)
      | Asleep \<Rightarrow> None
      | Woken \<Rightarrow> Some (s\<lparr>place := Test\<rparr>)
      | Each xs \<Rightarrow>
          Some (case xs of
                  [] \<Rightarrow> s\<lparr>place := Outer\<rparr>
                | x # xs \<Rightarrow>
                    if running s then s\<lparr>place := Busy x xs, handled := handled s @ [x]\<rparr>
                    else s\<lparr>place := Outer\<rparr>)
      | Busy x xs \<Rightarrow> Some (s\<lparr>place := Each xs\<rparr>)
      | Returned \<Rightarrow> None)"

text \<open>A producer: the push under the mutex; its \<open>notify_one\<close> is a step of its own.\<close>

definition put :: "'a \<Rightarrow> 'a consumer \<Rightarrow> 'a consumer" where
  "put x s = s\<lparr>items := items s @ [x], wakeups := Suc (wakeups s), puts := puts s @ [x]\<rparr>"

definition rouse :: "'a consumer \<Rightarrow> 'a consumer" where
  "rouse s = (case place s of Asleep \<Rightarrow> s\<lparr>place := Woken\<rparr> | _ \<Rightarrow> s)"

definition notify_one :: "'a consumer \<Rightarrow> 'a consumer" where
  "notify_one s = rouse (s\<lparr>wakeups := wakeups s - 1\<rparr>)"

text \<open>The owner: the flag, without the mutex, then a notification, then the join.\<close>

definition stop_consumer :: "'a consumer \<Rightarrow> 'a consumer" where
  "stop_consumer s = s\<lparr>running := False\<rparr>"

definition joinable_now :: "'a consumer \<Rightarrow> bool" where
  "joinable_now s \<longleftrightarrow> (case place s of Returned \<Rightarrow> True | _ \<Rightarrow> False)"

section \<open>Steps\<close>

datatype 'a consumer_event =
    Thread
  | Put 'a
  | Notify
  | Stop
  | Last_notify
  | Spurious

inductive consumer_step :: "'a consumer \<Rightarrow> 'a consumer_event \<Rightarrow> 'a consumer \<Rightarrow> bool" where
  c_thread: "consumer_next s = Some t \<Longrightarrow> consumer_step s Thread t"
| c_put: "mutex_free s \<Longrightarrow> consumer_step s (Put x) (put x s)"
| c_notify: "0 < wakeups s \<Longrightarrow> consumer_step s Notify (notify_one s)"
| c_stop: "running s \<Longrightarrow> consumer_step s Stop (stop_consumer s)"
| c_last_notify: "\<not> running s \<Longrightarrow> consumer_step s Last_notify (rouse s)"
| c_spurious: "consumer_step s Spurious (rouse s)"

definition consumer_after :: "'a consumer_event \<Rightarrow> 'a consumer \<Rightarrow> 'a consumer option" where
  "consumer_after e s =
     (case e of
        Thread \<Rightarrow> consumer_next s
      | Put x \<Rightarrow> if mutex_free s then Some (put x s) else None
      | Notify \<Rightarrow> if 0 < wakeups s then Some (notify_one s) else None
      | Stop \<Rightarrow> if running s then Some (stop_consumer s) else None
      | Last_notify \<Rightarrow> if \<not> running s then Some (rouse s) else None
      | Spurious \<Rightarrow> Some (rouse s))"

inductive_simps consumer_step_simps:
  "consumer_step s Thread t"
  "consumer_step s (Put x) t"
  "consumer_step s Notify t"
  "consumer_step s Stop t"
  "consumer_step s Last_notify t"
  "consumer_step s Spurious t"

lemma consumer_step_iff: "consumer_step s e t \<longleftrightarrow> consumer_after e s = Some t"
  by (cases e) (auto simp: consumer_step_simps consumer_after_def)

interpretation consumer_exec: executable_steps consumer_step consumer_after
  by unfold_locales (rule consumer_step_iff)

text \<open>The steps of the thread, by the place it is at.\<close>

lemma consumer_next_cases:
  assumes "consumer_next s = Some t"
  obtains
    (outer) "place s = Outer" "t = s\<lparr>place := if running s then Enter else Returned\<rparr>"
  | (lock) "place s = Enter \<or> place s = Woken" "t = s\<lparr>place := Test\<rparr>"
  | (doze) "place s = Test" "running s" "items s = []" "t = s\<lparr>place := Doze\<rparr>"
  | (swap) "place s = Test" "\<not> running s \<or> items s \<noteq> []"
      "t = s\<lparr>place := Each (items s), items := []\<rparr>"
  | (sleep) "place s = Doze" "t = s\<lparr>place := Asleep\<rparr>"
  | (batch_end) "place s = Each []" "t = s\<lparr>place := Outer\<rparr>"
  | (abandon) x xs where "place s = Each (x # xs)" "\<not> running s" "t = s\<lparr>place := Outer\<rparr>"
  | (handle) x xs where "place s = Each (x # xs)" "running s"
      "t = s\<lparr>place := Busy x xs, handled := handled s @ [x]\<rparr>"
  | (handled) x xs where "place s = Busy x xs" "t = s\<lparr>place := Each xs\<rparr>"
  using assms
  by (auto simp: consumer_next_def split: place.splits list.splits if_split_asm)

lemma rouse_fields [simp]:
  "running (rouse s) = running s" "items (rouse s) = items s" "wakeups (rouse s) = wakeups s"
  "puts (rouse s) = puts s" "handled (rouse s) = handled s"
  "place (rouse s) = (case place s of Asleep \<Rightarrow> Woken | p \<Rightarrow> p)"
  by (auto simp: rouse_def split: place.splits)

lemma rouse_place_cases: "place s = Asleep \<and> place (rouse s) = Woken \<or> place (rouse s) = place s"
  by (cases "place s") simp_all

section \<open>A queue: elements are handled in order, once\<close>

fun batch_rest :: "'a place \<Rightarrow> 'a list" where
  "batch_rest (Each xs) = xs"
| "batch_rest (Busy x xs) = xs"
| "batch_rest _ = []"

definition queue_ok :: "'a consumer \<Rightarrow> bool" where
  "queue_ok s \<longleftrightarrow> prefix (handled s) (puts s) \<and>
     (running s \<longrightarrow> puts s = handled s @ batch_rest (place s) @ items s)"

lemma batch_rest_rouse: "batch_rest (case p of Asleep \<Rightarrow> Woken | q \<Rightarrow> q) = batch_rest p"
  by (cases p) simp_all

lemma queue_ok_thread:
  assumes "consumer_next s = Some t" "queue_ok s"
  shows "queue_ok t"
  using assms(1)
  by (cases rule: consumer_next_cases) (use assms(2) in \<open>auto simp: queue_ok_def\<close>)

lemma queue_ok_step: "consumer_step s e t \<Longrightarrow> queue_ok s \<Longrightarrow> queue_ok t"
  by (erule consumer_step.cases)
    (simp_all add: queue_ok_thread,
      auto simp: queue_ok_def put_def notify_one_def stop_consumer_def batch_rest_rouse)

interpretation queue_ok: step_invariant consumer_step queue_ok
  by unfold_locales (rule queue_ok_step)

lemma queue_ok_init: "queue_ok launch_consumer"
  by (simp add: queue_ok_def launch_consumer_def)

section \<open>Elements are not forgotten\<close>

definition awake_ok :: "'a consumer \<Rightarrow> bool" where
  "awake_ok s \<longleftrightarrow> (place s = Doze \<longrightarrow> running s \<longrightarrow> items s = []) \<and>
     (items s \<noteq> [] \<and> running s \<and> place s = Asleep \<longrightarrow> 0 < wakeups s) \<and>
     (place s = Returned \<longrightarrow> \<not> running s)"

lemma awake_ok_thread:
  assumes "consumer_next s = Some t" "awake_ok s"
  shows "awake_ok t"
  using assms(1)
  by (cases rule: consumer_next_cases) (use assms(2) in \<open>auto simp: awake_ok_def\<close>)

lemma awake_ok_step: "consumer_step s e t \<Longrightarrow> awake_ok s \<Longrightarrow> awake_ok t"
  by (erule consumer_step.cases)
    (simp_all add: awake_ok_thread,
      auto simp: awake_ok_def put_def notify_one_def stop_consumer_def mutex_free_def
        split: place.splits)

interpretation awake_ok: step_invariant consumer_step awake_ok
  by unfold_locales (rule awake_ok_step)

lemma awake_ok_init: "awake_ok launch_consumer"
  by (simp add: awake_ok_def launch_consumer_def)

text \<open>The two invariants together, operation by operation.\<close>

definition consumer_ok :: "'a consumer \<Rightarrow> bool" where
  "consumer_ok c \<longleftrightarrow> queue_ok c \<and> awake_ok c"

lemma consumer_ok_step: "consumer_step c e d \<Longrightarrow> consumer_ok c \<Longrightarrow> consumer_ok d"
  by (auto simp: consumer_ok_def intro: queue_ok_step awake_ok_step)

lemma consumer_ok_put: "consumer_ok c \<Longrightarrow> mutex_free c \<Longrightarrow> consumer_ok (put x c)"
  by (rule consumer_ok_step [OF c_put])

lemma consumer_ok_rouse: "consumer_ok c \<Longrightarrow> consumer_ok (rouse c)"
  by (rule consumer_ok_step [OF c_spurious])

lemma consumer_ok_notify: "consumer_ok c \<Longrightarrow> 0 < wakeups c \<Longrightarrow> consumer_ok (notify_one c)"
  by (rule consumer_ok_step [OF c_notify])

lemma consumer_ok_thread: "consumer_ok c \<Longrightarrow> consumer_next c = Some d \<Longrightarrow> consumer_ok d"
  by (rule consumer_ok_step [OF c_thread])

lemma consumer_ok_stop: "consumer_ok c \<Longrightarrow> consumer_ok (c\<lparr>running := False\<rparr>)"
  by (simp add: consumer_ok_def queue_ok_def awake_ok_def)

lemma consumer_ok_clear: "consumer_ok c \<Longrightarrow> joinable_now c \<Longrightarrow> consumer_ok (c\<lparr>items := []\<rparr>)"
  by (cases "place c") (simp_all add: consumer_ok_def queue_ok_def awake_ok_def joinable_now_def)

lemma joinable_rouse [simp]: "joinable_now (rouse c) = joinable_now c"
  by (cases "place c") (simp_all add: joinable_now_def)

lemma joinable_put [simp]: "joinable_now (put x c) = joinable_now c"
  by (simp add: joinable_now_def put_def)

lemma joinable_notify [simp]: "joinable_now (notify_one c) = joinable_now c"
  by (simp add: notify_one_def) (simp add: joinable_now_def)

lemma joinable_update [simp]:
  "joinable_now (c\<lparr>running := b\<rparr>) = joinable_now c" "joinable_now (c\<lparr>items := xs\<rparr>) = joinable_now c"
  by (simp_all add: joinable_now_def)

lemma joinable_thread: "consumer_next c = Some d \<Longrightarrow> \<not> joinable_now c"
  by (erule consumer_next_cases) (auto simp: joinable_now_def)

text \<open>What happens to a consumer while its owner stays: everything but the flag.\<close>

definition consumer_change :: "'a consumer \<Rightarrow> 'a consumer \<Rightarrow> bool" where
  "consumer_change c d \<longleftrightarrow>
     d = c \<or> (mutex_free c \<and> (\<exists>x. d = put x c)) \<or> consumer_next c = Some d \<or>
     (0 < wakeups c \<and> d = notify_one c)"

lemma consumer_change_intros:
  "consumer_change c c" "mutex_free c \<Longrightarrow> consumer_change c (put x c)"
  "consumer_next c = Some d \<Longrightarrow> consumer_change c d"
  "0 < wakeups c \<Longrightarrow> consumer_change c (notify_one c)"
  by (auto simp: consumer_change_def)

lemma consumer_change_ok:
  assumes "consumer_change c d"
  shows "consumer_ok c \<Longrightarrow> consumer_ok d" "running d = running c"
    "joinable_now c \<Longrightarrow> joinable_now d"
proof -
  show "consumer_ok c \<Longrightarrow> consumer_ok d"
    using assms by (auto simp: consumer_change_def consumer_ok_put consumer_ok_thread consumer_ok_notify)
  show "running d = running c"
    using assms
    by (auto simp: consumer_change_def put_def notify_one_def elim: consumer_next_cases)
  show "joinable_now c \<Longrightarrow> joinable_now d"
    using assms by (auto simp: consumer_change_def dest: joinable_thread)
qed

section \<open>The end of the thread\<close>

text \<open>
  After the flag the thread takes at most five more steps, whatever it is doing, unless
  it is asleep or about to be.
\<close>

fun steps_left :: "'a place \<Rightarrow> nat" where
  "steps_left Enter = 4"
| "steps_left Woken = 4"
| "steps_left Test = 3"
| "steps_left (Busy x xs) = 3"
| "steps_left (Each xs) = 2"
| "steps_left Outer = 1"
| "steps_left _ = 0"

lemma thread_winds_down:
  assumes "consumer_next s = Some t" "\<not> running s" "place s \<noteq> Doze"
  shows "\<not> running t \<and> place t \<noteq> Doze \<and> place t \<noteq> Asleep \<and>
    Suc (steps_left (place t)) = steps_left (place s) \<and> handled t = handled s"
  using assms(1) by (cases rule: consumer_next_cases) (use assms(2,3) in auto)

lemma consumer_returns:
  assumes "\<not> running s" "place s \<noteq> Doze" "place s \<noteq> Asleep"
  shows "\<exists>t. run consumer_step s (replicate (steps_left (place s)) Thread) t \<and>
    place t = Returned \<and> handled t = handled s"
  using assms
proof (induction "steps_left (place s)" arbitrary: s)
  case 0
  then have "place s = Returned" by (cases "place s") simp_all
  then show ?case by (auto intro: run_Nil)
next
  case (Suc n)
  then obtain t where t: "consumer_next s = Some t"
    by (cases "place s") (auto simp: consumer_next_def)
  from thread_winds_down [OF t] Suc.prems have d: "\<not> running t" "place t \<noteq> Doze" "place t \<noteq> Asleep"
    "Suc (steps_left (place t)) = steps_left (place s)" "handled t = handled s" by auto
  with Suc.hyps have "n = steps_left (place t)" by simp
  from Suc.hyps(1) [OF this d(1-3)] obtain u
    where u: "run consumer_step t (replicate n Thread) u" "place u = Returned" "handled u = handled t"
    using \<open>n = steps_left (place t)\<close> by auto
  have "run consumer_step s (replicate (Suc n) Thread) u"
    using run_Cons [OF c_thread [OF t] u(1)] by simp
  with u d(5) Suc.hyps(2) show ?case by auto
qed

text \<open>Asleep for good: only a notification or a spurious wakeup ends the sleep.\<close>

definition quiet :: "'a consumer_event \<Rightarrow> bool" where
  "quiet e \<longleftrightarrow> (case e of Notify \<Rightarrow> False | Last_notify \<Rightarrow> False | Spurious \<Rightarrow> False | _ \<Rightarrow> True)"

lemma asleep_step:
  assumes "consumer_step s e t" "quiet e" "place s = Asleep"
  shows "place t = Asleep"
  using assms by cases (auto simp: quiet_def consumer_next_def put_def stop_consumer_def)

lemma run_asleep: "run consumer_step s es t \<Longrightarrow> list_all quiet es \<Longrightarrow> place s = Asleep \<Longrightarrow> place t = Asleep"
  by (induction rule: run.induct) (auto intro: asleep_step)

text \<open>The interleaving in which flag and notification fall between test and wait.\<close>

definition lost_wakeup :: "'a consumer_event list" where
  "lost_wakeup = [Thread, Thread, Thread, Stop, Last_notify, Thread]"

lemma lost_wakeup_run:
  "\<exists>s. run consumer_step launch_consumer lost_wakeup s \<and> place s = Asleep \<and> \<not> running s"
  by (rule consumer_exec.exec_ex)
    (simp add: lost_wakeup_def consumer_after_def consumer_next_def launch_consumer_def
      stop_consumer_def rouse_def)

section \<open>A running consumer comes to rest\<close>

text \<open>What the thread and the notifications to come have to do, without further producers.\<close>

fun place_load :: "'a place \<Rightarrow> nat" where
  "place_load (Busy x xs) = 6 + 2 * length xs"
| "place_load (Each xs) = 5 + 2 * length xs"
| "place_load Outer = 4"
| "place_load Enter = 3"
| "place_load Woken = 3"
| "place_load Test = 2"
| "place_load Doze = 1"
| "place_load Asleep = 0"
| "place_load Returned = 0"

definition load :: "'a consumer \<Rightarrow> nat" where
  "load s = place_load (place s) + 6 * length (items s) + 4 * wakeups s"

definition own_step :: "'a consumer_event \<Rightarrow> bool" where
  "own_step e \<longleftrightarrow> (case e of Thread \<Rightarrow> True | Notify \<Rightarrow> True | _ \<Rightarrow> False)"

lemma thread_lightens:
  assumes "consumer_next s = Some t" "running s"
  shows "load t < load s \<and> running t \<and> puts t = puts s"
  using assms(1)
  by (cases rule: consumer_next_cases) (use assms(2) in \<open>auto simp: load_def neq_Nil_conv\<close>)

lemma own_step_lightens:
  assumes "consumer_step s e t" "own_step e" "running s"
  shows "load t < load s \<and> running t \<and> puts t = puts s"
  using assms(1)
proof cases
  case c_notify
  then show ?thesis
    using assms(3) rouse_place_cases [of s] by (auto simp: notify_one_def load_def split: place.splits)
qed (use assms(2,3) thread_lightens in \<open>auto simp: own_step_def\<close>)

lemma run_lightens:
  "run consumer_step s fs t \<Longrightarrow> list_all own_step fs \<Longrightarrow> running s \<Longrightarrow>
     length fs + load t \<le> load s \<and> running t \<and> puts t = puts s"
proof (induction rule: run.induct)
  case (run_Cons s e t es u)
  then have "load t < load s \<and> running t \<and> puts t = puts s"
    using own_step_lightens [OF run_Cons.hyps(1)] by simp
  with run_Cons.IH run_Cons.prems(1) show ?case by auto
qed simp

lemma consumer_rest:
  assumes "queue_ok s" "awake_ok s" "running s" "\<forall>e t. own_step e \<longrightarrow> \<not> consumer_step s e t"
  shows "items s = [] \<and> handled s = puts s"
proof -
  have "consumer_next s = None"
  proof (cases "consumer_next s")
    case (Some t)
    then have "consumer_step s Thread t" by (rule c_thread)
    with assms(4) show ?thesis by (force simp: own_step_def)
  qed
  then have "place s = Asleep"
    using assms(2,3) by (cases "place s") (auto simp: consumer_next_def awake_ok_def)
  moreover have "wakeups s = 0"
  proof (rule ccontr)
    assume "wakeups s \<noteq> 0"
    then have "consumer_step s Notify (notify_one s)" by (intro c_notify) simp
    with assms(4) show False by (force simp: own_step_def)
  qed
  ultimately show ?thesis using assms(1-3) by (simp add: queue_ok_def awake_ok_def)
qed

lemma load_le: "load s \<le> 6 + 6 * length (batch_rest (place s) @ items s) + 4 * wakeups s"
  by (cases "place s") (simp_all add: load_def)

text \<open>The same for a consumer inside a larger state.\<close>

lemma put_load: "load (put x c) = load c + 10"
  by (simp add: load_def put_def)

lemma notify_lightens: "0 < wakeups c \<Longrightarrow> running c \<Longrightarrow> load (notify_one c) < load c"
  using own_step_lightens [OF c_notify, of c] by (simp add: own_step_def)

lemma monitor_rest:
  assumes "consumer_ok c" "running c" "consumer_next c = None" "wakeups c = 0"
  shows "place c = Asleep \<and> items c = [] \<and> handled c = puts c"
proof -
  have "place c = Asleep"
    using assms by (cases "place c") (auto simp: consumer_next_def consumer_ok_def awake_ok_def)
  with assms show ?thesis by (auto simp: consumer_ok_def awake_ok_def queue_ok_def)
qed

section \<open>Properties\<close>

text \<open>
  C32: what an owner that lowers \<open>m_running\<close> can rely on. From every reachable state the
  thread then returns within four steps of its own, handling nothing more, unless it is
  waiting or has decided to wait; once it waits, only a notification or a spurious wakeup
  ends the wait. The decision can fall between the flag and the owner's notification,
  since the owner does not take the mutex: the wakeup is lost and the join hangs.
\<close>

theorem consumer_returns_or_sleeps:
  assumes "run consumer_step launch_consumer es s" and "\<not> running s"
  shows "(place s \<noteq> Doze \<and> place s \<noteq> Asleep \<longrightarrow>
       (\<exists>k t. k \<le> 4 \<and> run consumer_step s (replicate k Thread) t \<and> place t = Returned \<and>
          handled t = handled s)) \<and>
    (place s = Asleep \<longrightarrow>
       (\<forall>fs t. run consumer_step s fs t \<and> list_all quiet fs \<longrightarrow> place t \<noteq> Returned)) \<and>
    prefix (handled s) (puts s)"
proof -
  have "steps_left (place s) \<le> 4" by (cases "place s") simp_all
  with consumer_returns [OF assms(2)] run_asleep [of s] queue_ok.run_inv [OF assms(1) queue_ok_init]
  show ?thesis by (fastforce simp: queue_ok_def)
qed

theorem consumer_returns_or_sleeps_witness:
  "\<exists>s :: nat consumer. run consumer_step launch_consumer lost_wakeup s \<and>
     (\<forall>fs t. run consumer_step s fs t \<and> list_all quiet fs \<longrightarrow> place t \<noteq> Returned)"
proof -
  obtain s :: "nat consumer" where s: "run consumer_step launch_consumer lost_wakeup s"
    "place s = Asleep" "\<not> running s" using lost_wakeup_run by blast
  with consumer_returns_or_sleeps [OF s(1,3)] show ?thesis by blast
qed

text \<open>
  While its owner stays, the thread handles every element. From every reachable state
  its own steps and the notifications to come end after at most six steps more than six
  for each element and four for each notification, whatever their order; and when none is
  possible, every element ever put has been handled, in order.
\<close>

theorem consumer_comes_to_rest:
  assumes "run consumer_step launch_consumer es s" and "running s"
    and "run consumer_step s fs t" and "list_all own_step fs"
  shows "length fs \<le> 6 + 6 * length (batch_rest (place s) @ items s) + 4 * wakeups s \<and>
    ((\<forall>e u. own_step e \<longrightarrow> \<not> consumer_step t e u) \<longrightarrow> items t = [] \<and> handled t = puts s)"
proof -
  note l = run_lightens [OF assms(3,4,2)]
  have "queue_ok t" "awake_ok t"
    using queue_ok.run_inv [OF run_append [OF assms(1,3)] queue_ok_init]
      awake_ok.run_inv [OF run_append [OF assms(1,3)] awake_ok_init] by blast+
  with consumer_rest [of t] l load_le [of s] show ?thesis by auto
qed

definition demo_work :: "nat consumer_event list" where
  "demo_work = [Thread, Put 1, Thread, Thread, Thread, Put 2, Thread, Put 3]"

definition demo_rest :: "nat consumer_event list" where
  "demo_rest = replicate 13 Thread @ [Notify, Notify, Notify] @ replicate 3 Thread"

lemma rest_consumer_stuck:
  "place s = Asleep \<Longrightarrow> wakeups s = 0 \<Longrightarrow> own_step e \<Longrightarrow> \<not> consumer_step s e t"
  by (cases e) (auto simp: consumer_step_simps consumer_next_def own_step_def)

theorem consumer_comes_to_rest_witness:
  "\<exists>s t. run consumer_step launch_consumer demo_work s \<and> items s = [2, 3] \<and>
     run consumer_step s demo_rest t \<and> length demo_rest \<le> 30 \<and> handled t = [1, 2, 3]"
proof -
  have "\<exists>s. run consumer_step launch_consumer demo_work s \<and> (items s = [2, 3] \<and> running s \<and>
      puts s = [1, 2, 3] \<and> wakeups s = 3 \<and> place s = Each [] \<and>
      (case exec consumer_after demo_rest s of None \<Rightarrow> False
       | Some t \<Rightarrow> place t = Asleep \<and> wakeups t = 0))"
    by (rule consumer_exec.exec_ex) code_simp
  then obtain s where s: "run consumer_step launch_consumer demo_work s" "items s = [2, 3]" "running s"
    "puts s = [1, 2, 3]"
    "case exec consumer_after demo_rest s of None \<Rightarrow> False | Some t \<Rightarrow> place t = Asleep \<and> wakeups t = 0"
    by blast
  from consumer_exec.exec_ex [OF s(5)] obtain t where t: "run consumer_step s demo_rest t"
    "place t = Asleep" "wakeups t = 0"
    by blast
  have "list_all own_step demo_rest" "length demo_rest \<le> 30" by code_simp+
  with consumer_comes_to_rest [OF s(1,3) t(1)] rest_consumer_stuck [OF t(2,3)] s t(1) show ?thesis by auto
qed

end
