(* ===== verification/Multicast.thy ===== *)
theory Multicast
  imports Consumer
begin

text \<open>
  src/multicast_helper/multicast_helper_impl.cpp: a socket that sends datagrams to a
  multicast group, and one that receives them and hands the payloads to the client on a
  thread of its own. The fields that this thread shares with the rest of the object
  (\<open>m_running\<close>, \<open>m_recv_data_list\<close>, the mutex, the condition) are the record \<open>monitor\<close>
  of theory \<open>Consumer\<close>. Parsing an address and what the operating system says to the
  socket calls are arguments; creating a thread does not fail.
\<close>

section \<open>Messages\<close>

definition recv_buffer_size :: nat where
  "recv_buffer_size = 1472"

definition packet_message :: "bytes \<Rightarrow> bytes \<Rightarrow> bytes \<Rightarrow> bytes option" where
  "packet_message pre suf data =
     (if data = [] \<or> length pre + length data + length suf > recv_buffer_size then None
      else Some (pre @ data @ suf))"

definition unpack_message :: "bytes \<Rightarrow> bytes \<Rightarrow> bytes \<Rightarrow> bytes option" where
  "unpack_message pre suf message =
     (if length message \<le> length pre + length suf then None
      else if pre \<noteq> [] \<and> take (length pre) message \<noteq> pre then None
      else if suf \<noteq> [] \<and> take (length suf) (drop (length message - length suf) message) \<noteq> suf
      then None
      else Some (take (length message - length pre - length suf) (drop (length pre) message)))"

text \<open>A message is accepted exactly when it is prefix, payload, suffix.\<close>

lemma unpack_message_iff:
  "unpack_message pre suf m = Some d \<longleftrightarrow> d \<noteq> [] \<and> m = pre @ d @ suf"
proof
  assume u: "unpack_message pre suf m = Some d"
  let ?n = "length m - length pre - length suf"
  from u have l: "length pre + length suf < length m"
    and p: "take (length pre) m = pre"
    and s: "drop (length m - length suf) m = suf"
    and d: "d = take ?n (drop (length pre) m)"
    by (auto simp: unpack_message_def split: if_split_asm)
  have "drop (length pre) m = d @ drop (length m - length suf) m"
    using l append_take_drop_id [of ?n "drop (length pre) m"] by (simp add: d)
  then have "m = pre @ d @ suf"
    using append_take_drop_id [of "length pre" m] by (simp add: p s)
  with l show "d \<noteq> [] \<and> m = pre @ d @ suf" by auto
next
  assume "d \<noteq> [] \<and> m = pre @ d @ suf"
  then show "unpack_message pre suf m = Some d" by (simp add: unpack_message_def)
qed

lemma packet_message_iff:
  "packet_message pre suf d = Some m \<longleftrightarrow>
     d \<noteq> [] \<and> length m \<le> recv_buffer_size \<and> m = pre @ d @ suf"
  by (auto simp: packet_message_def)

section \<open>State\<close>

record multicast =
  monitor :: "(bytes \<times> bytes) consumer"
  m_protocol_prefix :: bytes
  m_protocol_suffix :: bytes
  m_multicast_recver :: bool
  m_multicast_group_host :: bytes
  m_multicast_group_port :: u16
  m_multicast_endpoint :: "(u32 \<times> u16) option"
  send_open :: bool
  recv_open :: bool
  send_stopped :: bool
  recv_stopped :: bool
  m_send_data_list :: "bytes list"
  m_send_run_thread :: bool
  m_recv_run_thread :: bool
  m_recv_handle_thread :: bool
  posted :: "bytes list"
  sends :: nat
  recvs :: nat
  accepted :: "bytes list"
  sent :: "bytes list"
  callbacks :: "(bytes \<times> bytes) list"

definition m_running :: "multicast \<Rightarrow> bool" where
  "m_running s = running (monitor s)"

definition set_running :: "bool \<Rightarrow> multicast \<Rightarrow> multicast" where
  "set_running b s = s\<lparr>monitor := (monitor s)\<lparr>running := b\<rparr>\<rparr>"

definition MulticastHelperImpl :: multicast where
  "MulticastHelperImpl =
     \<lparr>monitor = launch_consumer\<lparr>running := False\<rparr>, m_protocol_prefix = [], m_protocol_suffix = [],
      m_multicast_recver = False, m_multicast_group_host = [], m_multicast_group_port = 0,
      m_multicast_endpoint = None, send_open = False, recv_open = False,
      send_stopped = False, recv_stopped = False, m_send_data_list = [],
      m_send_run_thread = False, m_recv_run_thread = False, m_recv_handle_thread = False,
      posted = [], sends = 0, recvs = 0, accepted = [], sent = [], callbacks = []\<rparr>"

section \<open>Sending\<close>

definition send_data :: "bytes \<Rightarrow> multicast \<Rightarrow> bool \<times> multicast" where
  "send_data data s =
     (if \<not> m_running s \<or> data = [] then (False, s)
      else case packet_message (m_protocol_prefix s) (m_protocol_suffix s) data of
             None \<Rightarrow> (False, s)
           | Some message \<Rightarrow>
               (True, s\<lparr>posted := posted s @ [message], accepted := accepted s @ [message]\<rparr>))"

definition do_send :: "multicast \<Rightarrow> multicast" where
  "do_send s = (if m_send_data_list s = [] then s else s\<lparr>sends := Suc (sends s)\<rparr>)"

text \<open>The handler posted by \<open>send_data\<close>, with the packet it has captured.\<close>

definition post_task :: "bytes \<Rightarrow> multicast \<Rightarrow> multicast" where
  "post_task packet s =
     (if \<not> m_running s \<or> \<not> send_open s then s
      else let s = s\<lparr>m_send_data_list := m_send_data_list s @ [packet]\<rparr>
           in if length (m_send_data_list s) = 1 then do_send s else s)"

text \<open>
  The completion of \<open>async_send_to\<close>: \<open>len\<close> bytes of the front packet went out as one
  datagram, or an error.
\<close>

definition send_ok :: "nat \<Rightarrow> multicast \<Rightarrow> multicast" where
  "send_ok len s =
     (let s = s\<lparr>sends := sends s - 1\<rparr>
      in case m_send_data_list s of
           [] \<Rightarrow> s
         | packet # rest \<Rightarrow>
             let s = s\<lparr>sent := sent s @ [take len packet], m_send_data_list := rest\<rparr>
             in if m_send_data_list s \<noteq> [] then do_send s else s)"

definition send_err :: "multicast \<Rightarrow> multicast" where
  "send_err s =
     (let s = s\<lparr>sends := sends s - 1\<rparr>
      in if \<not> m_running s \<or> \<not> send_open s then s
         else if m_send_data_list s \<noteq> [] then do_send s else s)"

section \<open>Receiving\<close>

definition do_recv :: "multicast \<Rightarrow> multicast" where
  "do_recv s = s\<lparr>recvs := Suc (recvs s)\<rparr>"

definition recv_err :: "multicast \<Rightarrow> multicast" where
  "recv_err s =
     (let s = s\<lparr>recvs := recvs s - 1\<rparr>
      in if \<not> m_running s \<or> \<not> recv_open s then s else do_recv s)"

definition recv_ok :: "bytes \<Rightarrow> bytes \<Rightarrow> multicast \<Rightarrow> multicast" where
  "recv_ok address message s =
     do_recv (s\<lparr>recvs := recvs s - 1, monitor := put (address, message) (monitor s)\<rparr>)"

text \<open>
  One step of the thread \<open>handle_data\<close>: the loop of \<open>Consumer\<close>, whose body unpacks the
  message and calls \<open>recv_multicast_data\<close>.
\<close>

definition deliver :: "multicast \<Rightarrow> bytes \<times> bytes \<Rightarrow> (bytes \<times> bytes) list" where
  "deliver s x =
     (case unpack_message (m_protocol_prefix s) (m_protocol_suffix s) (snd x) of
        None \<Rightarrow> []
      | Some data \<Rightarrow> [(fst x, data)])"

definition handle_data :: "multicast \<Rightarrow> multicast option" where
  "handle_data s =
     (case consumer_next (monitor s) of
        None \<Rightarrow> None
      | Some c \<Rightarrow>
          Some (s\<lparr>monitor := c,
                  callbacks := callbacks s @ (case place c of Busy x xs \<Rightarrow> deliver s x | _ \<Rightarrow> [])\<rparr>))"

section \<open>exit and init\<close>

text \<open>
  \<open>exit\<close> up to the join of the handling thread: the flag, the two contexts stopped and
  their threads joined, the notification; then what follows the join. A context that was
  stopped runs no further handler.
\<close>

definition exit_flag :: "multicast \<Rightarrow> multicast" where
  "exit_flag s = set_running False s"

definition exit_contexts :: "multicast \<Rightarrow> multicast" where
  "exit_contexts s =
     s\<lparr>send_stopped := send_stopped s \<or> m_send_run_thread s, m_send_run_thread := False,
       recv_stopped := recv_stopped s \<or> m_recv_run_thread s, m_recv_run_thread := False\<rparr>"

definition exit_notify :: "multicast \<Rightarrow> multicast" where
  "exit_notify s = (if m_recv_handle_thread s then s\<lparr>monitor := rouse (monitor s)\<rparr> else s)"

definition exit_done :: "multicast \<Rightarrow> multicast" where
  "exit_done s =
     s\<lparr>m_recv_handle_thread := False, m_send_data_list := [],
       monitor := (monitor s)\<lparr>items := []\<rparr>, m_multicast_recver := False\<rparr>"

text \<open>\<open>exit\<close> when no handling thread has to be joined, or when it has returned already.\<close>

definition exit :: "multicast \<Rightarrow> multicast" where
  "exit s =
     (if m_running s then exit_done (exit_notify (exit_contexts (exit_flag s))) else s)"

text \<open>
  What the outside world answers to \<open>init\<close>: \<open>from_string\<close> throws when it returns \<open>None\<close>;
  the socket calls succeed or not. Opening a socket that is open fails.
\<close>

record environment =
  from_string :: "bytes \<Rightarrow> u32 option"
  can_open_send :: bool
  can_silence_send :: bool
  can_open_recv :: bool
  can_silence_recv :: bool
  can_reuse :: bool
  can_bind :: bool
  can_join :: bool

datatype init_result = Returned_value bool | Thrown

definition init_recv :: "environment \<Rightarrow> multicast \<Rightarrow> bool \<times> multicast" where
  "init_recv env s =
     (if \<not> can_open_recv env \<or> recv_open s then (False, s)
      else let s = s\<lparr>recv_open := True\<rparr>
           in if \<not> (can_silence_recv env \<and> can_reuse env \<and> can_bind env \<and> can_join env)
              then (False, s)
              else (True, do_recv (s\<lparr>m_recv_handle_thread := True, m_recv_run_thread := True,
                                     monitor := (monitor s)\<lparr>place := Outer\<rparr>\<rparr>)))"

definition init_sockets :: "environment \<Rightarrow> multicast \<Rightarrow> bool \<times> multicast" where
  "init_sockets env s =
     (if \<not> can_open_send env \<or> send_open s then (False, s)
      else let s = s\<lparr>send_open := True\<rparr>
           in if \<not> can_silence_send env then (False, s)
              else let s = s\<lparr>m_send_run_thread := True\<rparr>
                   in if m_multicast_recver s then init_recv env s else (True, s))"

definition init ::
  "environment \<Rightarrow> bool \<Rightarrow> bytes \<Rightarrow> u16 \<Rightarrow> bytes \<Rightarrow> bytes \<Rightarrow> multicast \<Rightarrow> init_result \<times> multicast" where
  "init env recver host port pre suf s =
     (let s = exit s
      in if host = [] \<or> port = 0 then (Returned_value False, exit s)
         else let s = set_running True s
                        \<lparr>m_protocol_prefix := pre, m_protocol_suffix := suf,
                         m_multicast_recver := recver, m_multicast_group_host := host,
                         m_multicast_group_port := port\<rparr>
              in case from_string env host of
                   None \<Rightarrow> (Thrown, s)
                 | Some a \<Rightarrow>
                     case init_sockets env (s\<lparr>m_multicast_endpoint := Some (a, port)\<rparr>) of
                       (True, s) \<Rightarrow> (Returned_value True, s)
                     | (False, s) \<Rightarrow> (Returned_value False, exit s))"

section \<open>Steps\<close>

datatype multicast_event =
    Send bytes bool
  | Post
  | Send_ok nat
  | Send_err
  | Recv_ok bytes bytes
  | Recv_err
  | Handle
  | Notified
  | Spurious_wakeup
  | Exit_flag
  | Exit_contexts
  | Exit_notify

text \<open>
  The events of an object between \<open>init\<close> and the end of \<open>exit\<close>; the handlers run on the
  threads of their contexts, so they need a context that was not stopped. A datagram is
  sent whole or not at all.
\<close>

definition multicast_next :: "multicast_event \<Rightarrow> multicast \<Rightarrow> multicast option" where
  "multicast_next e s =
     (case e of
        Send d r \<Rightarrow> if fst (send_data d s) = r then Some (snd (send_data d s)) else None
      | Post \<Rightarrow>
          (case posted s of
             [] \<Rightarrow> None
           | p # ps \<Rightarrow>
               if m_send_run_thread s then Some (post_task p (s\<lparr>posted := ps\<rparr>)) else None)
      | Send_ok len \<Rightarrow>
          if m_send_run_thread s \<and> 0 < sends s \<and>
             (m_send_data_list s \<noteq> [] \<longrightarrow> len = length (hd (m_send_data_list s)))
          then Some (send_ok len s) else None
      | Send_err \<Rightarrow> if m_send_run_thread s \<and> 0 < sends s then Some (send_err s) else None
      | Recv_ok a m \<Rightarrow>
          if m_recv_run_thread s \<and> 0 < recvs s \<and> length m \<le> recv_buffer_size \<and>
             mutex_free (monitor s)
          then Some (recv_ok a m s) else None
      | Recv_err \<Rightarrow> if m_recv_run_thread s \<and> 0 < recvs s then Some (recv_err s) else None
      | Handle \<Rightarrow> if m_recv_handle_thread s then handle_data s else None
      | Notified \<Rightarrow>
          if 0 < wakeups (monitor s) then Some (s\<lparr>monitor := notify_one (monitor s)\<rparr>) else None
      | Spurious_wakeup \<Rightarrow> Some (s\<lparr>monitor := rouse (monitor s)\<rparr>)
      | Exit_flag \<Rightarrow> if m_running s then Some (exit_flag s) else None
      | Exit_contexts \<Rightarrow> if \<not> m_running s then Some (exit_contexts s) else None
      | Exit_notify \<Rightarrow> if \<not> m_running s then Some (exit_notify s) else None)"

definition multicast_step :: "multicast \<Rightarrow> multicast_event \<Rightarrow> multicast \<Rightarrow> bool" where
  "multicast_step s e t \<longleftrightarrow> multicast_next e s = Some t"

interpretation multicast_exec: executable_steps multicast_step multicast_next
  by unfold_locales (rule multicast_step_def)

section \<open>The thread of the object is a consumer\<close>

lemma monitor_step:
  assumes "multicast_step s e t"
  shows "monitor t = monitor s \<or> (\<exists>c. consumer_step (monitor s) c (monitor t))"
proof (cases e)
  case (Recv_ok a m)
  with assms have "consumer_step (monitor s) (Put (a, m)) (monitor t)"
    using c_put [of "monitor s" "(a, m)"]
    by (auto simp: multicast_step_def multicast_next_def recv_ok_def do_recv_def split: if_split_asm)
  then show ?thesis by blast
next
  case Handle
  with assms have "consumer_step (monitor s) Thread (monitor t)"
    using c_thread [of "monitor s"]
    by (auto simp: multicast_step_def multicast_next_def handle_data_def
        split: if_split_asm option.split_asm)
  then show ?thesis by blast
next
  case Notified
  with assms have "consumer_step (monitor s) Notify (monitor t)"
    using c_notify [of "monitor s"]
    by (auto simp: multicast_step_def multicast_next_def split: if_split_asm)
  then show ?thesis by blast
next
  case Spurious_wakeup
  with assms have "consumer_step (monitor s) Spurious (monitor t)"
    using c_spurious [of "monitor s"] by (auto simp: multicast_step_def multicast_next_def)
  then show ?thesis by blast
next
  case Exit_flag
  with assms have "consumer_step (monitor s) Stop (monitor t)"
    using c_stop [of "monitor s"]
    by (auto simp: multicast_step_def multicast_next_def exit_flag_def set_running_def
        m_running_def stop_consumer_def split: if_split_asm)
  then show ?thesis by blast
next
  case Exit_notify
  with assms have "monitor t = monitor s \<or> consumer_step (monitor s) Last_notify (monitor t)"
    using c_last_notify [of "monitor s"]
    by (auto simp: multicast_step_def multicast_next_def exit_notify_def m_running_def
        split: if_split_asm)
  then show ?thesis by blast
qed (use assms in \<open>auto simp: multicast_step_def multicast_next_def send_data_def post_task_def
      do_send_def send_ok_def send_err_def recv_err_def do_recv_def exit_contexts_def Let_def
      split: if_split_asm option.split_asm list.split_asm\<close>)

definition monitor_ok :: "multicast \<Rightarrow> bool" where
  "monitor_ok s \<longleftrightarrow> queue_ok (monitor s) \<and> awake_ok (monitor s)"

interpretation monitor_ok: step_invariant multicast_step monitor_ok
proof unfold_locales
  fix s e t
  assume "multicast_step s e t" "monitor_ok s"
  with monitor_step [of s e t] show "monitor_ok t"
    by (auto simp: monitor_ok_def intro: queue_ok_step awake_ok_step)
qed

text \<open>The callbacks are those of the elements handled.\<close>

definition callbacks_ok :: "bytes \<Rightarrow> bytes \<Rightarrow> multicast \<Rightarrow> bool" where
  "callbacks_ok pre suf s \<longleftrightarrow> m_protocol_prefix s = pre \<and> m_protocol_suffix s = suf \<and>
     callbacks s = concat (map (deliver s) (handled (monitor s))) \<and>
     (\<forall>x \<in> set (puts (monitor s)). length (snd x) \<le> recv_buffer_size)"

lemma deliver_cong:
  "m_protocol_prefix s = m_protocol_prefix t \<Longrightarrow> m_protocol_suffix s = m_protocol_suffix t \<Longrightarrow>
    deliver s = deliver t"
  by (rule ext) (simp add: deliver_def)

text \<open>The events that touch neither the callbacks nor what the thread has handled.\<close>

lemma callbacks_frame:
  assumes "multicast_step s e t" "e \<noteq> Handle"
  shows "m_protocol_prefix t = m_protocol_prefix s" "m_protocol_suffix t = m_protocol_suffix s"
    "callbacks t = callbacks s" "handled (monitor t) = handled (monitor s)"
    "set (puts (monitor t)) \<subseteq>
       set (puts (monitor s)) \<union> {x. length (snd x) \<le> recv_buffer_size}"
  using assms
  by (auto simp: multicast_step_def multicast_next_def send_data_def post_task_def
      do_send_def send_ok_def send_err_def recv_err_def recv_ok_def do_recv_def exit_contexts_def
      exit_notify_def exit_flag_def set_running_def put_def notify_one_def Let_def
      split: multicast_event.split_asm if_split_asm option.split_asm list.split_asm)

lemma callbacks_ok_step:
  assumes "multicast_step s e t" "callbacks_ok pre suf s"
  shows "callbacks_ok pre suf t"
proof (cases "e = Handle")
  case True
  with assms(1) obtain c where c: "consumer_next (monitor s) = Some c"
    "t = s\<lparr>monitor := c, callbacks := callbacks s @ (case place c of Busy x xs \<Rightarrow> deliver s x | _ \<Rightarrow> [])\<rparr>"
    by (auto simp: multicast_step_def multicast_next_def handle_data_def
        split: if_split_asm option.split_asm)
  then have f: "m_protocol_prefix t = m_protocol_prefix s" "m_protocol_suffix t = m_protocol_suffix s"
    "monitor t = c"
    "callbacks t = callbacks s @ (case place c of Busy x xs \<Rightarrow> deliver s x | _ \<Rightarrow> [])"
    by simp_all
  have d: "deliver t = deliver s" by (rule deliver_cong) (simp_all add: f)
  from c(1) assms(2) show ?thesis
    by (cases rule: consumer_next_cases) (auto simp: callbacks_ok_def d f)
next
  case False
  have d: "deliver t = deliver s"
    using callbacks_frame [OF assms(1) False] by (intro deliver_cong) simp_all
  show ?thesis
    using callbacks_frame [OF assms(1) False] assms(2) by (auto simp: callbacks_ok_def d)
qed

interpretation callbacks_ok: step_invariant multicast_step "callbacks_ok pre suf"
  by unfold_locales (rule callbacks_ok_step)

section \<open>The queue of outgoing packets\<close>

definition sender_ok :: "multicast \<Rightarrow> bool" where
  "sender_ok s \<longleftrightarrow> prefix (sent s @ m_send_data_list s) (accepted s) \<and> sends s \<le> 1 \<and>
     (0 < sends s \<longrightarrow> m_send_data_list s \<noteq> []) \<and>
     (m_running s \<and> send_open s \<longrightarrow> accepted s = sent s @ m_send_data_list s @ posted s \<and>
        (m_send_data_list s \<noteq> [] \<longrightarrow> sends s = 1))"

definition is_send :: "multicast_event \<Rightarrow> bool" where
  "is_send e \<longleftrightarrow> (case e of Send _ _ \<Rightarrow> True | Post \<Rightarrow> True | Send_ok _ \<Rightarrow> True | Send_err \<Rightarrow> True | _ \<Rightarrow> False)"

lemma is_send_simps [simp]:
  "is_send (Send d r)" "is_send Post" "is_send (Send_ok n)" "is_send Send_err"
  "\<not> is_send (Recv_ok a m)" "\<not> is_send Recv_err" "\<not> is_send Handle" "\<not> is_send Notified"
  "\<not> is_send Spurious_wakeup" "\<not> is_send Exit_flag" "\<not> is_send Exit_contexts"
  "\<not> is_send Exit_notify"
  by (simp_all add: is_send_def)

lemma sender_ok_cong:
  assumes "sent t = sent s" "m_send_data_list t = m_send_data_list s" "accepted t = accepted s"
    "sends t = sends s" "posted t = posted s" "send_open t = send_open s"
    "m_running t \<Longrightarrow> m_running s"
  shows "sender_ok s \<Longrightarrow> sender_ok t"
  using assms by (auto simp: sender_ok_def)

lemma receive_frame:
  assumes "multicast_step s e t" "\<not> is_send e"
  shows "sent t = sent s" "m_send_data_list t = m_send_data_list s" "accepted t = accepted s"
    "sends t = sends s" "posted t = posted s" "send_open t = send_open s"
    "m_running t \<Longrightarrow> m_running s"
  using assms
  by (auto simp: multicast_step_def multicast_next_def recv_err_def recv_ok_def do_recv_def
      handle_data_def exit_contexts_def exit_notify_def exit_flag_def set_running_def put_def
      notify_one_def m_running_def Let_def elim!: consumer_next_cases
      split: multicast_event.split_asm if_split_asm option.split_asm)

lemma sender_ok_send: "sender_ok s \<Longrightarrow> sender_ok (snd (send_data d s))"
  by (auto simp: sender_ok_def send_data_def m_running_def intro: prefix_order.trans
      split: option.split)

lemma sender_ok_post:
  assumes "sender_ok s" "posted s = p # ps"
  shows "sender_ok (post_task p (s\<lparr>posted := ps\<rparr>))"
  using assms
  by (cases "m_send_data_list s")
    (auto simp: sender_ok_def post_task_def m_running_def do_send_def Let_def)

lemma sender_ok_sent:
  assumes "sender_ok s" "0 < sends s"
    "m_send_data_list s \<noteq> [] \<longrightarrow> len = length (hd (m_send_data_list s))"
  shows "sender_ok (send_ok len s)"
  using assms
  by (cases "m_send_data_list s")
    (auto simp: sender_ok_def send_ok_def m_running_def do_send_def Let_def)

lemma sender_ok_failed: "sender_ok s \<Longrightarrow> 0 < sends s \<Longrightarrow> sender_ok (send_err s)"
  by (auto simp: sender_ok_def send_err_def m_running_def do_send_def Let_def)

lemma sender_ok_step:
  assumes "multicast_step s e t" "sender_ok s"
  shows "sender_ok t"
proof (cases "is_send e")
  case True
  with assms show ?thesis
    by (cases e)
      (auto simp: multicast_step_def multicast_next_def sender_ok_send sender_ok_post sender_ok_sent
        sender_ok_failed split: if_split_asm list.split_asm)
next
  case False
  show ?thesis
    by (rule sender_ok_cong [OF _ _ _ _ _ _ _ assms(2)]) (use receive_frame [OF assms(1) False] in simp_all)
qed

interpretation sender_ok: step_invariant multicast_step sender_ok
  by unfold_locales (rule sender_ok_step)

section \<open>The public class\<close>

text \<open>
  src/multicast_helper/multicast_helper.cpp: \<open>m_impl\<close> is \<open>None\<close> for a null pointer. An
  exception of the implementation leaves \<open>init\<close> before the final \<open>exit\<close>.
\<close>

definition MulticastHelper :: "multicast option" where
  "MulticastHelper = None"

definition helper_exit :: "multicast option \<Rightarrow> multicast option" where
  "helper_exit m_impl = None"

definition helper_init ::
  "environment \<Rightarrow> bool \<Rightarrow> bytes \<Rightarrow> u16 \<Rightarrow> bytes \<Rightarrow> bytes \<Rightarrow> multicast option \<Rightarrow>
   init_result \<times> multicast option" where
  "helper_init env recver host port pre suf m_impl =
     (case init env recver host port pre suf MulticastHelperImpl of
        (Returned_value True, s) \<Rightarrow> (Returned_value True, Some s)
      | (Returned_value False, s) \<Rightarrow> (Returned_value False, helper_exit (Some s))
      | (Thrown, s) \<Rightarrow> (Thrown, Some s))"

definition helper_send_data :: "bytes \<Rightarrow> multicast option \<Rightarrow> bool \<times> multicast option" where
  "helper_send_data data m_impl =
     (case m_impl of
        None \<Rightarrow> (False, None)
      | Some s \<Rightarrow> (fst (send_data data s), Some (snd (send_data data s))))"

section \<open>What init establishes\<close>

lemma exit_fresh [simp]: "exit MulticastHelperImpl = MulticastHelperImpl"
  by (simp add: exit_def m_running_def MulticastHelperImpl_def)

definition started :: "bytes \<Rightarrow> bytes \<Rightarrow> multicast \<Rightarrow> bool" where
  "started pre suf s \<longleftrightarrow> m_running s \<and> send_open s \<and> m_send_run_thread s \<and> monitor s = launch_consumer \<and>
     m_protocol_prefix s = pre \<and> m_protocol_suffix s = suf \<and> m_send_data_list s = [] \<and>
     posted s = [] \<and> sends s = 0 \<and> accepted s = [] \<and> sent s = [] \<and> callbacks s = []"

lemma init_sockets_started:
  assumes "init_sockets env s = (True, t)"
  shows "send_open t \<and> m_send_run_thread t \<and> m_protocol_prefix t = m_protocol_prefix s \<and>
    m_protocol_suffix t = m_protocol_suffix s \<and> m_send_data_list t = m_send_data_list s \<and>
    posted t = posted s \<and> sends t = sends s \<and> accepted t = accepted s \<and> sent t = sent s \<and>
    callbacks t = callbacks s \<and>
    (monitor t = monitor s \<or> monitor t = (monitor s)\<lparr>place := Outer\<rparr>)"
  using assms
  by (auto simp: init_sockets_def init_recv_def do_recv_def Let_def split: if_split_asm)

lemma init_started:
  assumes "init env recver host port pre suf MulticastHelperImpl = (Returned_value True, s)"
  shows "started pre suf s"
proof -
  let ?r = "set_running True MulticastHelperImpl
      \<lparr>m_protocol_prefix := pre, m_protocol_suffix := suf, m_multicast_recver := recver,
       m_multicast_group_host := host, m_multicast_group_port := port\<rparr>"
  from assms obtain a where "init_sockets env (?r\<lparr>m_multicast_endpoint := Some (a, port)\<rparr>) = (True, s)"
    by (auto simp: init_def Let_def simp del: multicast.update_convs
        split: if_split_asm option.split_asm prod.split_asm bool.split_asm)
  from init_sockets_started [OF this] show ?thesis
    by (auto simp: started_def m_running_def set_running_def MulticastHelperImpl_def launch_consumer_def)
qed

lemma started_ok:
  assumes "started pre suf s"
  shows "sender_ok s" "monitor_ok s" "callbacks_ok pre suf s"
  using assms
  by (auto simp: started_def sender_ok_def monitor_ok_def callbacks_ok_def queue_ok_init awake_ok_init)
    (simp_all add: launch_consumer_def)

lemma send_open_step: "multicast_step s e t \<Longrightarrow> send_open s \<Longrightarrow> send_open t"
proof (cases "is_send e")
  case True
  assume "multicast_step s e t" "send_open s"
  with True show ?thesis
    by (cases e)
      (auto simp: multicast_step_def multicast_next_def send_data_def post_task_def
        do_send_def send_ok_def send_err_def Let_def split: if_split_asm option.split_asm list.split_asm)
qed (simp add: receive_frame)

lemma run_send_open: "run multicast_step s es t \<Longrightarrow> send_open s \<Longrightarrow> send_open t"
  by (induction rule: run.induct) (auto dest: send_open_step)

lemma no_thread_step:
  assumes "multicast_step s e t" "\<not> m_send_run_thread s"
  shows "\<not> m_send_run_thread t \<and> sent t = sent s"
proof (cases "is_send e")
  case True
  with assms show ?thesis
    by (cases e)
      (auto simp: multicast_step_def multicast_next_def send_data_def
        split: if_split_asm option.split_asm list.split_asm)
next
  case False
  with assms show ?thesis
    by (auto simp: receive_frame)
      (auto simp: multicast_step_def multicast_next_def recv_err_def recv_ok_def do_recv_def
        handle_data_def exit_contexts_def exit_notify_def exit_flag_def set_running_def Let_def
        split: multicast_event.split_asm if_split_asm option.split_asm)
qed

text \<open>What the events say was accepted and received.\<close>

fun sent_data :: "multicast_event list \<Rightarrow> bytes list" where
  "sent_data [] = []"
| "sent_data (Send d True # es) = d # sent_data es"
| "sent_data (_ # es) = sent_data es"

fun received :: "multicast_event list \<Rightarrow> (bytes \<times> bytes) list" where
  "received [] = []"
| "received (Recv_ok a m # es) = (a, m) # received es"
| "received (_ # es) = received es"

lemma accepted_step:
  assumes "multicast_step s e t"
  shows "accepted t = accepted s @ map (\<lambda>d. m_protocol_prefix s @ d @ m_protocol_suffix s) (sent_data [e])"
proof (cases "is_send e")
  case True
  with assms show ?thesis
    by (cases e)
      (auto simp: multicast_step_def multicast_next_def send_data_def packet_message_def post_task_def
        do_send_def send_ok_def send_err_def Let_def split: if_split_asm option.split_asm list.split_asm)
next
  case False
  with receive_frame(3) [OF assms False] show ?thesis by (cases e) simp_all
qed

lemma prefix_step:
  assumes "multicast_step s e t"
  shows "m_protocol_prefix t = m_protocol_prefix s" "m_protocol_suffix t = m_protocol_suffix s"
  using assms callbacks_frame [OF assms]
  by (cases "e = Handle"; auto simp: multicast_step_def multicast_next_def handle_data_def
      split: if_split_asm option.split_asm)+

lemma sent_data_Cons: "sent_data (e # es) = sent_data [e] @ sent_data es"
  by (cases "e # es" rule: sent_data.cases) simp_all

lemma received_Cons: "received (e # es) = received [e] @ received es"
  by (cases e) auto

lemma run_accepted:
  "run multicast_step s es t \<Longrightarrow>
    accepted t = accepted s @ map (\<lambda>d. m_protocol_prefix s @ d @ m_protocol_suffix s) (sent_data es)"
proof (induction rule: run.induct)
  case (run_Cons s e t es u)
  then show ?case
    using accepted_step [OF run_Cons.hyps(1)] prefix_step [OF run_Cons.hyps(1)] sent_data_Cons [of e es]
    by simp
qed simp

lemma puts_step:
  assumes "multicast_step s e t"
  shows "puts (monitor t) = puts (monitor s) @ received [e]"
  using assms
  by (cases e)
    (auto simp: multicast_step_def multicast_next_def send_data_def post_task_def
      do_send_def send_ok_def send_err_def recv_err_def recv_ok_def do_recv_def exit_contexts_def
      exit_notify_def exit_flag_def set_running_def put_def notify_one_def handle_data_def Let_def
      elim!: consumer_next_cases split: if_split_asm option.split_asm list.split_asm)

lemma run_puts: "run multicast_step s es t \<Longrightarrow> puts (monitor t) = puts (monitor s) @ received es"
proof (induction rule: run.induct)
  case (run_Cons s e t es u)
  then show ?case using puts_step [OF run_Cons.hyps(1)] received_Cons [of e es] by simp
qed simp

section \<open>Properties\<close>

text \<open>
  Packing and unpacking are inverse. Packing succeeds exactly for payloads that are
  not empty and fit the receive buffer of 1472 bytes together with prefix and suffix,
  and unpacking the packet gives the payload; a message is accepted exactly when it is a
  nonempty payload between the prefix and the suffix, never overlapping them.
\<close>

theorem multicast_round_trip:
  "Option.bind (packet_message pre suf d) (unpack_message pre suf) =
     (if d \<noteq> [] \<and> length pre + length d + length suf \<le> 1472 then Some d else None) \<and>
   (unpack_message pre suf m = Some d \<longleftrightarrow> d \<noteq> [] \<and> m = pre @ d @ suf)"
proof -
  have "unpack_message pre suf (pre @ d @ suf) = Some d" if "d \<noteq> []"
    using that by (simp add: unpack_message_iff)
  then show ?thesis
    by (simp add: packet_message_def recv_buffer_size_def unpack_message_iff)
qed

lemma helper_sends:
  assumes "init env recver host port pre suf MulticastHelperImpl = (Returned_value True, s)"
    and "run multicast_step s es t"
  shows "sends t \<le> 1 \<and> prefix (sent t) (map (\<lambda>d. pre @ d @ suf) (sent_data es)) \<and>
    (m_running t \<longrightarrow>
       sent t @ m_send_data_list t @ posted t = map (\<lambda>d. pre @ d @ suf) (sent_data es))"
proof -
  note s = init_started [OF assms(1)]
  have "sender_ok t" by (rule sender_ok.run_inv [OF assms(2) started_ok(1) [OF s]])
  moreover have "accepted t = map (\<lambda>d. pre @ d @ suf) (sent_data es)"
    using run_accepted [OF assms(2)] s by (simp add: started_def)
  moreover have "send_open t"
    using run_send_open [OF assms(2)] s by (simp add: started_def)
  ultimately show ?thesis
    by (auto simp: sender_ok_def dest: append_prefixD)
qed

text \<open>
  C23: packets leave in the order of the calls, one at a time. From a successful \<open>init\<close>
  on, whatever completes or fails meanwhile, at most one send is outstanding, and while
  the object runs the datagrams sent, the queue and the posted packets are together the
  framed payloads of the calls of \<open>send_data\<close> that returned true; after \<open>exit\<close> has
  begun, the datagrams sent are still a prefix of them.
\<close>

theorem multicast_sends_in_order:
  assumes "init env recver host port pre suf MulticastHelperImpl = (Returned_value True, s)"
    and "run multicast_step s es t"
  shows "sends t \<le> 1 \<and> prefix (sent t) (map (\<lambda>d. pre @ d @ suf) (sent_data es)) \<and>
    (m_running t \<longrightarrow>
       sent t @ m_send_data_list t @ posted t = map (\<lambda>d. pre @ d @ suf) (sent_data es))"
  by (rule helper_sends [OF assms])

lemma helper_delivers:
  assumes "init env recver host port pre suf MulticastHelperImpl = (Returned_value True, s)"
    and "run multicast_step s es t"
  shows "(\<exists>rs. prefix rs (received es) \<and>
       callbacks t = concat (map (\<lambda>(a, m). case unpack_message pre suf m of
         None \<Rightarrow> [] | Some d \<Rightarrow> [(a, d)]) rs) \<and>
       (m_running t \<longrightarrow> received es = rs @ batch_rest (place (monitor t)) @ items (monitor t))) \<and>
    (m_running t \<and> items (monitor t) \<noteq> [] \<and> place (monitor t) = Asleep \<longrightarrow>
       0 < wakeups (monitor t))"
proof -
  note s = init_started [OF assms(1)]
  have c: "callbacks_ok pre suf t" by (rule callbacks_ok.run_inv [OF assms(2) started_ok(3) [OF s]])
  have m: "monitor_ok t" by (rule monitor_ok.run_inv [OF assms(2) started_ok(2) [OF s]])
  have p: "puts (monitor t) = received es"
    using run_puts [OF assms(2)] s by (simp add: started_def launch_consumer_def)
  have d: "deliver t = (\<lambda>(a, m). case unpack_message pre suf m of None \<Rightarrow> [] | Some d \<Rightarrow> [(a, d)])"
    using c by (auto simp: callbacks_ok_def deliver_def fun_eq_iff split: option.split)
  have "prefix (handled (monitor t)) (received es) \<and>
      callbacks t = concat (map (deliver t) (handled (monitor t))) \<and>
      (m_running t \<longrightarrow>
         received es = handled (monitor t) @ batch_rest (place (monitor t)) @ items (monitor t))"
    using c m p by (simp add: callbacks_ok_def monitor_ok_def queue_ok_def m_running_def)
  with m show ?thesis
    unfolding d by (auto simp: monitor_ok_def awake_ok_def m_running_def)
qed


text \<open>
  A packet whose send fails is never given up. In every running state with a packet
  in the queue the failure handler starts the same send again and leaves the state as it
  was, so a lasting error (an unreachable network, for instance) repeats for ever, no
  later packet is sent, and every further \<open>send_data\<close> still returns true and adds to the
  queue.
\<close>

theorem multicast_retries_forever:
  assumes "init env recver host port pre suf MulticastHelperImpl = (Returned_value True, s)"
    and "run multicast_step s es t" and "m_running t" and "m_send_data_list t \<noteq> []"
    and "m_send_run_thread t"
  shows "run multicast_step t (replicate n Send_err) t"
proof -
  note s = init_started [OF assms(1)]
  have "sender_ok t" by (rule sender_ok.run_inv [OF assms(2) started_ok(1) [OF s]])
  moreover have o: "send_open t"
    using run_send_open [OF assms(2)] s by (simp add: started_def)
  ultimately have n: "sends t = 1" using assms(3,4) by (simp add: sender_ok_def)
  have "send_err t = t" using assms(3,4) o n by (simp add: send_err_def do_send_def m_running_def)
  with n assms(5) have "multicast_step t Send_err t"
    by (simp add: multicast_step_def multicast_next_def)
  then show ?thesis by (induction n) (auto intro: run_Nil run_Cons)
qed

text \<open>
  An address that does not parse leaves a helper that pretends to work. \<open>from_string\<close>
  throws out of \<open>init\<close> after \<open>m_running\<close> has been set, so the object is kept; from then
  on \<open>send_data\<close> returns true for every payload that fits, and no packet is ever sent.
\<close>

theorem multicast_init_throws:
  assumes "from_string env host = None" and "host \<noteq> []" and "port \<noteq> 0"
  shows "\<exists>s. helper_init env recver host port pre suf MulticastHelper = (Thrown, Some s) \<and>
    (\<forall>es t. run multicast_step s es t \<longrightarrow> sent t = []) \<and>
    (\<forall>d. d \<noteq> [] \<and> length pre + length d + length suf \<le> 1472 \<longrightarrow>
       fst (helper_send_data d (Some s)))"
proof -
  let ?s = "set_running True MulticastHelperImpl
      \<lparr>m_protocol_prefix := pre, m_protocol_suffix := suf, m_multicast_recver := recver,
       m_multicast_group_host := host, m_multicast_group_port := port\<rparr>"
  have i: "helper_init env recver host port pre suf MulticastHelper = (Thrown, Some ?s)"
    using assms by (simp add: helper_init_def init_def Let_def)
  have "\<not> m_send_run_thread t \<and> sent t = []" if "run multicast_step ?s es t" for es t
  proof -
    have "step_invariant multicast_step (\<lambda>s. \<not> m_send_run_thread s \<and> sent s = [])"
      by unfold_locales (auto dest: no_thread_step)
    from step_invariant.run_inv [OF this that] show ?thesis
      by (simp add: set_running_def MulticastHelperImpl_def)
  qed
  moreover have "fst (send_data d ?s)" if "d \<noteq> []" "length pre + length d + length suf \<le> 1472" for d
    using that by (simp add: send_data_def packet_message_def recv_buffer_size_def m_running_def
        set_running_def)
  ultimately show ?thesis using i by (auto simp: helper_send_data_def)
qed

section \<open>Demonstrations\<close>

definition demo_environment :: environment where
  "demo_environment =
     \<lparr>from_string = (\<lambda>h. if h = ascii ''224.1.1.1'' then Some 0xE0010101 else None),
      can_open_send = True, can_silence_send = True, can_open_recv = True,
      can_silence_recv = True, can_reuse = True, can_bind = True,
      can_join = True\<rparr>"

definition demo_helper :: multicast where
  "demo_helper =
     snd (init demo_environment True (ascii ''224.1.1.1'') 9000 [1] [2] MulticastHelperImpl)"

lemma multicast_demo_init:
  "init demo_environment True (ascii ''224.1.1.1'') 9000 [1] [2] MulticastHelperImpl =
     (Returned_value True, demo_helper)"
proof -
  have "fst (init demo_environment True (ascii ''224.1.1.1'') 9000 [1] [2] MulticastHelperImpl) =
      Returned_value True"
    by code_simp
  then show ?thesis by (simp add: demo_helper_def prod_eq_iff)
qed

definition demo_sends :: "multicast_event list" where
  "demo_sends = [Send [7, 8] True, Send [9] True, Send [] False, Post, Send_err, Post, Send_ok 4]"

definition demo_recvs :: "multicast_event list" where
  "demo_recvs =
     [Handle, Handle, Handle, Handle, Recv_ok [65] [1, 7, 2], Notified, Recv_ok [66] [1, 2],
      Handle, Handle, Handle, Handle, Handle]"

theorem multicast_sends_in_order_witness:
  "\<exists>t. run multicast_step demo_helper demo_sends t \<and> sent t = [[1, 7, 8, 2]] \<and>
     m_send_data_list t = [[1, 9, 2]] \<and>
     prefix (sent t) (map (\<lambda>d. [1] @ d @ [2]) (sent_data demo_sends))"
proof -
  have "\<exists>t. run multicast_step demo_helper demo_sends t \<and>
      (sent t = [[1, 7, 8, 2]] \<and> m_send_data_list t = [[1, 9, 2]])"
    by (rule multicast_exec.exec_ex) code_simp
  with multicast_sends_in_order [OF multicast_demo_init] show ?thesis by blast
qed


theorem multicast_retries_forever_witness:
  "\<exists>t. run multicast_step demo_helper (take 4 demo_sends) t \<and> m_send_data_list t = [[1, 7, 8, 2]] \<and>
     run multicast_step t (replicate 1000 Send_err) t"
proof -
  have "\<exists>t. run multicast_step demo_helper (take 4 demo_sends) t \<and>
      (m_send_data_list t = [[1, 7, 8, 2]] \<and> m_running t \<and> m_send_run_thread t)"
    by (rule multicast_exec.exec_ex) code_simp
  then obtain t where t: "run multicast_step demo_helper (take 4 demo_sends) t"
    "m_send_data_list t = [[1, 7, 8, 2]]" "m_running t" "m_send_run_thread t" by blast
  from t(2) have "m_send_data_list t \<noteq> []" by simp
  from multicast_retries_forever [OF multicast_demo_init t(1,3) this t(4)] t(1,2) show ?thesis by blast
qed

theorem multicast_init_throws_witness:
  "\<exists>s. helper_init demo_environment True (ascii ''nowhere'') 9000 [1] [2] MulticastHelper =
       (Thrown, Some s) \<and>
     fst (helper_send_data [7] (Some s)) \<and>
     (\<forall>es t. run multicast_step s es t \<longrightarrow> sent t = [])"
proof -
  have "from_string demo_environment (ascii ''nowhere'') = None" by code_simp
  from multicast_init_throws [OF this, of 9000 True "[1]" "[2]"] show ?thesis by fastforce
qed

end
