(* ===== verification/Multicast_Group.thy ===== *)
theory Multicast_Group
  imports Multicast
begin

text \<open>
  Two members of a multicast group that use the same prefix and suffix: what one sends
  and what the other hands to its client. The network between them may lose datagrams,
  and, when it has several paths, reorder or duplicate them.
\<close>

section \<open>Payloads\<close>

lemma sent_data_step:
  "multicast_step s e t \<Longrightarrow> [] \<notin> set (sent_data [e])"
  by (cases "[e]" rule: sent_data.cases)
    (auto simp: multicast_step_def multicast_next_def send_data_def split: if_split_asm)

lemma sent_data_nonempty:
  "run multicast_step s es t \<Longrightarrow> [] \<notin> set (sent_data es)"
proof (induction rule: run.induct)
  case (run_Cons s e t es u)
  then show ?case using sent_data_step [OF run_Cons.hyps(1)] sent_data_Cons [of e es] by simp
qed simp

text \<open>The payloads of received datagrams, in order.\<close>

definition payloads :: "bytes \<Rightarrow> bytes \<Rightarrow> bytes list \<Rightarrow> bytes list" where
  "payloads pre suf ms =
     concat (map (\<lambda>m. case unpack_message pre suf m of None \<Rightarrow> [] | Some d \<Rightarrow> [d]) ms)"

lemma payloads_deliver:
  "map snd (concat (map (\<lambda>(a, m). case unpack_message pre suf m of None \<Rightarrow> [] | Some d \<Rightarrow> [(a, d)]) rs)) =
    payloads pre suf (map snd rs)"
  by (induction rs) (auto simp: payloads_def split: option.split)

lemma payloads_framed:
  "[] \<notin> set ds \<Longrightarrow> payloads pre suf (map (\<lambda>d. pre @ d @ suf) ds) = ds"
proof (induction ds)
  case (Cons d ds)
  then have "unpack_message pre suf (pre @ d @ suf) = Some d" by (auto simp: unpack_message_iff)
  with Cons show ?case by (simp add: payloads_def)
qed (simp add: payloads_def)

lemma payloads_Cons:
  "payloads pre suf (m # ms) =
    (case unpack_message pre suf m of None \<Rightarrow> [] | Some d \<Rightarrow> [d]) @ payloads pre suf ms"
  by (simp add: payloads_def)

lemma payloads_set: "d \<in> set (payloads pre suf ms) \<longleftrightarrow> d \<noteq> [] \<and> pre @ d @ suf \<in> set ms"
proof -
  have "d \<in> set (payloads pre suf ms) \<longleftrightarrow> (\<exists>m \<in> set ms. unpack_message pre suf m = Some d)"
    by (induction ms) (auto simp: payloads_Cons, simp_all add: payloads_def)
  then show ?thesis by (auto simp: unpack_message_iff)
qed

lemma payloads_subseq: "subseq ms ns \<Longrightarrow> subseq (payloads pre suf ms) (payloads pre suf ns)"
  by (induction rule: list_emb.induct)
    (auto simp: payloads_def intro: list_emb_append_mono subseq_order.trans [OF _ list_emb_append2])

lemma payloads_prefix: "prefix ms ns \<Longrightarrow> prefix (payloads pre suf ms) (payloads pre suf ns)"
  by (auto simp: prefix_def payloads_def)

section \<open>Properties\<close>

text \<open>
  C25: one member hears another. When every datagram that the second has received was sent
  by the first, its client is given only payloads that the first has accepted; over a
  network that keeps the order and duplicates nothing, in the order of the calls and each
  at most once; and when nothing was lost and nothing is left over, exactly all of them.
\<close>

theorem multicast_peers:
  assumes "init env recver host port pre suf MulticastHelperImpl = (Returned_value True, a)"
    and "run multicast_step a es s"
    and "init env' recver' host' port' pre suf MulticastHelperImpl = (Returned_value True, b)"
    and "run multicast_step b fs t"
    and "set (map snd (received fs)) \<subseteq> set (sent s)"
  shows "set (map snd (callbacks t)) \<subseteq> set (sent_data es) \<and>
    (subseq (map snd (received fs)) (sent s) \<longrightarrow> subseq (map snd (callbacks t)) (sent_data es)) \<and>
    (map snd (received fs) = sent s \<and> m_running s \<and> m_send_data_list s = [] \<and> posted s = [] \<and>
     m_running t \<and> items (monitor t) = [] \<and> place (monitor t) = Asleep \<longrightarrow>
       map snd (callbacks t) = sent_data es)"
proof -
  let ?frame = "\<lambda>d. pre @ d @ suf"
  have s: "prefix (sent s) (map ?frame (sent_data es))"
    "m_running s \<Longrightarrow> sent s @ m_send_data_list s @ posted s = map ?frame (sent_data es)"
    using helper_sends [OF assms(1,2)] by simp_all
  have p: "payloads pre suf (map ?frame (sent_data es)) = sent_data es"
    using sent_data_nonempty [OF assms(2)] by (rule payloads_framed)
  from helper_delivers [OF assms(3,4)] obtain rs where c: "prefix rs (received fs)"
    "callbacks t = concat (map (\<lambda>(a, m). case unpack_message pre suf m of None \<Rightarrow> [] | Some d \<Rightarrow> [(a, d)]) rs)"
    "m_running t \<longrightarrow> received fs = rs @ batch_rest (place (monitor t)) @ items (monitor t)"
    by blast
  then have rs: "prefix rs (received fs)" "map snd (callbacks t) = payloads pre suf (map snd rs)"
    "m_running t \<Longrightarrow> received fs = rs @ batch_rest (place (monitor t)) @ items (monitor t)"
    by (simp_all only: payloads_deliver)
  have "set (map snd rs) \<subseteq> set (map ?frame (sent_data es))"
    using assms(5) set_mono_prefix [OF rs(1)] set_mono_prefix [OF s(1)] by auto
  then have "set (map snd (callbacks t)) \<subseteq> set (sent_data es)"
    unfolding rs(2) by (fastforce simp: payloads_set)
  moreover have "subseq (map snd (callbacks t)) (sent_data es)"
    if "subseq (map snd (received fs)) (sent s)"
  proof -
    have "subseq (map snd rs) (map snd (received fs))"
      using rs(1) by (intro prefix_imp_subseq map_mono_prefix)
    with that prefix_imp_subseq [OF s(1)] have "subseq (map snd rs) (map ?frame (sent_data es))"
      by (meson subseq_order.order_trans)
    from payloads_subseq [OF this, of pre suf] show ?thesis by (simp only: p rs(2))
  qed
  moreover have "map snd (callbacks t) = sent_data es"
    if "map snd (received fs) = sent s" "m_running s" "m_send_data_list s = []" "posted s = []"
      "m_running t" "items (monitor t) = []" "place (monitor t) = Asleep"
    using that s(2) rs p by simp
  ultimately show ?thesis by blast
qed

text \<open>The member that listens, and one that has sent two payloads, the first of which is heard.\<close>

definition demo_talk :: "multicast_event list" where
  "demo_talk = [Send [7, 8] True, Send [9] True, Post, Post, Send_ok 4, Send_ok 3]"

definition demo_listen :: "multicast_event list" where
  "demo_listen = [Recv_ok [65] [1, 7, 8, 2], Recv_ok [65] [1, 9, 2]] @ replicate 6 Handle"

theorem multicast_peers_witness:
  "\<exists>s t. run multicast_step demo_helper demo_talk s \<and> sent s = [[1, 7, 8, 2], [1, 9, 2]] \<and>
     run multicast_step demo_helper demo_listen t \<and> callbacks t = [([65], [7, 8]), ([65], [9])] \<and>
     subseq (map snd (callbacks t)) (sent_data demo_talk)"
proof -
  have "\<exists>s. run multicast_step demo_helper demo_talk s \<and> sent s = [[1, 7, 8, 2], [1, 9, 2]]"
    by (rule multicast_exec.exec_ex) code_simp
  then obtain s where s: "run multicast_step demo_helper demo_talk s" "sent s = [[1, 7, 8, 2], [1, 9, 2]]"
    by blast
  have "\<exists>t. run multicast_step demo_helper demo_listen t \<and> callbacks t = [([65], [7, 8]), ([65], [9])]"
    by (rule multicast_exec.exec_ex) code_simp
  then obtain t where t: "run multicast_step demo_helper demo_listen t"
    "callbacks t = [([65], [7, 8]), ([65], [9])]"
    by blast
  have r: "map snd (received demo_listen) = [[1, 7, 8, 2], [1, 9, 2]]" by code_simp
  from multicast_peers [OF multicast_demo_init s(1) multicast_demo_init t(1)]
  have "subseq (map snd (callbacks t)) (sent_data demo_talk)" by (simp add: r s(2))
  with s t show ?thesis by blast
qed

end
