(* ===== verification/Websocket_Session.thy ===== *)
theory Websocket_Session
  imports Consumer
begin

text \<open>
  The class template \<open>WebsocketSession\<close> of src/websocket_client/websocket_client_impl.h:
  a connection over the websocketpp library. The event and the callback thread are the
  loop of theory \<open>Consumer\<close>; a work thread makes the connection and runs the library's
  handlers, a fourth thread pings the peer. The library (vendored in src/websocket) is not
  modelled: it makes connections or refuses, calls each handler for a connection it made,
  and \<open>run\<close> returns once the client is stopped or no connection is left.
\<close>

section \<open>State\<close>

datatype phase = Opening | Open | Over

record connection =
  phase :: phase
  url :: bytes
  origin :: "bytes option"

text \<open>The work thread: not yet begun, inside \<open>run\<close>, returned.\<close>

datatype work = Starting | Running | Finished

datatype operation = Idle | Begin bool | Connect_join | Reconnect_join | Close_join

datatype leaving =
    Staying
  | Leave_close
  | Leave_join
  | Leave_events
  | Leave_callbacks
  | Leave_ping
  | Leave_work
  | Left

record websocket =
  event_monitor :: "bool consumer"
  callback_monitor :: "bool consumer"
  m_callback :: bool
  m_sink :: bool
  m_target_url :: bytes
  m_gateway_url :: bytes
  m_connection :: "nat option"
  connections :: "connection list"
  stopped :: bool
  m_work_thread :: "work option"
  m_recv_pong_time :: u64
  send_ping_time :: u64
  run_close_time :: u64
  ping_thread :: bool
  operation :: operation
  leaving :: leaving
  attempts :: nat
  errors :: nat
  pings :: nat
  sent :: "(bytes \<times> bool) list"
  received :: "(bytes \<times> bool) list"

definition m_running :: "websocket \<Rightarrow> bool" where
  "m_running s = running (event_monitor s)"

definition set_running :: "bool \<Rightarrow> websocket \<Rightarrow> websocket" where
  "set_running b s =
     s\<lparr>event_monitor := (event_monitor s)\<lparr>running := b\<rparr>,
       callback_monitor := (callback_monitor s)\<lparr>running := b\<rparr>\<rparr>"

definition WebsocketSession :: websocket where
  "WebsocketSession =
     \<lparr>event_monitor = launch_consumer\<lparr>running := False\<rparr>,
      callback_monitor = launch_consumer\<lparr>running := False\<rparr>,
      m_callback = False, m_sink = False, m_target_url = [], m_gateway_url = [],
      m_connection = None, connections = [], stopped = False, m_work_thread = None,
      m_recv_pong_time = 0, send_ping_time = 0, run_close_time = 0, ping_thread = False,
      operation = Idle, leaving = Staying, attempts = 0, errors = 0, pings = 0,
      sent = [], received = []\<rparr>"

section \<open>init\<close>

text \<open>
  The URL that is dialled and the one the server behind a gateway is told: for a target
  behind a gateway the scheme ws or wss is replaced by http or https.
\<close>

definition session_urls :: "bytes \<Rightarrow> bytes \<Rightarrow> bytes \<times> bytes" where
  "session_urls target_url gateway_url =
     (if gateway_url = [] \<or> target_url = gateway_url then (target_url, target_url)
      else (if take 2 target_url = ascii ''ws'' then ascii ''http'' @ drop 2 target_url
            else target_url,
            gateway_url))"

text \<open>\<open>init\<close> of a fresh object; handlers are the events below, threads are created without failure.\<close>

definition init :: "bool \<Rightarrow> bytes \<Rightarrow> bytes \<Rightarrow> websocket \<Rightarrow> bool \<times> websocket" where
  "init sink target_url gateway_url s =
     (if length target_url < 2 then (False, s)
      else let (target, gateway) = session_urls target_url gateway_url
           in (True, set_running True s
                       \<lparr>m_target_url := target, m_gateway_url := gateway, m_sink := sink,
                        ping_thread := True\<rparr>))"

section \<open>Events and callbacks\<close>

definition connect :: "websocket \<Rightarrow> websocket" where
  "connect s = s\<lparr>event_monitor := put True (event_monitor s)\<rparr>"

definition close :: "websocket \<Rightarrow> websocket" where
  "close s = s\<lparr>event_monitor := put False (event_monitor s)\<rparr>"

definition on_connect :: "websocket \<Rightarrow> websocket" where
  "on_connect s = s\<lparr>callback_monitor := put True (callback_monitor s)\<rparr>"

definition on_close :: "websocket \<Rightarrow> websocket" where
  "on_close s =
     (if \<not> m_callback s then s
      else s\<lparr>m_callback := False, callback_monitor := put False (callback_monitor s)\<rparr>)"

definition on_error :: "websocket \<Rightarrow> websocket" where
  "on_error s = (if m_sink s then s\<lparr>errors := Suc (errors s)\<rparr> else s)"

definition is_open :: "websocket \<Rightarrow> nat \<Rightarrow> bool" where
  "is_open s i \<longleftrightarrow> i < length (connections s) \<and> phase (connections s ! i) = Open"

definition is_connected :: "websocket \<Rightarrow> bool" where
  "is_connected s \<longleftrightarrow> (case m_connection s of None \<Rightarrow> False | Some i \<Rightarrow> is_open s i)"

text \<open>\<open>send_message\<close>; \<open>accepts\<close> is what the library answers. \<open>None\<close> is a null pointer.\<close>

definition send_message :: "bool \<Rightarrow> bytes option \<Rightarrow> u32 \<Rightarrow> bool \<Rightarrow> websocket \<Rightarrow> bool \<times> websocket" where
  "send_message accepts data sz binary s =
     (case (m_connection s, data) of
        (Some i, Some d) \<Rightarrow>
          if \<not> m_running s \<or> sz = 0 then (False, s)
          else if \<not> accepts then (False, on_error s)
          else (True, s\<lparr>sent := sent s @ [(take (unat sz) d, binary)]\<rparr>)
      | _ \<Rightarrow> (False, s))"

section \<open>The work thread and the library's handlers\<close>

definition set_phase :: "nat \<Rightarrow> phase \<Rightarrow> websocket \<Rightarrow> websocket" where
  "set_phase i p s = s\<lparr>connections := (connections s)[i := (connections s ! i)\<lparr>phase := p\<rparr>]\<rparr>"

text \<open>
  \<open>real_connect\<close>: the library makes the connection, or refuses it with an error or an
  exception (\<open>Some True\<close>), or returns none without one (\<open>Some False\<close>).
\<close>

definition real_connect :: "bool option \<Rightarrow> websocket \<Rightarrow> websocket" where
  "real_connect refusal s =
     (let s = s\<lparr>stopped := False\<rparr>
      in case refusal of
           None \<Rightarrow>
             s\<lparr>connections := connections s @
                 [\<lparr>phase = Opening, url = m_gateway_url s,
                   origin = (if m_target_url s \<noteq> m_gateway_url s then Some (m_target_url s) else None)\<rparr>],
               m_connection := Some (length (connections s))\<rparr>
         | Some err \<Rightarrow> on_close (if err then on_error s else s))"

definition work_begin :: "bool option \<Rightarrow> websocket \<Rightarrow> websocket" where
  "work_begin refusal s =
     (real_connect refusal (s\<lparr>m_callback := True, attempts := Suc (attempts s)\<rparr>))
       \<lparr>m_work_thread := Some Running\<rparr>"

definition open_handler :: "nat \<Rightarrow> websocket \<Rightarrow> websocket" where
  "open_handler i s = (if m_connection s \<noteq> Some i then s else on_connect s)"

text \<open>The close, the fail and the interrupt handler are the same code.\<close>

definition close_handler :: "nat \<Rightarrow> websocket \<Rightarrow> websocket" where
  "close_handler i s =
     (if m_connection s \<noteq> Some i then s else on_close (s\<lparr>m_connection := None\<rparr>))"

definition message_handler :: "bytes \<Rightarrow> bool \<Rightarrow> websocket \<Rightarrow> websocket" where
  "message_handler packet binary s =
     (if m_sink s \<and> packet \<noteq> [] then s\<lparr>received := received s @ [(packet, binary)]\<rparr> else s)"

definition pong_handler :: "u64 \<Rightarrow> websocket \<Rightarrow> websocket" where
  "pong_handler now s = s\<lparr>m_recv_pong_time := now\<rparr>"

definition real_close :: "websocket \<Rightarrow> websocket" where
  "real_close s =
     (case m_connection s of
        None \<Rightarrow> s
      | Some i \<Rightarrow> (set_phase i Over s)\<lparr>m_connection := None\<rparr>)\<lparr>stopped := True\<rparr>"

text \<open>\<open>run\<close> returns.\<close>

definition work_done :: "websocket \<Rightarrow> bool" where
  "work_done s \<longleftrightarrow> stopped s \<or> list_all (\<lambda>c. phase c = Over) (connections s)"

definition work_gone :: "websocket \<Rightarrow> bool" where
  "work_gone s \<longleftrightarrow> m_work_thread s = None \<or> m_work_thread s = Some Finished"

section \<open>The event thread\<close>

definition do_connect :: "websocket \<Rightarrow> websocket" where
  "do_connect s =
     (if m_running s
      then if is_connected s then (real_close s)\<lparr>operation := Reconnect_join\<rparr>
           else s\<lparr>operation := Connect_join\<rparr>
      else on_close (s\<lparr>m_callback := True, operation := Idle\<rparr>))"

text \<open>What follows the join of the work thread: a new one.\<close>

definition do_connect_joined :: "websocket \<Rightarrow> websocket" where
  "do_connect_joined s =
     (if operation s = Reconnect_join then on_close s else s)
       \<lparr>m_work_thread := Some Starting, operation := Idle\<rparr>"

definition do_close :: "websocket \<Rightarrow> websocket" where
  "do_close s = (if is_connected s then real_close s else s)"

definition do_close_joined :: "websocket \<Rightarrow> websocket" where
  "do_close_joined s = on_close (s\<lparr>m_work_thread := None\<rparr>)"

definition event_thread :: "websocket \<Rightarrow> websocket option" where
  "event_thread s =
     (case operation s of
        Idle \<Rightarrow>
          (case consumer_next (event_monitor s) of
             None \<Rightarrow> None
           | Some c \<Rightarrow>
               Some (s\<lparr>event_monitor := c,
                       operation := (case place c of Busy x xs \<Rightarrow> Begin x | _ \<Rightarrow> Idle)\<rparr>))
      | Begin True \<Rightarrow> if mutex_free (callback_monitor s) then Some (do_connect s) else None
      | Begin False \<Rightarrow>
          Some ((do_close s)\<lparr>operation := (if is_connected s then Close_join else Idle)\<rparr>)
      | Close_join \<Rightarrow>
          if work_gone s \<and> mutex_free (callback_monitor s)
          then Some ((do_close_joined s)\<lparr>operation := Idle\<rparr>) else None
      | _ \<Rightarrow>
          if work_gone s \<and> mutex_free (callback_monitor s) then Some (do_connect_joined s) else None)"

definition callback_thread :: "websocket \<Rightarrow> websocket option" where
  "callback_thread s = map_option (\<lambda>c. s\<lparr>callback_monitor := c\<rparr>) (consumer_next (callback_monitor s))"

section \<open>The ping thread\<close>

datatype ping_action = Rest_closed | Rest | Give_up | Ping

text \<open>One turn of its loop on a running session at the time \<open>now\<close>, in milliseconds.\<close>

definition ping_action :: "u64 \<Rightarrow> websocket \<Rightarrow> ping_action" where
  "ping_action now s =
     (if \<not> is_connected s then Rest_closed
      else if now < send_ping_time s + 500 \<or> now < run_close_time s + 3000 then Rest
      else if send_ping_time s > m_recv_pong_time s + 5000 then Give_up
      else Ping)"

definition ping_turn :: "u64 \<Rightarrow> websocket \<Rightarrow> websocket" where
  "ping_turn now s =
     (if \<not> m_running s then s\<lparr>ping_thread := False\<rparr>
      else case ping_action now s of
             Rest_closed \<Rightarrow> s\<lparr>send_ping_time := 0, run_close_time := 0\<rparr>
           | Rest \<Rightarrow> s
           | Give_up \<Rightarrow> close (s\<lparr>run_close_time := now\<rparr>)
           | Ping \<Rightarrow>
               (if send_ping_time s = 0 then s\<lparr>m_recv_pong_time := now\<rparr> else s)
                 \<lparr>send_ping_time := now, pings := Suc (pings s)\<rparr>)"

section \<open>exit\<close>

definition exit_begin :: "websocket \<Rightarrow> websocket" where
  "exit_begin s = (set_running False s)\<lparr>leaving := Leave_close\<rparr>"

definition wake_events :: "websocket \<Rightarrow> websocket" where
  "wake_events s = s\<lparr>event_monitor := rouse (event_monitor s), leaving := Leave_events\<rparr>"

definition exit_close :: "websocket \<Rightarrow> websocket" where
  "exit_close s =
     (if is_connected s then (do_close s)\<lparr>leaving := Leave_join\<rparr> else wake_events s)"

definition exit_events :: "websocket \<Rightarrow> websocket" where
  "exit_events s =
     s\<lparr>callback_monitor := rouse (callback_monitor s), leaving := Leave_callbacks\<rparr>"

definition exit_end :: "websocket \<Rightarrow> websocket" where
  "exit_end s =
     s\<lparr>m_work_thread := None, event_monitor := (event_monitor s)\<lparr>items := []\<rparr>,
       callback_monitor := (callback_monitor s)\<lparr>items := []\<rparr>, m_callback := False,
       leaving := Left\<rparr>"

definition exit :: "websocket \<Rightarrow> websocket option" where
  "exit s =
     (case leaving s of
        Staying \<Rightarrow> if m_running s then Some (exit_begin s) else None
      | Leave_close \<Rightarrow> Some (exit_close s)
      | Leave_join \<Rightarrow>
          if work_gone s \<and> mutex_free (callback_monitor s)
          then Some (wake_events (do_close_joined s)) else None
      | Leave_events \<Rightarrow> if joinable_now (event_monitor s) then Some (exit_events s) else None
      | Leave_callbacks \<Rightarrow>
          if joinable_now (callback_monitor s) then Some (s\<lparr>leaving := Leave_ping\<rparr>) else None
      | Leave_ping \<Rightarrow> if \<not> ping_thread s then Some (s\<lparr>leaving := Leave_work\<rparr>) else None
      | Leave_work \<Rightarrow> if work_gone s then Some (exit_end s) else None
      | Left \<Rightarrow> None)"

section \<open>Steps\<close>

datatype websocket_event =
    Connect
  | Close
  | Send bool "bytes option" u32 bool bool
  | Event_thread
  | Callback_thread
  | Work_begin "bool option"
  | Work_end
  | Opened nat
  | Closed nat
  | Message bytes bool
  | Pong u64
  | Ping_turn u64
  | Notify_event
  | Notify_callback
  | Exit

text \<open>The library calls handlers on the work thread, inside \<open>run\<close>, until it is stopped.\<close>

definition in_run :: "websocket \<Rightarrow> bool" where
  "in_run s \<longleftrightarrow> m_work_thread s = Some Running \<and> \<not> stopped s"

definition has_phase :: "websocket \<Rightarrow> nat \<Rightarrow> phase \<Rightarrow> bool" where
  "has_phase s i p \<longleftrightarrow> i < length (connections s) \<and> phase (connections s ! i) = p"

definition websocket_next :: "websocket_event \<Rightarrow> websocket \<Rightarrow> websocket option" where
  "websocket_next e s =
     (case e of
        Connect \<Rightarrow> if mutex_free (event_monitor s) then Some (connect s) else None
      | Close \<Rightarrow> if mutex_free (event_monitor s) then Some (close s) else None
      | Send accepts d sz b r \<Rightarrow>
          if fst (send_message accepts d sz b s) = r then Some (snd (send_message accepts d sz b s))
          else None
      | Event_thread \<Rightarrow> event_thread s
      | Callback_thread \<Rightarrow> callback_thread s
      | Work_begin refusal \<Rightarrow>
          if m_work_thread s = Some Starting \<and> mutex_free (callback_monitor s)
          then Some (work_begin refusal s) else None
      | Work_end \<Rightarrow>
          if m_work_thread s = Some Running \<and> work_done s
          then Some (s\<lparr>m_work_thread := Some Finished\<rparr>) else None
      | Opened i \<Rightarrow>
          if in_run s \<and> has_phase s i Opening \<and> mutex_free (callback_monitor s)
          then Some (open_handler i (set_phase i Open s)) else None
      | Closed i \<Rightarrow>
          if in_run s \<and> (has_phase s i Opening \<or> has_phase s i Open) \<and> mutex_free (callback_monitor s)
          then Some (close_handler i (set_phase i Over s)) else None
      | Message d b \<Rightarrow> if in_run s then Some (message_handler d b s) else None
      | Pong now \<Rightarrow> if in_run s then Some (pong_handler now s) else None
      | Ping_turn now \<Rightarrow>
          if ping_thread s \<and> mutex_free (event_monitor s) then Some (ping_turn now s) else None
      | Notify_event \<Rightarrow>
          if 0 < wakeups (event_monitor s)
          then Some (s\<lparr>event_monitor := notify_one (event_monitor s)\<rparr>) else None
      | Notify_callback \<Rightarrow>
          if 0 < wakeups (callback_monitor s)
          then Some (s\<lparr>callback_monitor := notify_one (callback_monitor s)\<rparr>) else None
      | Exit \<Rightarrow> exit s)"

definition websocket_step :: "websocket \<Rightarrow> websocket_event \<Rightarrow> websocket \<Rightarrow> bool" where
  "websocket_step s e t \<longleftrightarrow> websocket_next e s = Some t"

interpretation websocket_exec: executable_steps websocket_step websocket_next
  by unfold_locales (rule websocket_step_def)

section \<open>Every attempt is closed once\<close>

definition reports :: "websocket \<Rightarrow> bool list" where
  "reports s = puts (callback_monitor s)"

definition last_connect :: "websocket \<Rightarrow> bool" where
  "last_connect s \<longleftrightarrow> reports s \<noteq> [] \<and> last (reports s)"

definition closing :: "websocket \<Rightarrow> bool" where
  "closing s \<longleftrightarrow> operation s = Reconnect_join \<or> operation s = Close_join"

definition balanced :: "websocket \<Rightarrow> bool" where
  "balanced s \<longleftrightarrow>
     count_list (reports s) False + (if m_callback s then 1 else 0) = attempts s \<and>
     successively (\<lambda>a b. \<not> (a \<and> b)) (reports s) \<and>
     (last_connect s \<longrightarrow> m_callback s)"

definition attached :: "websocket \<Rightarrow> bool" where
  "attached s \<longleftrightarrow>
     (case m_connection s of
        None \<Rightarrow> m_callback s \<longrightarrow> closing s
      | Some i \<Rightarrow> m_callback s \<and> \<not> closing s \<and> m_work_thread s = Some Running \<and> \<not> stopped s \<and>
          i < length (connections s) \<and> phase (connections s ! i) \<noteq> Over \<and>
          (phase (connections s ! i) = Opening \<longrightarrow> \<not> last_connect s))"

definition threads_ok :: "websocket \<Rightarrow> bool" where
  "threads_ok s \<longleftrightarrow>
     (closing s \<longrightarrow> m_callback s \<and> m_work_thread s \<noteq> Some Starting \<and> m_work_thread s \<noteq> None) \<and>
     (m_work_thread s = Some Starting \<longrightarrow> \<not> m_callback s)"

definition session_ok :: "websocket \<Rightarrow> bool" where
  "session_ok s \<longleftrightarrow> (m_running s \<longrightarrow> balanced s \<and> attached s \<and> threads_ok s)"

lemmas websocket_defs = session_ok_def balanced_def attached_def threads_ok_def closing_def
  last_connect_def reports_def m_running_def

lemma session_ok_cong:
  assumes "reports t = reports s" "m_callback t = m_callback s" "attempts t = attempts s"
    "m_connection t = m_connection s" "connections t = connections s"
    "m_work_thread t = m_work_thread s" "stopped t = stopped s"
    "closing t = closing s" "m_running t \<Longrightarrow> m_running s"
  shows "session_ok s \<Longrightarrow> session_ok t"
proof -
  have "balanced t = balanced s" "attached t = attached s" "threads_ok t = threads_ok s"
    by (simp_all only: balanced_def attached_def threads_ok_def last_connect_def assms(1-8))
  with assms(9) show "session_ok s \<Longrightarrow> session_ok t" by (simp add: session_ok_def)
qed

text \<open>The events that only touch the monitors, the logs or the ping thread.\<close>

definition is_minor :: "websocket_event \<Rightarrow> bool" where
  "is_minor e \<longleftrightarrow>
     (case e of
        Connect \<Rightarrow> True | Close \<Rightarrow> True | Send _ _ _ _ _ \<Rightarrow> True | Callback_thread \<Rightarrow> True
      | Message _ _ \<Rightarrow> True | Pong _ \<Rightarrow> True | Ping_turn _ \<Rightarrow> True | Notify_event \<Rightarrow> True
      | Notify_callback \<Rightarrow> True | _ \<Rightarrow> False)"

lemma consumer_next_frame:
  "consumer_next c = Some d \<Longrightarrow> running d = running c \<and> puts d = puts c"
  by (erule consumer_next_cases) auto

lemma minor_frame:
  assumes "websocket_step s e t" "is_minor e"
  shows "reports t = reports s" "m_callback t = m_callback s" "attempts t = attempts s"
    "m_connection t = m_connection s" "connections t = connections s"
    "m_work_thread t = m_work_thread s" "stopped t = stopped s"
    "operation t = operation s" "m_running t = m_running s"
  using assms
  by (auto simp: websocket_step_def websocket_next_def is_minor_def connect_def close_def
      send_message_def on_error_def callback_thread_def message_handler_def pong_handler_def
      ping_turn_def put_def notify_one_def reports_def m_running_def
      split: websocket_event.split_asm if_split_asm option.split_asm ping_action.split_asm
      dest: consumer_next_frame)

lemma session_ok_minor: "websocket_step s e t \<Longrightarrow> is_minor e \<Longrightarrow> session_ok s \<Longrightarrow> session_ok t"
  by (rule session_ok_cong [of t s]) (simp_all add: minor_frame closing_def)

text \<open>The others, one by one.\<close>

lemma successively_snoc:
  "successively P (xs @ [x]) \<longleftrightarrow> successively P xs \<and> (xs \<noteq> [] \<longrightarrow> P (last xs) x)"
  by (auto simp: successively_append_iff)

lemma session_ok_work_begin:
  assumes "session_ok s" "m_work_thread s = Some Starting"
  shows "session_ok (work_begin refusal s)"
  using assms
  by (cases refusal)
    (auto simp: websocket_defs work_begin_def real_connect_def on_close_def on_error_def put_def
      successively_snoc nth_append Let_def split: option.split_asm)

lemma session_ok_work_end:
  assumes "session_ok s" "work_done s" "m_work_thread s = Some Running"
  shows "session_ok (s\<lparr>m_work_thread := Some Finished\<rparr>)"
proof (cases "m_connection s")
  case None
  with assms show ?thesis by (auto simp: websocket_defs)
next
  case (Some i)
  with assms have "\<not> m_running s"
    by (auto simp: session_ok_def attached_def work_done_def list_all_iff)
  then show ?thesis by (simp add: session_ok_def m_running_def)
qed

lemma session_ok_opened:
  assumes "session_ok s" "has_phase s i Opening"
  shows "session_ok (open_handler i (set_phase i Open s))"
proof (cases "m_connection s = Some i")
  case True
  with assms show ?thesis
    by (auto simp: websocket_defs open_handler_def set_phase_def on_connect_def put_def has_phase_def
        successively_snoc)
next
  case False
  with assms show ?thesis
    by (cases "m_connection s")
      (auto simp: websocket_defs open_handler_def set_phase_def has_phase_def)
qed

lemma session_ok_closed:
  assumes "session_ok s"
  shows "session_ok (close_handler i (set_phase i Over s))"
proof (cases "m_connection s = Some i")
  case True
  with assms show ?thesis
    by (auto simp: websocket_defs close_handler_def set_phase_def on_close_def put_def successively_snoc)
next
  case False
  with assms show ?thesis
    by (cases "m_connection s") (auto simp: websocket_defs close_handler_def set_phase_def)
qed

lemma session_ok_real_close:
  assumes "session_ok s" "is_connected s" "p = Reconnect_join \<or> p = Close_join"
  shows "session_ok (real_close s\<lparr>operation := p\<rparr>)"
  using assms
  by (cases "m_connection s")
    (auto simp: websocket_defs is_connected_def real_close_def set_phase_def)

lemma session_ok_close_joined:
  assumes "session_ok s" "operation s = Close_join" "work_gone s"
  shows "session_ok (do_close_joined s\<lparr>operation := Idle\<rparr>)"
  using assms
  by (auto simp: websocket_defs do_close_joined_def on_close_def put_def successively_snoc work_gone_def
      split: option.split_asm)

lemma session_ok_connect_joined:
  assumes "session_ok s" "operation s = Reconnect_join \<or> operation s = Connect_join" "work_gone s"
  shows "session_ok (do_connect_joined s)"
  using assms
  by (auto simp: websocket_defs do_connect_joined_def on_close_def put_def successively_snoc work_gone_def
      split: option.split_asm)

lemma session_ok_do_connect: "session_ok s \<Longrightarrow> operation s = Begin True \<Longrightarrow> session_ok (do_connect s)"
proof (cases "m_running s \<and> \<not> is_connected s")
  case True
  assume "session_ok s" "operation s = Begin True"
  with True show ?thesis
    by (intro session_ok_cong [of "do_connect s" s])
      (simp_all add: do_connect_def reports_def closing_def m_running_def)
next
  case False
  assume "session_ok s" "operation s = Begin True"
  with False show ?thesis
    by (cases "m_running s")
      (auto simp: do_connect_def session_ok_real_close, simp add: session_ok_def m_running_def on_close_def)
qed

lemma session_ok_event:
  assumes "event_thread s = Some t" "session_ok s"
  shows "session_ok t"
proof (cases "operation s")
  case Idle
  with assms obtain c where c: "consumer_next (event_monitor s) = Some c"
    "t = s\<lparr>event_monitor := c, operation := (case place c of Busy x xs \<Rightarrow> Begin x | _ \<Rightarrow> Idle)\<rparr>"
    by (auto simp: event_thread_def split: option.split_asm)
  have "closing t = closing s" using Idle by (simp add: c(2) closing_def split: place.split)
  moreover have "m_running t = m_running s"
    using consumer_next_frame [OF c(1)] by (simp add: c(2) m_running_def)
  ultimately show ?thesis
    by (intro session_ok_cong [OF _ _ _ _ _ _ _ _ _ assms(2)]) (simp_all add: c(2) reports_def)
next
  case (Begin b)
  show ?thesis
  proof (cases "b \<or> is_connected s")
    case True
    with Begin assms show ?thesis
      by (cases b) (auto simp: event_thread_def do_close_def session_ok_do_connect session_ok_real_close
          split: if_split_asm)
  next
    case False
    with Begin assms(1) have t: "t = s\<lparr>operation := Idle\<rparr>"
      by (auto simp: event_thread_def do_close_def)
    show ?thesis
      by (rule session_ok_cong [OF _ _ _ _ _ _ _ _ _ assms(2)])
        (use Begin in \<open>simp_all add: t reports_def closing_def m_running_def\<close>)
  qed
qed (use assms in \<open>auto simp: event_thread_def session_ok_close_joined session_ok_connect_joined
      split: if_split_asm\<close>)

lemma real_close_fields [simp]:
  "event_monitor (real_close s) = event_monitor s" "callback_monitor (real_close s) = callback_monitor s"
  "leaving (real_close s) = leaving s" "m_callback (real_close s) = m_callback s"
  "ping_thread (real_close s) = ping_thread s" "m_work_thread (real_close s) = m_work_thread s"
  by (simp_all add: real_close_def set_phase_def split: option.split)

lemma ws_on_close_fields [simp]:
  "event_monitor (on_close s) = event_monitor s" "leaving (on_close s) = leaving s"
  "callback_monitor (on_close s) =
     (if m_callback s then put False (callback_monitor s) else callback_monitor s)"
  "ping_thread (on_close s) = ping_thread s"
  by (simp_all add: on_close_def)

lemma exit_running: "exit s = Some t \<Longrightarrow> \<not> m_running t \<or> (m_running s \<and> leaving s \<noteq> Staying)"
  by (cases "leaving s")
    (auto simp: exit_def exit_begin_def set_running_def m_running_def exit_close_def wake_events_def
      do_close_def do_close_joined_def exit_events_def exit_end_def split: if_split_asm)

text \<open>The monitors, and the order of \<open>exit\<close>.\<close>

definition monitors_ok :: "websocket \<Rightarrow> bool" where
  "monitors_ok s \<longleftrightarrow> consumer_ok (event_monitor s) \<and> consumer_ok (callback_monitor s) \<and>
     (leaving s \<notin> {Staying, Leave_close, Leave_join, Leave_events} \<longrightarrow> joinable_now (event_monitor s)) \<and>
     (leaving s \<in> {Leave_ping, Leave_work, Left} \<longrightarrow> joinable_now (callback_monitor s)) \<and>
     (leaving s \<noteq> Staying \<longrightarrow> \<not> m_running s)"

lemma ws_monitors_ok_exit:
  assumes "exit s = Some t" "monitors_ok s"
  shows "monitors_ok t"
proof (cases "leaving s")
  case Leave_join
  with assms show ?thesis
    by (auto simp: exit_def monitors_ok_def do_close_joined_def wake_events_def consumer_ok_put
        consumer_ok_rouse m_running_def split: if_split_asm)
qed (use assms in \<open>auto simp: exit_def monitors_ok_def exit_begin_def set_running_def exit_close_def
      do_close_def wake_events_def exit_events_def exit_end_def consumer_ok_stop consumer_ok_rouse
      consumer_ok_clear m_running_def split: if_split_asm\<close>)

lemma monitors_ok_cong:
  assumes "consumer_ok (event_monitor t)" "consumer_ok (callback_monitor t)"
    "running (event_monitor t) = running (event_monitor s)"
    "joinable_now (event_monitor s) \<Longrightarrow> joinable_now (event_monitor t)"
    "joinable_now (callback_monitor s) \<Longrightarrow> joinable_now (callback_monitor t)"
    "leaving t = leaving s"
  shows "monitors_ok s \<Longrightarrow> monitors_ok t"
  using assms by (auto simp: monitors_ok_def m_running_def)

lemma monitors_change:
  assumes "websocket_step s e t" "e \<noteq> Exit"
  shows "consumer_change (event_monitor s) (event_monitor t)"
    "consumer_change (callback_monitor s) (callback_monitor t)" "leaving t = leaving s"
proof -
  have "consumer_change (event_monitor s) (event_monitor t) \<and>
      consumer_change (callback_monitor s) (callback_monitor t) \<and> leaving t = leaving s"
  proof (cases "e = Event_thread")
    case True
    with assms(1) show ?thesis
      by (auto simp: websocket_step_def websocket_next_def event_thread_def do_connect_def do_close_def
          do_connect_joined_def do_close_joined_def consumer_change_intros
          split: if_split_asm option.split_asm operation.split_asm bool.split_asm)
  next
    case False
    with assms show ?thesis
      by (cases e)
        (auto simp: websocket_step_def websocket_next_def connect_def close_def send_message_def
          on_error_def callback_thread_def work_begin_def real_connect_def open_handler_def
          on_connect_def set_phase_def close_handler_def message_handler_def pong_handler_def
          ping_turn_def consumer_change_intros Let_def
          split: if_split_asm option.split_asm option.split ping_action.split)
  qed
  then show "consumer_change (event_monitor s) (event_monitor t)"
    "consumer_change (callback_monitor s) (callback_monitor t)" "leaving t = leaving s" by auto
qed

lemma ws_monitors_ok_step:
  assumes "websocket_step s e t" "monitors_ok s"
  shows "monitors_ok t"
proof (cases "e = Exit")
  case True
  with assms show ?thesis by (simp add: websocket_step_def websocket_next_def ws_monitors_ok_exit)
next
  case False
  note ch = monitors_change [OF assms(1) False]
  show ?thesis
    by (rule monitors_ok_cong [OF _ _ _ _ _ _ assms(2)])
      (use ch consumer_change_ok [OF ch(1)] consumer_change_ok [OF ch(2)] assms(2) in
        \<open>simp_all add: monitors_ok_def\<close>)
qed

interpretation monitors_ok: step_invariant websocket_step monitors_ok
  by unfold_locales (rule ws_monitors_ok_step)

lemma ws_session_ok_step:
  assumes "websocket_step s e t" "session_ok s" "monitors_ok s"
  shows "session_ok t"
proof (cases "is_minor e")
  case True
  with assms show ?thesis by (simp add: session_ok_minor)
next
  case False
  show ?thesis
  proof (cases e)
    case Event_thread
    with assms show ?thesis by (simp add: websocket_step_def websocket_next_def session_ok_event)
  next
    case Exit
    with assms have "\<not> m_running t"
      using exit_running [of s t] by (auto simp: websocket_step_def websocket_next_def monitors_ok_def)
    then show ?thesis by (simp add: session_ok_def)
  qed (use assms False in \<open>auto simp: websocket_step_def websocket_next_def is_minor_def
        session_ok_work_begin session_ok_work_end session_ok_opened session_ok_closed
        split: if_split_asm\<close>)
qed

definition websocket_ok :: "websocket \<Rightarrow> bool" where
  "websocket_ok s \<longleftrightarrow> session_ok s \<and> monitors_ok s"

interpretation websocket_ok: step_invariant websocket_step websocket_ok
  by unfold_locales (auto simp: websocket_ok_def intro: ws_session_ok_step ws_monitors_ok_step)

lemma init_ok:
  assumes "init sink target_url gateway_url WebsocketSession = (True, s)"
  shows "websocket_ok s"
  using assms queue_ok_init awake_ok_init
  by (auto simp: init_def websocket_ok_def websocket_defs monitors_ok_def consumer_ok_def
      set_running_def WebsocketSession_def launch_consumer_def split: if_split_asm prod.split_asm)

section \<open>Waiting for the peer\<close>

text \<open>
  The connection is open and the library's \<open>run\<close> goes on; what waits for the work thread
  waits for the peer.
\<close>

definition held_open :: "websocket \<Rightarrow> bool" where
  "held_open s \<longleftrightarrow> is_connected s \<and> m_work_thread s = Some Running \<and> \<not> stopped s"

definition blocked :: "websocket \<Rightarrow> bool" where
  "blocked s \<longleftrightarrow> held_open s \<and> operation s = Connect_join"

definition lingering :: "websocket \<Rightarrow> bool" where
  "lingering s \<longleftrightarrow> held_open s \<and> leaving s = Leave_work \<and> operation s = Idle \<and>
     joinable_now (event_monitor s)"

lemma held_open_cong:
  "m_connection t = m_connection s \<Longrightarrow> connections t = connections s \<Longrightarrow>
    m_work_thread t = m_work_thread s \<Longrightarrow> stopped t = stopped s \<Longrightarrow> held_open t = held_open s"
  by (simp add: held_open_def is_connected_def is_open_def split: option.split)

text \<open>Every event but a close by the peer, the event thread and \<open>exit\<close> keeps it open.\<close>

lemma held_open_step:
  assumes "websocket_step s e t" "held_open s" "\<forall>i. e \<noteq> Closed i" "e \<noteq> Event_thread" "e \<noteq> Exit"
  shows "held_open t \<and> operation t = operation s"
proof (cases "is_minor e")
  case True
  with assms(1,2) show ?thesis
    using held_open_cong [of t s] by (simp add: minor_frame)
next
  case False
  with assms show ?thesis
    by (cases e)
      (auto simp: websocket_step_def websocket_next_def is_minor_def held_open_def is_connected_def
        is_open_def work_done_def open_handler_def set_phase_def on_connect_def has_phase_def
        list_all_length nth_list_update split: if_split_asm option.split_asm)
qed

lemma blocked_step:
  assumes "websocket_step s e t" "blocked s" "\<forall>i. e \<noteq> Closed i" "e \<noteq> Exit"
  shows "blocked t"
proof (cases "e = Event_thread")
  case True
  with assms show ?thesis
    by (auto simp: websocket_step_def websocket_next_def event_thread_def blocked_def held_open_def
        work_gone_def)
next
  case False
  with assms held_open_step [OF assms(1)] show ?thesis by (simp add: blocked_def)
qed

lemma lingering_step:
  assumes "websocket_step s e t" "lingering s" "\<forall>i. e \<noteq> Closed i"
  shows "lingering t"
proof (cases "e = Event_thread \<or> e = Exit")
  case True
  with assms show ?thesis
    by (auto simp: websocket_step_def websocket_next_def event_thread_def exit_def lingering_def
        held_open_def work_gone_def split: option.split_asm dest: joinable_thread)
next
  case False
  with assms held_open_step [OF assms(1)] monitors_change [OF assms(1)] show ?thesis
    using consumer_change_ok(3) [of "event_monitor s" "event_monitor t"]
    by (simp add: lingering_def)
qed

definition no_peer_close :: "websocket_event \<Rightarrow> bool" where
  "no_peer_close e \<longleftrightarrow> (\<forall>i. e \<noteq> Closed i)"

lemma run_blocked:
  "run websocket_step s es t \<Longrightarrow> list_all (\<lambda>e. no_peer_close e \<and> e \<noteq> Exit) es \<Longrightarrow> blocked s \<Longrightarrow> blocked t"
  by (induction rule: run.induct) (auto simp: no_peer_close_def intro: blocked_step)

lemma run_lingering:
  "run websocket_step s es t \<Longrightarrow> list_all no_peer_close es \<Longrightarrow> lingering s \<Longrightarrow> lingering t"
  by (induction rule: run.induct) (auto simp: no_peer_close_def intro: lingering_step)

section \<open>The ping timer\<close>

lemma later_than:
  assumes "unat (a :: u64) < 2 ^ 63"
  shows "(now < a + 500) = (unat now < unat a + 500)" "(now < a + 3000) = (unat now < unat a + 3000)"
    "(a + 5000 < now) = (unat a + 5000 < unat now)"
proof -
  have "unat (a + 500) = unat a + 500" "unat (a + 3000) = unat a + 3000"
    "unat (a + 5000) = unat a + 5000"
    using assms by (simp_all add: unat_word_ariths)
  then show "(now < a + 500) = (unat now < unat a + 500)" "(now < a + 3000) = (unat now < unat a + 3000)"
    "(a + 5000 < now) = (unat a + 5000 < unat now)"
    by (simp_all add: word_less_nat_alt)
qed

text \<open>The turns of the ping thread at the times \<open>ts\<close>, and the closes it has asked for.\<close>

definition turns :: "u64 list \<Rightarrow> websocket \<Rightarrow> websocket" where
  "turns ts s = fold ping_turn ts s"

definition closes_asked :: "websocket \<Rightarrow> nat" where
  "closes_asked s = count_list (puts (event_monitor s)) False"

lemma ping_turn_fields [simp]:
  "m_connection (ping_turn now s) = m_connection s" "connections (ping_turn now s) = connections s"
  "m_running (ping_turn now s) = m_running s" "closes_asked s \<le> closes_asked (ping_turn now s)"
  by (auto simp: ping_turn_def close_def m_running_def put_def closes_asked_def split: ping_action.split)

lemma ping_turn_connected [simp]: "is_connected (ping_turn now s) = is_connected s"
  by (simp add: is_connected_def is_open_def split: option.split)

lemma closes_asked_turns: "closes_asked s \<le> closes_asked (turns ts s)"
  unfolding turns_def
  by (induction ts arbitrary: s) (auto intro: order_trans [OF ping_turn_fields(4)])

text \<open>The times of the turns: never decreasing, at most \<open>g\<close> apart.\<close>

definition steady :: "nat \<Rightarrow> u64 list \<Rightarrow> bool" where
  "steady g ts \<longleftrightarrow> successively (\<lambda>a b. unat a \<le> unat b \<and> unat b \<le> unat a + g) ts"

lemma silent_turns:
  assumes "steady g (t # ts)" "is_connected s" "m_running s" "run_close_time s = 0"
    "m_recv_pong_time s = t0" "send_ping_time s \<noteq> 0" "unat (last (t # ts)) < 2 ^ 63"
    "unat (send_ping_time s) \<le> unat t" "unat t < unat (send_ping_time s) + 500"
    "unat t0 < 2 ^ 63" "3000 \<le> unat t"
    "unat (send_ping_time s) \<le> unat t0 + 5500 + g"
    "closes_asked (turns ts s) = closes_asked s"
  shows "unat (last (t # ts)) < unat t0 + 6000 + g"
  using assms
proof (induction ts arbitrary: s t)
  case Nil
  then show ?case by simp
next
  case (Cons u ts)
  have st: "steady g (u # ts)" "unat t \<le> unat u" "unat u \<le> unat t + g"
    using Cons.prems(1) by (auto simp: steady_def)
  have le: "unat x \<le> unat (last (x # xs))" if "steady g (x # xs)" for x and xs :: "u64 list"
    using that by (induction xs arbitrary: x) (auto simp: steady_def intro: order_trans)
  have bound: "unat u < 2 ^ 63" "unat (send_ping_time s) < 2 ^ 63"
    using le [OF st(1)] Cons.prems(7,8) st(2) by auto
  have l: "unat (last (t # u # ts)) = unat (last (u # ts))" by simp
  have asked: "closes_asked (ping_turn u s) = closes_asked s"
    "closes_asked (turns ts (ping_turn u s)) = closes_asked (ping_turn u s)"
    using Cons.prems(13) closes_asked_turns [of "ping_turn u s" ts] ping_turn_fields(4) [of s u]
    by (auto simp: turns_def)
  have late: "(u < send_ping_time s + 500) = (unat u < unat (send_ping_time s) + 500)"
    "(t0 + 5000 < send_ping_time s) = (unat t0 + 5000 < unat (send_ping_time s))"
    using later_than bound Cons.prems(10) by blast+
  have early: "\<not> u < run_close_time s + 3000"
    using Cons.prems(4,11) st(2) by (simp add: word_less_nat_alt)
  show ?case
  proof (cases "unat u < unat (send_ping_time s) + 500")
    case True
    then have "ping_turn u s = s"
      using Cons.prems(2,3) late by (simp add: ping_turn_def ping_action_def)
    with Cons.IH [OF st(1), of s] Cons.prems st True asked show ?thesis by (simp add: turns_def)
  next
    case False
    have no: "\<not> unat t0 + 5000 < unat (send_ping_time s)"
    proof
      assume "unat t0 + 5000 < unat (send_ping_time s)"
      with False late early Cons.prems(2,3,5) have "ping_action u s = Give_up"
        by (simp add: ping_action_def)
      with Cons.prems(3) asked(1) show False
        by (simp add: ping_turn_def close_def put_def closes_asked_def)
    qed
    with False late early Cons.prems(2,3,5) have "ping_action u s = Ping"
      by (simp add: ping_action_def)
    with Cons.prems(3,6) have p: "ping_turn u s = s\<lparr>send_ping_time := u, pings := Suc (pings s)\<rparr>"
      by (simp add: ping_turn_def)
    have "u \<noteq> 0" using Cons.prems(11) st(2) by (auto simp: unat_eq_zero)
    have "unat u \<le> unat t0 + 5500 + g" using no st(3) Cons.prems(9) by linarith
    with Cons.IH [OF st(1), of "ping_turn u s"] Cons.prems st asked \<open>u \<noteq> 0\<close> show ?thesis
      using ping_turn_connected [of u s] ping_turn_fields(3) [of u s] by (simp add: p)
  qed
qed

section \<open>Demonstrations\<close>

definition demo_session :: websocket where
  "demo_session = snd (init True (ascii ''ws://a'') (ascii ''ws://b'') WebsocketSession)"

lemma ws_demo_init: "init True (ascii ''ws://a'') (ascii ''ws://b'') WebsocketSession = (True, demo_session)"
  by (simp add: demo_session_def init_def split: prod.split)

definition events :: "nat \<Rightarrow> websocket_event list" where
  "events n = replicate n Event_thread"

definition demo_connect :: "websocket_event list" where
  "demo_connect = Connect # events 6 @ [Work_begin None]"

definition demo_close :: "websocket_event list" where
  "demo_close = demo_connect @ [Opened 0, Message [1] True, Close] @ events 7 @ [Work_end, Event_thread]"

section \<open>Properties\<close>

text \<open>
  C26: while the session runs, its reports balance. The closes reported and the one still
  due are together the connection attempts made, so that every attempt is closed
  exactly once, failed ones included; between two connects there is a close; and the
  callbacks made are a prefix of the reports.
\<close>

theorem websocket_reports_balance:
  assumes "init sink target_url gateway_url WebsocketSession = (True, s)"
    and "run websocket_step s es t" and "m_running t"
  shows "count_list (reports t) False + (if m_callback t then 1 else 0) = attempts t \<and>
    successively (\<lambda>a b. \<not> (a \<and> b)) (reports t) \<and>
    prefix (handled (callback_monitor t)) (reports t) \<and>
    (m_connection t \<noteq> None \<longrightarrow> m_callback t)"
proof -
  have "websocket_ok t" using websocket_ok.run_inv [OF assms(2) init_ok [OF assms(1)]] .
  with assms(3) show ?thesis
    by (auto simp: websocket_ok_def session_ok_def balanced_def attached_def monitors_ok_def
        consumer_ok_def queue_ok_def reports_def)
qed

theorem websocket_reports_balance_witness:
  "\<exists>t. run websocket_step demo_session demo_close t \<and> reports t = [True, False] \<and> attempts t = 1 \<and>
     prefix (handled (callback_monitor t)) (reports t)"
proof -
  have "\<exists>t. run websocket_step demo_session demo_close t \<and>
      (reports t = [True, False] \<and> attempts t = 1 \<and> m_running t)"
    by (rule websocket_exec.exec_ex) code_simp
  with websocket_reports_balance [OF ws_demo_init] show ?thesis by blast
qed

text \<open>
  A second \<open>connect\<close> while the first is being made can block the session. It joins
  the work thread, which returns when the connection has ended; if the connection opens
  instead, the event thread waits for the peer to close it, and until then no \<open>close\<close>
  (and no ping timeout, which asks for one) has any effect.
\<close>

theorem websocket_second_connect_blocks:
  "\<exists>es s. run websocket_step demo_session es s \<and> m_running s \<and> is_connected s \<and>
     (\<forall>fs t. run websocket_step s fs t \<and> list_all (\<lambda>e. no_peer_close e \<and> e \<noteq> Exit) fs \<longrightarrow>
        is_connected t \<and> operation t = Connect_join \<and> event_thread t = None)"
proof -
  have "\<exists>s. run websocket_step demo_session
      (demo_connect @ Connect # events 7 @ [Opened 0]) s \<and> (m_running s \<and> blocked s)"
    by (rule websocket_exec.exec_ex) code_simp
  then obtain s where s: "run websocket_step demo_session
      (demo_connect @ Connect # events 7 @ [Opened 0]) s" "m_running s" "blocked s" by blast
  have "is_connected t \<and> operation t = Connect_join \<and> event_thread t = None"
    if "run websocket_step s fs t" "list_all (\<lambda>e. no_peer_close e \<and> e \<noteq> Exit) fs" for fs t
    using run_blocked [OF that s(3)]
    by (simp add: blocked_def held_open_def event_thread_def work_gone_def)
  with s show ?thesis unfolding blocked_def held_open_def by blast
qed

text \<open>
  \<open>exit\<close> can wait for the peer. It closes a connection that is open when it begins; one
  that opens afterwards is not closed, its work thread is joined all the same, and \<open>exit\<close>
  returns only after the peer has closed the connection.
\<close>

theorem websocket_exit_waits_for_peer:
  "\<exists>es s. run websocket_step demo_session es s \<and> leaving s = Leave_work \<and> is_connected s \<and>
     (\<forall>fs t. run websocket_step s fs t \<and> list_all no_peer_close fs \<longrightarrow> leaving t = Leave_work)"
proof -
  let ?es = "demo_connect @ [Exit, Exit, Opened 0] @ events 3 @
    [Exit, Callback_thread, Exit, Ping_turn 7, Exit]"
  have "\<exists>s. run websocket_step demo_session ?es s \<and> lingering s"
    by (rule websocket_exec.exec_ex) code_simp
  then obtain s where s: "run websocket_step demo_session ?es s" "lingering s" by blast
  have "leaving t = Leave_work" if "run websocket_step s fs t" "list_all no_peer_close fs" for fs t
    using run_lingering [OF that s(2)] by (simp add: lingering_def)
  with s show ?thesis unfolding lingering_def held_open_def by blast
qed

text \<open>
  C28: the ping timer. It asks for a close only of an open connection whose last pong is
  more than 5.5 seconds old; and a connection that was pinged at \<open>t0\<close> and stays open and
  silent is asked to close within 6 seconds and the pause between two turns of the
  loop (times before the year 292 million).
\<close>

theorem ping_timeout:
  assumes "unat now < 2 ^ 63" and "unat (m_recv_pong_time u) < 2 ^ 63" and "unat (send_ping_time u) < 2 ^ 63"
    and "steady g (t0 # ts)" and "is_connected s" and "m_running s" and "run_close_time s = 0"
    and "m_recv_pong_time s = t0" and "send_ping_time s = t0" and "3000 \<le> unat t0"
    and "unat (last (t0 # ts)) < 2 ^ 63" and "unat t0 < 2 ^ 63"
    and "unat t0 + 6000 + g \<le> unat (last (t0 # ts))"
  shows "(ping_action now u = Give_up \<longrightarrow>
       is_connected u \<and> unat (m_recv_pong_time u) + 5500 < unat now) \<and>
    closes_asked s < closes_asked (turns ts s)"
proof -
  have "ping_action now u = Give_up \<Longrightarrow> is_connected u \<and> unat (m_recv_pong_time u) + 5500 < unat now"
    using later_than [OF assms(2)] later_than [OF assms(3)]
    by (auto simp: ping_action_def split: if_split_asm)
  moreover have "closes_asked (turns ts s) \<noteq> closes_asked s"
  proof
    assume "closes_asked (turns ts s) = closes_asked s"
    moreover have "t0 \<noteq> 0" using assms(10) by (auto simp: unat_eq_zero)
    ultimately show False
      using silent_turns [of g t0 ts s t0] assms by simp
  qed
  ultimately show ?thesis using closes_asked_turns [of s ts] by simp
qed

definition demo_open :: websocket where
  "demo_open = the (exec websocket_next (demo_connect @ [Opened 0, Ping_turn 10000]) demo_session)"

theorem ping_timeout_witness:
  "closes_asked demo_open <
     closes_asked (turns (map of_nat [10400, 10800, 11200, 11600, 12000, 12400, 12800, 13200, 13600, 14000,
       14400, 14800, 15200, 15600, 16000, 16400]) demo_open)"
proof -
  have s: "is_connected demo_open" "m_running demo_open" "run_close_time demo_open = 0"
    "m_recv_pong_time demo_open = 10000" "send_ping_time demo_open = 10000"
    by code_simp+
  show ?thesis
    by (rule ping_timeout [THEN conjunct2, of 0 demo_open 400 10000])
      (simp_all add: s steady_def)
qed

end
