(* ===== verification/Websocket_Client.thy ===== *)
theory Websocket_Client
  imports Websocket_Session
begin

text \<open>
  src/websocket_client/websocket_client.cpp: \<open>WebsocketClient\<close>, the class users hold. It
  owns one session (\<open>None\<close>: the null pointer), plain or over TLS: the two classes derived
  from the template in src/websocket_client/websocket_client_impl.cpp, which differ in
  the flag \<open>secure\<close> here. C strings are \<open>None\<close> for a null pointer.
\<close>

section \<open>State\<close>

record session_object =
  secure :: bool
  session :: websocket

type_synonym websocket_client = "session_object option"

definition WebsocketSessionPlain :: session_object where
  "WebsocketSessionPlain = \<lparr>secure = False, session = WebsocketSession\<rparr>"

definition WebsocketSessionSecure :: session_object where
  "WebsocketSessionSecure = \<lparr>secure = True, session = WebsocketSession\<rparr>"

definition WebsocketClient :: websocket_client where
  "WebsocketClient = None"

text \<open>\<open>exit\<close> waits for the threads, see \<open>Websocket_Session\<close>; the session is then deleted.\<close>

definition exit :: "websocket_client \<Rightarrow> websocket_client" where
  "exit w = None"

section \<open>init\<close>

definition init_urls :: "bool \<Rightarrow> bytes option \<Rightarrow> bytes option \<Rightarrow> websocket_client \<Rightarrow> bool \<times> websocket_client" where
  "init_urls sink target_url gateway_url w =
     (let w = exit w; target_url = c_text target_url; gateway_url = c_text gateway_url
      in if target_url = [] \<and> gateway_url = [] then (False, w)
         else let (target_url, gateway_url) =
                (if target_url = [] then (gateway_url, target_url) else (target_url, gateway_url));
                  m = (if take 3 target_url = ascii ''wss'' then WebsocketSessionSecure
                       else WebsocketSessionPlain);
                  (ok, s) = Websocket_Session.init sink target_url gateway_url (session m)
              in if ok then (True, Some (m\<lparr>session := s\<rparr>)) else (False, exit (Some (m\<lparr>session := s\<rparr>))))"

definition init_url :: "bool \<Rightarrow> bytes option \<Rightarrow> websocket_client \<Rightarrow> bool \<times> websocket_client" where
  "init_url sink target_url w = init_urls sink target_url (Some []) w"

definition scheme :: "bool \<Rightarrow> bytes" where
  "scheme tls = (if tls then ascii ''wss://'' else ascii ''ws://'')"

definition host_url :: "bytes option \<Rightarrow> u16 \<Rightarrow> bool \<Rightarrow> bytes" where
  "host_url host port tls =
     (if c_text host \<noteq> [] \<and> port \<noteq> 0
      then scheme tls @ c_text host @ ascii '':'' @ to_string (unat port) else [])"

definition init_host ::
  "bool \<Rightarrow> bytes option \<Rightarrow> u16 \<Rightarrow> bool \<Rightarrow> websocket_client \<Rightarrow> bool \<times> websocket_client" where
  "init_host sink target_host target_port target_secure w =
     init_urls sink (Some (host_url target_host target_port target_secure)) (Some []) w"

definition gateway_url ::
  "bytes \<Rightarrow> bytes option \<Rightarrow> u16 \<Rightarrow> bool \<Rightarrow> bytes option \<Rightarrow> bytes" where
  "gateway_url target_url gateway_host gateway_port gateway_secure connect_data =
     (let url = host_url gateway_host gateway_port gateway_secure
      in if url \<noteq> [] \<and> target_url = [] \<and> c_text connect_data \<noteq> []
         then url @ ascii ''/?token='' @ c_text connect_data else url)"

definition init ::
  "bool \<Rightarrow> bytes option \<Rightarrow> u16 \<Rightarrow> bool \<Rightarrow> bytes option \<Rightarrow> u16 \<Rightarrow> bool \<Rightarrow> bytes option \<Rightarrow>
   websocket_client \<Rightarrow> bool \<times> websocket_client" where
  "init sink th tp ts gh gp gs connect_data w =
     (let target_url = host_url th tp ts;
          gateway = gateway_url target_url gh gp gs connect_data
      in init_urls sink (Some target_url) (Some gateway) w)"

section \<open>Forwarded calls\<close>

definition connect :: "websocket_client \<Rightarrow> websocket_client" where
  "connect w = map_option (\<lambda>m. m\<lparr>session := Websocket_Session.connect (session m)\<rparr>) w"

definition close :: "websocket_client \<Rightarrow> websocket_client" where
  "close w = map_option (\<lambda>m. m\<lparr>session := Websocket_Session.close (session m)\<rparr>) w"

definition send_message_data ::
  "bool \<Rightarrow> bytes option \<Rightarrow> u32 \<Rightarrow> bool \<Rightarrow> websocket_client \<Rightarrow> bool \<times> websocket_client" where
  "send_message_data accepts data sz binary w =
     (case w of
        None \<Rightarrow> (False, None)
      | Some m \<Rightarrow>
          (let (r, s) = Websocket_Session.send_message accepts data sz binary (session m)
           in (r, Some (m\<lparr>session := s\<rparr>))))"

text \<open>The overload for a string narrows its size to 32 bits.\<close>

definition send_message :: "bool \<Rightarrow> bytes \<Rightarrow> bool \<Rightarrow> websocket_client \<Rightarrow> bool \<times> websocket_client" where
  "send_message accepts packet binary w =
     send_message_data accepts (Some packet) (of_nat (length packet)) binary w"

definition is_connected :: "websocket_client \<Rightarrow> bool" where
  "is_connected w = (case w of None \<Rightarrow> False | Some m \<Rightarrow> Websocket_Session.is_connected (session m))"

section \<open>URLs\<close>

lemma c_text_Some_no_nul: "0 \<notin> set t \<Longrightarrow> c_text (Some t) = t"
  by (simp add: c_text_def takeWhile_eq_all_conv) metis

lemma c_text_no_nul [simp]: "0 \<notin> set (c_text p)"
  by (auto simp: c_text_def dest: set_takeWhileD split: option.split)

lemma no_nul_digits [simp]: "0 \<notin> set (to_string n)"
  using to_string_digits [of 0 n] by auto

lemma host_url_no_nul [simp]: "0 \<notin> set (host_url host port tls)"
  by (simp add: host_url_def scheme_def)

lemma gateway_url_no_nul [simp]: "0 \<notin> set (gateway_url t h p tls d)"
  by (simp add: gateway_url_def Let_def)

lemma c_text_urls [simp]:
  "c_text (Some (host_url host port tls)) = host_url host port tls"
  "c_text (Some (gateway_url t h p tls d)) = gateway_url t h p tls d" "c_text (Some []) = []"
  by (simp_all add: c_text_Some_no_nul)

lemma host_url_cases:
  "host_url host port tls = [] \<longleftrightarrow> c_text host = [] \<or> port = 0"
  "host_url host port tls \<noteq> [] \<Longrightarrow> \<exists>r. host_url host port tls = scheme tls @ r"
  by (auto simp: host_url_def scheme_def)

lemma host_url_length: "host_url host port tls \<noteq> [] \<Longrightarrow> 2 \<le> length (host_url host port tls)"
  by (auto simp: host_url_def scheme_def)

lemma host_url_scheme:
  "host_url host port tls \<noteq> [] \<Longrightarrow> take 3 (host_url host port tls) = ascii ''wss'' \<longleftrightarrow> tls"
  by (auto simp: host_url_def scheme_def)

lemma host_url_http:
  "host_url host port tls \<noteq> [] \<Longrightarrow>
    take 2 (host_url host port tls) = ascii ''ws'' \<and>
    ascii ''http'' @ drop 2 (host_url host port tls) =
      (if tls then ascii ''https://'' else ascii ''http://'') @ c_text host @ ascii '':'' @ to_string (unat port)"
  by (auto simp: host_url_def scheme_def)

lemma gateway_url_empty: "gateway_url t h p tls d = [] \<longleftrightarrow> c_text h = [] \<or> p = 0"
  by (auto simp: gateway_url_def Let_def host_url_cases)

lemma gateway_url_prefix:
  assumes "gateway_url t h p tls d \<noteq> []"
  shows "\<exists>r. gateway_url t h p tls d = scheme tls @ r"
proof -
  from assms have "host_url h p tls \<noteq> []" by (simp add: gateway_url_empty host_url_cases)
  with host_url_cases(2) obtain r where "host_url h p tls = scheme tls @ r" by blast
  then show ?thesis by (simp add: gateway_url_def Let_def)
qed

lemma gateway_url_scheme:
  assumes "gateway_url t h p tls d \<noteq> []"
  shows "take 3 (gateway_url t h p tls d) = ascii ''wss'' \<longleftrightarrow> tls"
    "2 \<le> length (gateway_url t h p tls d)"
  using gateway_url_prefix [OF assms] by (auto simp: scheme_def split: if_split_asm)

lemma session_init:
  assumes "2 \<le> length t"
  shows "Websocket_Session.init sink t g WebsocketSession =
    (True, set_running True WebsocketSession
       \<lparr>m_target_url := fst (session_urls t g), m_gateway_url := snd (session_urls t g),
        m_sink := sink, ping_thread := True\<rparr>)"
  using assms by (simp add: Websocket_Session.init_def split: prod.split)

text \<open>A client that \<open>init\<close> leaves behind is there exactly on success, and not connected.\<close>

lemma session_init_disconnected:
  "Websocket_Session.init sink t g WebsocketSession = (ok, s) \<Longrightarrow> m_connection s = None"
  by (auto simp: Websocket_Session.init_def WebsocketSession_def set_running_def
      split: if_split_asm prod.split_asm)

lemma init_urls_disconnected:
  "(fst (init_urls sink t g w) \<longleftrightarrow> snd (init_urls sink t g w) \<noteq> None) \<and>
    \<not> is_connected (snd (init_urls sink t g w))"
  by (auto simp: init_urls_def exit_def is_connected_def Websocket_Session.is_connected_def
      WebsocketSessionPlain_def WebsocketSessionSecure_def Let_def
      split: prod.split option.split dest!: session_init_disconnected)

lemma init_disconnected:
  "(fst (init sink th tp ts gh gp gs cd w) \<longleftrightarrow> snd (init sink th tp ts gh gp gs cd w) \<noteq> None) \<and>
    \<not> is_connected (snd (init sink th tp ts gh gp gs cd w))"
  by (simp add: init_def init_urls_disconnected Let_def)

definition session_for :: "bool \<Rightarrow> bytes \<Rightarrow> bytes \<Rightarrow> session_object" where
  "session_for sink t g =
     \<lparr>secure = (take 3 t = ascii ''wss''),
      session = set_running True WebsocketSession
       \<lparr>m_target_url := fst (session_urls t g), m_gateway_url := snd (session_urls t g),
        m_sink := sink, ping_thread := True\<rparr>\<rparr>"

lemma init_urls_target:
  assumes "c_text (Some t) = t" "c_text (Some g) = g" "2 \<le> length t"
  shows "init_urls sink (Some t) (Some g) w = (True, Some (session_for sink t g))"
  using assms
  by (auto simp: init_urls_def exit_def WebsocketSessionPlain_def WebsocketSessionSecure_def
      session_init session_for_def Let_def)

lemma init_urls_gateway:
  assumes "c_text (Some g) = g" "2 \<le> length g"
  shows "init_urls sink (Some []) (Some g) w = (True, Some (session_for sink g []))"
  using assms
  by (auto simp: init_urls_def exit_def WebsocketSessionPlain_def WebsocketSessionSecure_def
      session_init session_for_def Let_def)

lemma init_urls_none: "init_urls sink (Some []) (Some []) w = (False, None)"
  by (simp add: init_urls_def exit_def)

lemma session_for_fields [simp]:
  "secure (session_for sink t g) = (take 3 t = ascii ''wss'')"
  "m_gateway_url (session (session_for sink t g)) = snd (session_urls t g)"
  "m_target_url (session (session_for sink t g)) = fst (session_urls t g)"
  by (simp_all add: session_for_def set_running_def)

lemma init_target:
  fixes sink
  assumes "host_url th tp ts \<noteq> []"
  shows "init sink th tp ts gh gp gs cd w =
    (True, Some (session_for sink (host_url th tp ts) (gateway_url (host_url th tp ts) gh gp gs cd)))"
  using init_urls_target [of "host_url th tp ts"] host_url_length [OF assms]
  by (simp add: init_def Let_def)

lemma init_gateway:
  fixes sink
  assumes "host_url th tp ts = []" "gateway_url [] gh gp gs cd \<noteq> []"
  shows "init sink th tp ts gh gp gs cd w =
    (True, Some (session_for sink (gateway_url [] gh gp gs cd) []))"
  using init_urls_gateway [of "gateway_url [] gh gp gs cd"] gateway_url_scheme(2) [OF assms(2)] assms(1)
  by (simp add: init_def Let_def)

lemma init_neither:
  "host_url th tp ts = [] \<Longrightarrow> gateway_url [] gh gp gs cd = [] \<Longrightarrow>
    init sink th tp ts gh gp gs cd w = (False, None)"
  by (simp add: init_def init_urls_none Let_def)

section \<open>Properties\<close>

lemma init_result:
  fixes th gh cd w sink and tp gp :: u16 and ts gs :: bool
  defines "T \<equiv> host_url th tp ts"
  defines "G \<equiv> gateway_url T gh gp gs cd"
  shows "fst (init sink th tp ts gh gp gs cd w) = (T \<noteq> [] \<or> G \<noteq> []) \<and>
    (case snd (init sink th tp ts gh gp gs cd w) of
       None \<Rightarrow> T = [] \<and> G = []
     | Some m \<Rightarrow>
         secure m = (if T \<noteq> [] then ts else gs) \<and>
         m_gateway_url (session m) = (if G \<noteq> [] then G else T) \<and>
         m_target_url (session m) =
           (if G = [] then T else if T = [] \<or> T = G then G
            else (if ts then ascii ''https://'' else ascii ''http://'') @ c_text th @ ascii '':'' @
              to_string (unat tp)))"
proof (cases "T = []")
  case True
  have "G \<noteq> [] \<Longrightarrow> take 3 G = ascii ''wss'' \<longleftrightarrow> gs"
    unfolding G_def by (rule gateway_url_scheme)
  with True show ?thesis
    by (cases "G = []") (simp_all add: T_def G_def init_gateway init_neither session_urls_def)
next
  case False
  have "take 3 T = ascii ''wss'' \<longleftrightarrow> ts"
    "take 2 T = ascii ''ws''" "ascii ''http'' @ drop 2 T =
      (if ts then ascii ''https://'' else ascii ''http://'') @ c_text th @ ascii '':'' @ to_string (unat tp)"
    using host_url_scheme [of th tp ts] host_url_http [of th tp ts] False by (simp_all add: T_def)
  moreover have "init sink th tp ts gh gp gs cd w = (True, Some (session_for sink T G))"
    using init_target [of th tp ts] False by (simp add: T_def G_def)
  ultimately show ?thesis using False by (simp add: session_urls_def)
qed

text \<open>
  Which server a client dials. It needs a target or a gateway; it dials the gateway
  when there is one, and the target otherwise; to a gateway that is not the target it
  names the target, as an http or https URL, in the header Origin; the connect data goes
  into the query of the gateway's URL only when there is no target; and whether the
  session speaks TLS is decided by the target's flag when there is a target.
\<close>

theorem websocket_client_dials:
  "let T = host_url th tp ts; G = gateway_url T gh gp gs cd
   in fst (init sink th tp ts gh gp gs cd w) = (T \<noteq> [] \<or> G \<noteq> []) \<and>
      (case snd (init sink th tp ts gh gp gs cd w) of
         None \<Rightarrow> T = [] \<and> G = []
       | Some m \<Rightarrow>
           secure m = (if T \<noteq> [] then ts else gs) \<and>
           m_gateway_url (session m) = (if G \<noteq> [] then G else T) \<and>
           m_target_url (session m) =
             (if G = [] then T else if T = [] \<or> T = G then G
              else (if ts then ascii ''https://'' else ascii ''http://'') @ c_text th @ ascii '':'' @
                to_string (unat tp)))"
  unfolding Let_def by (rule init_result)

theorem websocket_client_dials_witness:
  "case snd (init True (Some (ascii ''t'')) 80 False (Some (ascii ''g'')) 443 True None
       WebsocketClient) of
     None \<Rightarrow> False
   | Some m \<Rightarrow> \<not> secure m \<and> m_gateway_url (session m) = ascii ''wss://g:443'' \<and>
       m_target_url (session m) = ascii ''http://t:80''"
proof -
  have "host_url (Some (ascii ''t'')) 80 False = ascii ''ws://t:80''"
    "gateway_url (ascii ''ws://t:80'') (Some (ascii ''g'')) 443 True None = ascii ''wss://g:443''"
    "ascii ''http://'' @ c_text (Some (ascii ''t'')) @ ascii '':'' @ to_string (unat (80 :: u16)) =
       ascii ''http://t:80''"
    "ascii ''ws://t:80'' \<noteq> []" "ascii ''wss://g:443'' \<noteq> []"
    "ascii ''ws://t:80'' \<noteq> ascii ''wss://g:443''"
    by code_simp+
  note eqs = this
  show ?thesis
    using websocket_client_dials [of "Some (ascii ''t'')" 80 False "Some (ascii ''g'')" 443 True None
        True WebsocketClient]
    by (simp only: eqs Let_def simp_thms if_True if_False split: option.splits)
qed

text \<open>
  The kind of the session follows the target, the dialled URL the gateway. When
  target and gateway differ in TLS, a plain session is given a wss URL, which the library
  refuses, or a TLS session a ws URL, so that the client cannot connect.
\<close>

theorem websocket_tls_follows_target:
  assumes "c_text th \<noteq> []" and "tp \<noteq> 0" and "c_text gh \<noteq> []" and "gp \<noteq> 0" and "ts \<noteq> gs"
  shows "\<exists>m r. init sink th tp ts gh gp gs cd w = (True, Some m) \<and>
    m_gateway_url (session m) = scheme gs @ r \<and> secure m = (\<not> gs)"
proof -
  let ?T = "host_url th tp ts" and ?G = "gateway_url (host_url th tp ts) gh gp gs cd"
  have "?T \<noteq> []" "?G \<noteq> []" using assms by (simp_all add: host_url_cases gateway_url_empty)
  moreover have "init sink th tp ts gh gp gs cd w = (True, Some (session_for sink ?T ?G))"
    using \<open>?T \<noteq> []\<close> by (rule init_target)
  ultimately show ?thesis
    using gateway_url_prefix [of ?T gh gp gs cd] host_url_scheme [of th tp ts] assms(5)
    by (auto simp: session_urls_def)
qed

theorem websocket_tls_follows_target_witness:
  "\<exists>m r. init True (Some (ascii ''a'')) 80 False (Some (ascii ''b'')) 443 True None None = (True, Some m) \<and>
     m_gateway_url (session m) = ascii ''wss://'' @ r \<and> \<not> secure m"
  using websocket_tls_follows_target [of "Some (ascii ''a'')" 80 "Some (ascii ''b'')" 443 False True True None None]
  by (simp add: c_text_def scheme_def)

text \<open>
  A message longer than 4 GiB is cut without an error. The overload for a string
  narrows the length to 32 bits: of a packet of \<open>n\<close> bytes the first \<open>n mod 2^32\<close> are
  sent and reported as success, unless that number is zero.
\<close>

theorem websocket_send_narrows:
  assumes "m_connection (session m) = Some i" and "m_running (session m)"
  shows "send_message True packet binary (Some m) =
    (if length packet mod 2 ^ 32 = 0 then (False, Some m)
     else (True, Some (m\<lparr>session := (session m)
       \<lparr>sent := sent (session m) @ [(take (length packet mod 2 ^ 32) packet, binary)]\<rparr>\<rparr>)))"
proof -
  have u: "unat (of_nat (length packet) :: u32) = length packet mod 2 ^ 32"
    by (simp add: unat_of_nat)
  have z: "(of_nat (length packet) :: u32) = 0 \<longleftrightarrow> length packet mod 2 ^ 32 = 0"
    unfolding u [symmetric] by (simp add: unat_eq_zero)
  show ?thesis
    unfolding send_message_def send_message_data_def Websocket_Session.send_message_def
    using assms by (simp add: u z del: of_nat_eq_0_iff)
qed

theorem websocket_send_narrows_witness:
  "let s = WebsocketSession\<lparr>event_monitor := launch_consumer, m_connection := Some 0\<rparr>;
       m = \<lparr>secure = False, session = s\<rparr>
   in fst (send_message True [1, 2, 3] True (Some m)) \<and> m_running s"
proof -
  let ?s = "WebsocketSession\<lparr>event_monitor := launch_consumer, m_connection := Some 0\<rparr>"
  have "m_running ?s" by (simp add: m_running_def launch_consumer_def)
  then show ?thesis
    using websocket_send_narrows [of "\<lparr>secure = False, session = ?s\<rparr>" 0 "[1, 2, 3]" True]
    by (simp add: Let_def)
qed

end
