(* ===== verification/Enet_Client.thy ===== *)
theory Enet_Client
  imports Consumer "HOL-Library.Multiset"
begin

text \<open>
  src/enet_client/enet_client_impl.cpp: a client over the ENet library. Three threads and
  the callers share the object: the event thread runs \<open>do_connect\<close> and \<open>do_close\<close>, the
  callback thread calls the sink, the send thread feeds and services the ENet host. The
  event and the callback thread are the loop of theory \<open>Consumer\<close>. The ENet library
  (a copy of which is in src/enet) is not modelled: its calls are atomic, what they answer
  is an argument, and the host has one peer (\<open>enet_host_create\<close> is called with a peer
  count of 1), so \<open>enet_host_connect\<close> finds no free peer while that peer is not
  disconnected. A peer that is disconnected by \<open>enet_peer_disconnect\<close> becomes free when
  the host is serviced and the acknowledgement arrives.
\<close>

section \<open>State\<close>

datatype peer_state = Disconnected | Connecting | Connected | Disconnecting

text \<open>The send thread: at the top of its loop, before the service call, or returned.\<close>

datatype sender = Top | Service | Finished

text \<open>Where the event thread is inside an event: before the operation or at a blocking call.\<close>

datatype operation = Idle | Begin bool | Connect_join | Connect_wait | Close_join

datatype leaving =
    Staying
  | Leave_close
  | Leave_join
  | Leave_events
  | Leave_callbacks
  | Left

record enet =
  event_monitor :: "bool consumer"
  callback_monitor :: "bool consumer"
  m_sink :: bool
  m_host :: bytes
  m_port :: u16
  m_enet_host :: bool
  m_enet_peer :: bool
  peer :: peer_state
  m_send_data_list :: "bytes list"
  m_send_data_thread :: "sender option"
  operation :: operation
  leaving :: leaving
  accepted :: "bytes list"
  handed :: "bytes list"
  dropped :: "bytes list"
  delivered :: "bytes list"
  errors :: nat

definition m_running :: "enet \<Rightarrow> bool" where
  "m_running s = running (event_monitor s)"

definition set_running :: "bool \<Rightarrow> enet \<Rightarrow> enet" where
  "set_running b s =
     s\<lparr>event_monitor := (event_monitor s)\<lparr>running := b\<rparr>,
       callback_monitor := (callback_monitor s)\<lparr>running := b\<rparr>\<rparr>"

definition EnetClientImpl :: enet where
  "EnetClientImpl =
     \<lparr>event_monitor = launch_consumer\<lparr>running := False\<rparr>,
      callback_monitor = launch_consumer\<lparr>running := False\<rparr>,
      m_sink = False, m_host = [], m_port = 0, m_enet_host = False, m_enet_peer = False,
      peer = Disconnected, m_send_data_list = [], m_send_data_thread = None,
      operation = Idle, leaving = Staying, accepted = [], handed = [], dropped = [],
      delivered = [], errors = 0\<rparr>"

section \<open>Operations of the clients\<close>

text \<open>
  \<open>init\<close> of a fresh object (the public class makes one for every \<open>init\<close>, and \<open>exit\<close> does
  nothing on it): the parameters, then what \<open>enet_initialize\<close> and \<open>enet_host_create\<close>
  answer. The threads are created without failure.
\<close>

definition init :: "bool \<Rightarrow> bytes option \<Rightarrow> u16 \<Rightarrow> bool \<Rightarrow> bool \<Rightarrow> enet \<Rightarrow> bool \<times> enet" where
  "init sink host port initialized created s =
     (case host of
        None \<Rightarrow> (False, s)
      | Some host \<Rightarrow>
          if port = 0 then (False, s)
          else if \<not> initialized then (False, s)
          else if \<not> created then (False, s)
          else (True, set_running True s
                        \<lparr>m_sink := sink, m_host := c_text (Some host), m_port := port,
                         m_enet_host := True\<rparr>))"

definition connect :: "enet \<Rightarrow> enet" where
  "connect s = s\<lparr>event_monitor := put True (event_monitor s)\<rparr>"

definition close :: "enet \<Rightarrow> enet" where
  "close s = s\<lparr>event_monitor := put False (event_monitor s)\<rparr>"

definition on_connect :: "enet \<Rightarrow> enet" where
  "on_connect s = s\<lparr>callback_monitor := put True (callback_monitor s)\<rparr>"

definition on_close :: "enet \<Rightarrow> enet" where
  "on_close s = s\<lparr>callback_monitor := put False (callback_monitor s)\<rparr>"

definition is_connected :: "enet \<Rightarrow> bool" where
  "is_connected s \<longleftrightarrow> m_enet_peer s \<and> peer s = Connected"

definition send_message :: "bytes \<Rightarrow> enet \<Rightarrow> bool \<times> enet" where
  "send_message packet s =
     (if \<not> is_connected s then (False, s)
      else (True, s\<lparr>m_send_data_list := m_send_data_list s @ [packet],
                   accepted := accepted s @ [packet]\<rparr>))"

section \<open>The event thread\<close>

text \<open>\<open>do_connect\<close> up to the join of the send thread.\<close>

definition do_connect :: "enet \<Rightarrow> enet" where
  "do_connect s =
     (if \<not> m_running s then on_close (s\<lparr>operation := Idle\<rparr>)
      else (if m_enet_peer s \<and> peer s \<noteq> Disconnected then s\<lparr>peer := Disconnected\<rparr> else s)
             \<lparr>operation := Connect_join\<rparr>)"

definition sender_gone :: "enet \<Rightarrow> bool" where
  "sender_gone s \<longleftrightarrow> m_send_data_thread s = None \<or> m_send_data_thread s = Some Finished"

text \<open>From the join to the answer of \<open>enet_host_connect\<close>.\<close>

definition do_connect_host :: "bool \<Rightarrow> enet \<Rightarrow> enet" where
  "do_connect_host found s =
     (let s = s\<lparr>m_send_data_thread := None, m_enet_peer := False, m_send_data_list := [],
                dropped := dropped s @ m_send_data_list s\<rparr>
      in if found then s\<lparr>peer := Connecting, operation := Connect_wait\<rparr>
         else on_close (s\<lparr>errors := (if m_sink s then Suc (errors s) else errors s),
                          operation := Idle\<rparr>))"

text \<open>The five seconds of \<open>enet_host_service\<close>, and the start of the send thread.\<close>

definition do_connect_service :: "bool \<Rightarrow> enet \<Rightarrow> enet" where
  "do_connect_service connected s =
     (if connected
      then (on_connect (s\<lparr>m_enet_peer := True, peer := Connected\<rparr>))
             \<lparr>m_send_data_thread := Some Top, operation := Idle\<rparr>
      else on_close (s\<lparr>peer := Disconnected, operation := Idle\<rparr>))"

text \<open>\<open>do_close\<close> up to the join, and from it on; the destructor's thread runs it, too.\<close>

definition do_close :: "enet \<Rightarrow> enet" where
  "do_close s = (if is_connected s then s\<lparr>peer := Disconnecting\<rparr> else s)"

definition do_close_joined :: "enet \<Rightarrow> enet" where
  "do_close_joined s = on_close (s\<lparr>m_send_data_thread := None, m_enet_peer := False\<rparr>)"

definition event_thread :: "enet \<Rightarrow> enet option" where
  "event_thread s =
     (case operation s of
        Idle \<Rightarrow>
          (case consumer_next (event_monitor s) of
             None \<Rightarrow> None
           | Some c \<Rightarrow>
               Some (s\<lparr>event_monitor := c,
                       operation := (case place c of Busy x xs \<Rightarrow> Begin x | _ \<Rightarrow> Idle)\<rparr>))
      | Begin True \<Rightarrow> if mutex_free (callback_monitor s) then Some (do_connect s) else None
      | Begin False \<Rightarrow>
          Some ((do_close s)\<lparr>operation := (if is_connected s then Close_join else Idle)\<rparr>)
      | Close_join \<Rightarrow>
          if sender_gone s \<and> mutex_free (callback_monitor s)
          then Some ((do_close_joined s)\<lparr>operation := Idle\<rparr>) else None
      | _ \<Rightarrow> None)"

section \<open>The callback and the send thread\<close>

text \<open>The callbacks made are the elements \<open>handled\<close> by the monitor, when there is a sink.\<close>

definition callback_thread :: "enet \<Rightarrow> enet option" where
  "callback_thread s = map_option (\<lambda>c. s\<lparr>callback_monitor := c\<rparr>) (consumer_next (callback_monitor s))"

text \<open>
  \<open>enet_peer_send\<close> accepts a packet of at most 32 MiB, for a connected peer; a packet it
  refuses is destroyed. Taking the list and handing it over is one step.
\<close>

definition enet_accepts :: "enet \<Rightarrow> bytes \<Rightarrow> bool" where
  "enet_accepts s packet \<longleftrightarrow> peer s = Connected \<and> int (length packet) \<le> 32 * 1024 * 1024"

definition send_list :: "enet \<Rightarrow> enet" where
  "send_list s =
     s\<lparr>handed := handed s @ filter (enet_accepts s) (m_send_data_list s),
       dropped := dropped s @ filter (\<lambda>p. \<not> enet_accepts s p) (m_send_data_list s),
       m_send_data_list := [], m_send_data_thread := Some Service\<rparr>"

datatype service = Receive bytes | Disconnect | Other | Nothing

definition service_possible :: "service \<Rightarrow> enet \<Rightarrow> bool" where
  "service_possible r s \<longleftrightarrow>
     (case r of
        Receive d \<Rightarrow> peer s = Connected
      | Disconnect \<Rightarrow> peer s \<noteq> Disconnected \<and> mutex_free (callback_monitor s)
      | _ \<Rightarrow> True)"

definition serve :: "service \<Rightarrow> enet \<Rightarrow> enet" where
  "serve r s =
     (case r of
        Receive d \<Rightarrow>
          (if m_sink s then s\<lparr>delivered := delivered s @ [d]\<rparr> else s)\<lparr>m_send_data_thread := Some Top\<rparr>
      | Disconnect \<Rightarrow> on_close (s\<lparr>peer := Disconnected, m_send_data_thread := Some Finished\<rparr>)
      | Other \<Rightarrow> s\<lparr>m_send_data_thread := Some Top\<rparr>
      | Nothing \<Rightarrow>
          s\<lparr>m_send_data_thread := Some (if is_connected s then Top else Finished)\<rparr>)"

section \<open>exit\<close>

definition exit_begin :: "enet \<Rightarrow> enet" where
  "exit_begin s = (set_running False s)\<lparr>leaving := Leave_close\<rparr>"

definition wake_events :: "enet \<Rightarrow> enet" where
  "wake_events s = s\<lparr>event_monitor := rouse (event_monitor s), leaving := Leave_events\<rparr>"

definition exit_close :: "enet \<Rightarrow> enet" where
  "exit_close s =
     (if is_connected s then (do_close s)\<lparr>leaving := Leave_join\<rparr> else wake_events s)"

definition exit_joined :: "enet \<Rightarrow> enet" where
  "exit_joined s = wake_events (do_close_joined s)"

definition exit_events :: "enet \<Rightarrow> enet" where
  "exit_events s =
     s\<lparr>callback_monitor := rouse (callback_monitor s), leaving := Leave_callbacks\<rparr>"

definition exit_end :: "enet \<Rightarrow> enet" where
  "exit_end s =
     s\<lparr>event_monitor := (event_monitor s)\<lparr>items := []\<rparr>,
       callback_monitor := (callback_monitor s)\<lparr>items := []\<rparr>,
       m_enet_host := False, m_enet_peer := False, leaving := Left\<rparr>"

definition exit :: "enet \<Rightarrow> enet option" where
  "exit s =
     (case leaving s of
        Staying \<Rightarrow> if m_running s then Some (exit_begin s) else None
      | Leave_close \<Rightarrow> Some (exit_close s)
      | Leave_join \<Rightarrow>
          if sender_gone s \<and> mutex_free (callback_monitor s) then Some (exit_joined s) else None
      | Leave_events \<Rightarrow> if joinable_now (event_monitor s) then Some (exit_events s) else None
      | Leave_callbacks \<Rightarrow> if joinable_now (callback_monitor s) then Some (exit_end s) else None
      | Left \<Rightarrow> None)"

section \<open>Steps\<close>

datatype enet_event =
    Connect
  | Close
  | Send bytes bool
  | Event_thread
  | Host_connect bool
  | Host_service bool
  | Callback_thread
  | Send_list
  | Serve service
  | Notify_event
  | Notify_callback
  | Exit

definition enet_next :: "enet_event \<Rightarrow> enet \<Rightarrow> enet option" where
  "enet_next e s =
     (case e of
        Connect \<Rightarrow> if mutex_free (event_monitor s) then Some (connect s) else None
      | Close \<Rightarrow> if mutex_free (event_monitor s) then Some (close s) else None
      | Send d r \<Rightarrow> if fst (send_message d s) = r then Some (snd (send_message d s)) else None
      | Event_thread \<Rightarrow> event_thread s
      | Host_connect found \<Rightarrow>
          if operation s = Connect_join \<and> sender_gone s \<and> (found \<longrightarrow> peer s = Disconnected) \<and>
             mutex_free (callback_monitor s)
          then Some (do_connect_host found s) else None
      | Host_service connected \<Rightarrow>
          if operation s = Connect_wait \<and> mutex_free (callback_monitor s)
          then Some (do_connect_service connected s) else None
      | Callback_thread \<Rightarrow> callback_thread s
      | Send_list \<Rightarrow> if m_send_data_thread s = Some Top then Some (send_list s) else None
      | Serve r \<Rightarrow>
          if m_send_data_thread s = Some Service \<and> service_possible r s then Some (serve r s) else None
      | Notify_event \<Rightarrow>
          if 0 < wakeups (event_monitor s)
          then Some (s\<lparr>event_monitor := notify_one (event_monitor s)\<rparr>) else None
      | Notify_callback \<Rightarrow>
          if 0 < wakeups (callback_monitor s)
          then Some (s\<lparr>callback_monitor := notify_one (callback_monitor s)\<rparr>) else None
      | Exit \<Rightarrow> exit s)"

definition enet_step :: "enet \<Rightarrow> enet_event \<Rightarrow> enet \<Rightarrow> bool" where
  "enet_step s e t \<longleftrightarrow> enet_next e s = Some t"

interpretation enet_exec: executable_steps enet_step enet_next
  by unfold_locales (rule enet_step_def)

section \<open>Both monitors are consumers\<close>

text \<open>What every operation does to the two monitors.\<close>

lemma event_monitor_ops [simp]:
  "event_monitor (connect s) = put True (event_monitor s)"
  "event_monitor (close s) = put False (event_monitor s)"
  "event_monitor (on_connect s) = event_monitor s" "event_monitor (on_close s) = event_monitor s"
  "event_monitor (do_connect s) = event_monitor s"
  "event_monitor (do_connect_host b s) = event_monitor s"
  "event_monitor (do_connect_service b s) = event_monitor s"
  "event_monitor (do_close s) = event_monitor s" "event_monitor (do_close_joined s) = event_monitor s"
  "event_monitor (send_list s) = event_monitor s" "event_monitor (serve r s) = event_monitor s"
  "event_monitor (snd (send_message d s)) = event_monitor s"
  by (simp_all add: connect_def close_def on_connect_def on_close_def do_connect_def
      do_connect_host_def do_connect_service_def do_close_def do_close_joined_def send_list_def
      serve_def send_message_def Let_def split: service.split)

lemma callback_monitor_ops [simp]:
  "callback_monitor (connect s) = callback_monitor s" "callback_monitor (close s) = callback_monitor s"
  "callback_monitor (on_connect s) = put True (callback_monitor s)"
  "callback_monitor (on_close s) = put False (callback_monitor s)"
  "callback_monitor (do_connect s) =
     (if m_running s then callback_monitor s else put False (callback_monitor s))"
  "callback_monitor (do_connect_host b s) =
     (if b then callback_monitor s else put False (callback_monitor s))"
  "callback_monitor (do_connect_service b s) = put b (callback_monitor s)"
  "callback_monitor (do_close s) = callback_monitor s"
  "callback_monitor (do_close_joined s) = put False (callback_monitor s)"
  "callback_monitor (send_list s) = callback_monitor s"
  "callback_monitor (serve r s) =
     (case r of Disconnect \<Rightarrow> put False (callback_monitor s) | _ \<Rightarrow> callback_monitor s)"
  "callback_monitor (snd (send_message d s)) = callback_monitor s"
  by (simp_all add: connect_def close_def on_connect_def on_close_def do_connect_def
      do_connect_host_def do_connect_service_def do_close_def do_close_joined_def send_list_def
      serve_def send_message_def Let_def split: service.split)

lemma leaving_ops [simp]:
  "leaving (connect s) = leaving s" "leaving (close s) = leaving s"
  "leaving (on_connect s) = leaving s" "leaving (on_close s) = leaving s"
  "leaving (do_connect s) = leaving s"
  "leaving (do_connect_host b s) = leaving s"
  "leaving (do_connect_service b s) = leaving s"
  "leaving (do_close s) = leaving s" "leaving (do_close_joined s) = leaving s"
  "leaving (send_list s) = leaving s" "leaving (serve r s) = leaving s"
  "leaving (snd (send_message d s)) = leaving s"
  by (simp_all add: connect_def close_def on_connect_def on_close_def do_connect_def
      do_connect_host_def do_connect_service_def do_close_def do_close_joined_def send_list_def
      serve_def send_message_def Let_def split: service.split)

definition monitors_ok :: "enet \<Rightarrow> bool" where
  "monitors_ok s \<longleftrightarrow> consumer_ok (event_monitor s) \<and> consumer_ok (callback_monitor s) \<and>
     (leaving s = Leave_callbacks \<longrightarrow> joinable_now (event_monitor s))"

lemma monitors_ok_exit:
  assumes "exit s = Some t" "monitors_ok s"
  shows "monitors_ok t"
proof (cases "leaving s")
  case Leave_join
  with assms show ?thesis
    by (auto simp: exit_def monitors_ok_def exit_joined_def wake_events_def consumer_ok_put
        consumer_ok_rouse split: if_split_asm)
qed (use assms in \<open>auto simp: exit_def monitors_ok_def exit_begin_def set_running_def exit_close_def
      wake_events_def exit_events_def exit_end_def consumer_ok_stop consumer_ok_rouse consumer_ok_clear
      split: if_split_asm\<close>)

lemma monitors_ok_event:
  assumes "event_thread s = Some t" "monitors_ok s"
  shows "monitors_ok t"
proof (cases "operation s")
  case Idle
  with assms obtain c where c: "consumer_next (event_monitor s) = Some c" "event_monitor t = c"
    "callback_monitor t = callback_monitor s" "leaving t = leaving s"
    by (auto simp: event_thread_def split: option.split_asm)
  with assms(2) show ?thesis
    by (auto simp: monitors_ok_def consumer_ok_thread dest: joinable_thread)
next
  case (Begin b)
  with assms show ?thesis
    by (cases b) (auto simp: event_thread_def monitors_ok_def consumer_ok_put split: if_split_asm)
qed (use assms in \<open>auto simp: event_thread_def monitors_ok_def consumer_ok_put split: if_split_asm\<close>)

lemma monitors_ok_step:
  assumes "enet_step s e t" "monitors_ok s"
  shows "monitors_ok t"
proof (cases e)
  case (Serve r)
  with assms show ?thesis
    by (cases r) (auto simp: enet_step_def enet_next_def monitors_ok_def service_possible_def
        consumer_ok_put split: if_split_asm)
next
  case Callback_thread
  with assms show ?thesis
    by (auto simp: enet_step_def enet_next_def monitors_ok_def callback_thread_def consumer_ok_thread)
next
  case Event_thread
  with assms show ?thesis by (simp add: enet_step_def enet_next_def monitors_ok_event)
next
  case Exit
  with assms show ?thesis by (simp add: enet_step_def enet_next_def monitors_ok_exit)
qed (use assms in \<open>auto simp: enet_step_def enet_next_def monitors_ok_def consumer_ok_put
      consumer_ok_notify split: if_split_asm\<close>)

interpretation monitors_ok: step_invariant enet_step monitors_ok
  by unfold_locales (rule monitors_ok_step)

section \<open>Packets\<close>

definition packets_ok :: "enet \<Rightarrow> bool" where
  "packets_ok s \<longleftrightarrow> subseq (handed s @ m_send_data_list s) (accepted s) \<and>
     mset (accepted s) = mset (handed s) + mset (dropped s) + mset (m_send_data_list s)"

lemma packets_ok_cong:
  "handed t = handed s \<Longrightarrow> m_send_data_list t = m_send_data_list s \<Longrightarrow> accepted t = accepted s \<Longrightarrow>
    dropped t = dropped s \<Longrightarrow> packets_ok t = packets_ok s"
  by (simp add: packets_ok_def)

lemmas packet_frame_defs =
  connect_def close_def on_connect_def on_close_def do_connect_def do_connect_service_def
  do_close_def do_close_joined_def event_thread_def callback_thread_def serve_def exit_begin_def
  wake_events_def exit_close_def exit_joined_def exit_events_def exit_end_def exit_def
  set_running_def

lemma packets_frame:
  assumes "enet_step s e t" "\<forall>d r. e \<noteq> Send d r" "\<forall>b. e \<noteq> Host_connect b" "e \<noteq> Send_list"
  shows "handed t = handed s" "m_send_data_list t = m_send_data_list s" "accepted t = accepted s"
    "dropped t = dropped s"
  using assms
  by (auto simp: enet_step_def enet_next_def packet_frame_defs Let_def
      split: enet_event.split_asm if_split_asm option.split_asm operation.split_asm bool.split_asm
        leaving.split_asm service.split_asm)

lemma subseq_append_filter: "subseq (xs @ ys) zs \<Longrightarrow> subseq (xs @ filter P ys) zs"
  by (rule subseq_order.trans [of _ "xs @ ys"]) (auto intro: list_emb_append_mono)

lemma packets_ok_step:
  assumes "enet_step s e t" "packets_ok s"
  shows "packets_ok t"
proof (cases e)
  case (Send d r)
  with assms show ?thesis
    by (auto simp: enet_step_def enet_next_def send_message_def packets_ok_def
        simp flip: append_assoc split: if_split_asm)
next
  case (Host_connect b)
  with assms have "subseq (handed s) (accepted s)"
    by (auto simp: packets_ok_def intro: subseq_order.trans [of _ "handed s @ m_send_data_list s"])
  with Host_connect assms show ?thesis
    by (auto simp: enet_step_def enet_next_def do_connect_host_def on_close_def packets_ok_def Let_def
        split: if_split_asm)
next
  case Send_list
  with assms show ?thesis
    by (auto simp: enet_step_def enet_next_def send_list_def packets_ok_def subseq_append_filter
        split: if_split_asm)
qed (use assms(2) packets_ok_cong [OF packets_frame [OF assms(1)]] in simp_all)

interpretation packets_ok: step_invariant enet_step packets_ok
  by unfold_locales (rule packets_ok_step)

section \<open>A peer that cannot be reused\<close>

definition stuck :: "enet \<Rightarrow> bool" where
  "stuck s \<longleftrightarrow> peer s = Disconnecting \<and> \<not> m_enet_peer s \<and> sender_gone s \<and>
     operation s \<noteq> Connect_wait \<and> leaving s \<noteq> Leave_join"

lemma stuck_event: "event_thread s = Some t \<Longrightarrow> stuck s \<Longrightarrow> stuck t"
  by (cases "operation s")
    (auto simp: event_thread_def stuck_def sender_gone_def do_connect_def do_close_def
      do_close_joined_def on_close_def is_connected_def
      split: if_split_asm option.split_asm bool.split_asm place.split_asm)

lemma stuck_exit: "exit s = Some t \<Longrightarrow> stuck s \<Longrightarrow> stuck t"
  by (cases "leaving s")
    (auto simp: exit_def stuck_def sender_gone_def exit_begin_def set_running_def exit_close_def
      is_connected_def wake_events_def exit_events_def exit_end_def split: if_split_asm)

lemma stuck_step:
  assumes "enet_step s e t" "stuck s"
  shows "stuck t"
proof (cases e)
  case Event_thread
  with assms show ?thesis by (simp add: enet_step_def enet_next_def stuck_event)
next
  case Exit
  with assms show ?thesis by (simp add: enet_step_def enet_next_def stuck_exit)
qed (use assms in \<open>auto simp: enet_step_def enet_next_def stuck_def sender_gone_def is_connected_def
      connect_def close_def send_message_def do_connect_host_def on_close_def callback_thread_def Let_def
      split: if_split_asm\<close>)

interpretation stuck: step_invariant enet_step stuck
  by unfold_locales (rule stuck_step)

section \<open>Demonstrations\<close>

definition demo_client :: enet where
  "demo_client = snd (init True (Some (ascii ''host'')) 9000 True True EnetClientImpl)"

definition threads :: "nat \<Rightarrow> enet_event list" where
  "threads n = replicate n Event_thread"

definition demo_connect :: "enet_event list" where
  "demo_connect = Connect # threads 5 @ [Host_connect True, Host_service True]"

definition demo_begin_close :: "enet_event list" where
  "demo_begin_close = demo_connect @ Close # threads 7 @ [Send_list]"

definition demo_traffic :: "enet_event list" where
  "demo_traffic =
     demo_connect @ [Callback_thread, Callback_thread, Callback_thread, Callback_thread,
       Send [1] True, Send [2, 3] True, Send_list, Serve (Receive [9]), Send [4] True]"

lemma enet_demo_init: "init True (Some (ascii ''host'')) 9000 True True EnetClientImpl = (True, demo_client)"
  by (simp add: demo_client_def init_def)

lemma enet_started_ok:
  assumes "init sink host port initialized created EnetClientImpl = (True, s)"
  shows "monitors_ok s" "packets_ok s"
  using assms queue_ok_init awake_ok_init
  by (auto simp: init_def monitors_ok_def packets_ok_def consumer_ok_def set_running_def
      EnetClientImpl_def launch_consumer_def split: option.split_asm if_split_asm)

section \<open>Properties\<close>

text \<open>
  The sink is called in order and once. From a successful \<open>init\<close> on, the connect and
  close callbacks made are a prefix of the calls of \<open>on_connect\<close> and \<open>on_close\<close>, and
  the connects and closes carried out are a prefix of those requested; while the client
  runs, the rest is in the batch being handled or in the list, and a thread that waits
  although its list is not empty has a notification to come.
\<close>

theorem enet_callbacks_in_order:
  assumes "init sink host port initialized created EnetClientImpl = (True, s)"
    and "run enet_step s es t" and "c \<in> {event_monitor t, callback_monitor t}"
  shows "prefix (handled c) (puts c) \<and>
    (running c \<longrightarrow> puts c = handled c @ batch_rest (place c) @ items c) \<and>
    (running c \<and> items c \<noteq> [] \<and> place c = Asleep \<longrightarrow> 0 < wakeups c)"
proof -
  have "monitors_ok t"
    using monitors_ok.run_inv [OF assms(2)] enet_started_ok(1) [OF assms(1)] by blast
  then have "consumer_ok c" using assms(3) by (auto simp: monitors_ok_def)
  then show ?thesis by (auto simp: consumer_ok_def queue_ok_def awake_ok_def)
qed

theorem enet_callbacks_in_order_witness:
  "\<exists>t. run enet_step demo_client demo_traffic t \<and> handled (callback_monitor t) = [True] \<and>
     prefix (handled (callback_monitor t)) (puts (callback_monitor t))"
proof -
  have "\<exists>t. run enet_step demo_client demo_traffic t \<and> handled (callback_monitor t) = [True]"
    by (rule enet_exec.exec_ex) code_simp
  with enet_callbacks_in_order [OF enet_demo_init] show ?thesis by blast
qed

text \<open>
  C29: packets are handed to ENet in the order of the calls and at most once: the packets
  handed over and the queue are a subsequence of the packets accepted, and every packet
  accepted is handed over, queued, or dropped, with its number of occurrences (dropped
  are those a reconnect clears, and those ENet refuses).
\<close>

theorem enet_packets_in_order:
  assumes "init sink host port initialized created EnetClientImpl = (True, s)"
    and "run enet_step s es t"
  shows "subseq (handed t @ m_send_data_list t) (accepted t) \<and>
    mset (accepted t) = mset (handed t) + mset (dropped t) + mset (m_send_data_list t)"
  using packets_ok.run_inv [OF assms(2) enet_started_ok(2) [OF assms(1)]] by (simp add: packets_ok_def)

theorem enet_packets_in_order_witness:
  "\<exists>t. run enet_step demo_client demo_traffic t \<and> handed t = [[1], [2, 3]] \<and> accepted t = [[1], [2, 3], [4]] \<and>
     subseq (handed t @ m_send_data_list t) (accepted t)"
proof -
  have "\<exists>t. run enet_step demo_client demo_traffic t \<and>
      (handed t = [[1], [2, 3]] \<and> accepted t = [[1], [2, 3], [4]])"
    by (rule enet_exec.exec_ex) code_simp
  with enet_packets_in_order [OF enet_demo_init] show ?thesis by blast
qed

text \<open>A client that connects and closes, whose service call finds no event in time.\<close>

definition closing_run :: "enet_event list" where
  "closing_run = demo_begin_close @ [Serve Nothing, Event_thread]"

definition closed_client :: enet where
  "closed_client = the (exec enet_next closing_run demo_client)"

lemma closed_client:
  "run enet_step demo_client closing_run closed_client"
  "puts (event_monitor closed_client) = [True, False]"
  "puts (callback_monitor closed_client) = [True, False]"
  "m_running closed_client" "stuck closed_client"
proof -
  have "exec enet_next closing_run demo_client \<noteq> None" by code_simp
  then show "run enet_step demo_client closing_run closed_client"
    unfolding closed_client_def by (rule enet_exec.run_exec)
  show "puts (event_monitor closed_client) = [True, False]"
    "puts (callback_monitor closed_client) = [True, False]"
    "m_running closed_client" "stuck closed_client"
    by code_simp+
qed

text \<open>
  C38: after a close the client may never connect again. \<open>do_close\<close> asks ENet to
  disconnect, but the send thread ends at its next empty service call, so nothing waits
  for the acknowledgement: the only peer of the host stays in the state disconnecting,
  every later \<open>enet_host_connect\<close> fails, and the client is never connected again
  however often it is asked to be, until it is initialised anew.
\<close>

theorem enet_close_prevents_reconnect:
  "run enet_step demo_client closing_run closed_client \<and>
   puts (event_monitor closed_client) = [True, False] \<and>
   puts (callback_monitor closed_client) = [True, False] \<and> m_running closed_client \<and>
   (\<forall>fs t. run enet_step closed_client fs t \<longrightarrow>
      \<not> is_connected t \<and> enet_next (Host_connect True) t = None)"
proof (intro conjI allI impI)
  fix fs t assume "run enet_step closed_client fs t"
  then have "stuck t" using closed_client(5) by (rule stuck.run_inv)
  then show "\<not> is_connected t" "enet_next (Host_connect True) t = None"
    by (simp_all add: stuck_def is_connected_def enet_next_def)
qed (use closed_client in simp_all)

theorem enet_close_prevents_reconnect_witness:
  "\<exists>t. run enet_step closed_client (Connect # threads 7 @ [Host_connect False]) t \<and>
     puts (event_monitor t) = [True, False, True] \<and>
     puts (callback_monitor t) = [True, False, False] \<and> \<not> is_connected t"
proof -
  have "\<exists>t. run enet_step closed_client (Connect # threads 7 @ [Host_connect False]) t \<and>
      (puts (event_monitor t) = [True, False, True] \<and>
       puts (callback_monitor t) = [True, False, False])"
    by (rule enet_exec.exec_ex) code_simp
  then show ?thesis using enet_close_prevents_reconnect by blast
qed

text \<open>
  Closes are reported twice, or not at all. When the disconnect event arrives while
  \<open>do_close\<close> waits for the send thread, both report the close; a \<open>connect\<close> on a connected
  client resets the old connection and reports a second connect without a close.
\<close>

theorem enet_close_miscounted:
  "(\<exists>es s. run enet_step demo_client es s \<and> puts (event_monitor s) = [True, False] \<and>
      puts (callback_monitor s) = [True, False, False]) \<and>
   (\<exists>es s. run enet_step demo_client es s \<and> puts (event_monitor s) = [True, True] \<and>
      puts (callback_monitor s) = [True, True])"
proof -
  have "\<exists>s. run enet_step demo_client (demo_begin_close @ [Serve Disconnect, Event_thread]) s \<and>
      (puts (event_monitor s) = [True, False] \<and> puts (callback_monitor s) = [True, False, False])"
    by (rule enet_exec.exec_ex) code_simp
  moreover have "\<exists>s. run enet_step demo_client
      (demo_connect @ Connect # threads 7 @ [Send_list, Serve Nothing, Host_connect True, Host_service True]) s \<and>
      (puts (event_monitor s) = [True, True] \<and> puts (callback_monitor s) = [True, True])"
    by (rule enet_exec.exec_ex) code_simp
  ultimately show ?thesis by blast
qed

text \<open>
  \<open>exit\<close> can leave the send thread behind. \<open>exit\<close> closes the connection before it
  joins the event thread; a connection attempt that is under way then still succeeds and
  starts a send thread that nobody joins. When \<open>exit\<close> has returned, the ENet host is
  destroyed, the thread goes on using it, and destroying the joinable thread object
  terminates the process.
\<close>

theorem enet_exit_leaves_send_thread:
  "\<exists>es s. run enet_step demo_client es s \<and> leaving s = Left \<and> \<not> m_enet_host s \<and>
     m_send_data_thread s = Some Top \<and> enet_next Send_list s \<noteq> None"
proof -
  have "\<exists>s. run enet_step demo_client
      (Connect # threads 5 @ [Host_connect True, Exit, Exit, Host_service True] @ threads 3 @
       [Exit, Callback_thread, Exit]) s \<and>
      (leaving s = Left \<and> \<not> m_enet_host s \<and> m_send_data_thread s = Some Top)"
    by (rule enet_exec.exec_ex) code_simp
  then show ?thesis by (auto simp: enet_next_def)
qed

end
