(* ===== verification/Enet_Client_Api.thy ===== *)
theory Enet_Client_Api
  imports Enet_Client
begin

text \<open>
  src/enet_client/enet_client.cpp: \<open>EnetClient\<close>, the class users hold. It owns one
  \<open>EnetClientImpl\<close> (\<open>None\<close>: the null pointer), which every \<open>init\<close> makes anew, and
  forwards every call.
\<close>

type_synonym enet_client_api = "enet option"

definition EnetClient :: enet_client_api where
  "EnetClient = None"

text \<open>\<open>exit\<close> waits for the threads, see \<open>Enet_Client\<close>; the implementation is then deleted.\<close>

definition exit :: "enet_client_api \<Rightarrow> enet_client_api" where
  "exit w = None"

definition init ::
  "bool \<Rightarrow> bytes option \<Rightarrow> u16 \<Rightarrow> bool \<Rightarrow> bool \<Rightarrow> enet_client_api \<Rightarrow> bool \<times> enet_client_api" where
  "init sink host port initialized created w =
     (let w = exit w;
          (ok, impl) = Enet_Client.init sink host port initialized created EnetClientImpl
      in if ok then (True, Some impl) else (False, exit (Some impl)))"

definition connect :: "enet_client_api \<Rightarrow> enet_client_api" where
  "connect w = map_option Enet_Client.connect w"

definition close :: "enet_client_api \<Rightarrow> enet_client_api" where
  "close w = map_option Enet_Client.close w"

definition send_message :: "bytes \<Rightarrow> enet_client_api \<Rightarrow> bool \<times> enet_client_api" where
  "send_message packet w =
     (case w of
        None \<Rightarrow> (False, None)
      | Some impl \<Rightarrow> (let (r, impl) = Enet_Client.send_message packet impl in (r, Some impl)))"

text \<open>The overload for a raw buffer: \<open>None\<close> is the undefined read of a null pointer.\<close>

definition send_message_data ::
  "bytes option \<Rightarrow> u32 \<Rightarrow> enet_client_api \<Rightarrow> (bool \<times> enet_client_api) option" where
  "send_message_data data sz w =
     (case data of
        None \<Rightarrow> if sz = 0 then Some (send_message [] w) else None
      | Some d \<Rightarrow> Some (send_message (take (unat sz) d) w))"

definition is_connected :: "enet_client_api \<Rightarrow> bool" where
  "is_connected w = (case w of None \<Rightarrow> False | Some impl \<Rightarrow> Enet_Client.is_connected impl)"

text \<open>A client is ready exactly when the parameters and ENet allow it, and not connected.\<close>

lemma enet_init_cases:
  "fst (init sink host port initialized created w) =
     (host \<noteq> None \<and> port \<noteq> 0 \<and> initialized \<and> created)"
  "fst (init sink host port initialized created w) \<longleftrightarrow>
     snd (init sink host port initialized created w) \<noteq> None"
  "\<not> is_connected (snd (init sink host port initialized created w))"
  by (auto simp: init_def Enet_Client.init_def exit_def is_connected_def Enet_Client.is_connected_def
      EnetClientImpl_def set_running_def Let_def split: option.split)

lemma enet_init_server:
  "port \<noteq> 0 \<Longrightarrow> \<exists>c. init sink (Some host) port True True w = (True, Some c) \<and>
     m_host c = c_text (Some host) \<and> m_port c = port"
  by (simp add: init_def Enet_Client.init_def Let_def)

lemma enet_send_connected:
  "fst (send_message packet w) = is_connected w"
  by (simp add: send_message_def is_connected_def Enet_Client.send_message_def split: option.split)

end
