(* ===== verification/Wutnet_Client.thy ===== *)
theory Wutnet_Client
  imports Websocket_Client Enet_Client_Api Etcp_Client_Api
begin

text \<open>
  src/wutnet_client: one client interface over the three transports. An adapter class per
  transport implements \<open>WutnetBase\<close> and is the sink of its transport client;
  \<open>WutnetClientImpl\<close> owns the adapter chosen by \<open>wutnet_type\<close>, \<open>WutnetClient\<close> owns that.
  A result \<open>None\<close> of an \<open>init\<close> is an exception (an ETCP host that is no address), which
  leaves the objects made so far in place. A callback returns the calls made to the
  user's sink.
\<close>

section \<open>The adapters\<close>

record 'c adapter =
  m_running :: bool
  m_client :: 'c
  m_sink :: bool
  m_name :: bytes

datatype report =
    On_connect bytes
  | On_close bytes
  | On_error bytes bytes bytes
  | On_recv bytes bytes

text \<open>What the outside world answers to the clients' \<open>init\<close>.\<close>

record answers =
  valid :: "bytes \<Rightarrow> bool"
  initialized :: bool
  created :: bool

subsection \<open>WutnetOnWebsocket\<close>

definition WutnetOnWebsocket :: "websocket_client adapter" where
  "WutnetOnWebsocket = \<lparr>m_running = False, m_client = Websocket_Client.WebsocketClient, m_sink = False, m_name = ascii ''websocket''\<rparr>"

definition ws_exit :: "websocket_client adapter \<Rightarrow> websocket_client adapter" where
  "ws_exit a =
     (if Wutnet_Client.m_running a
      then a\<lparr>m_running := False, m_client := Websocket_Client.exit (m_client a), m_sink := False\<rparr> else a)"

definition ws_init ::
  "answers \<Rightarrow> bool \<Rightarrow> bytes option \<Rightarrow> u16 \<Rightarrow> bool \<Rightarrow> bytes option \<Rightarrow> u16 \<Rightarrow> bool \<Rightarrow> bytes option \<Rightarrow>
   websocket_client adapter \<Rightarrow> bool option \<times> websocket_client adapter" where
  "ws_init env sink th tp ts gh gp gs cd a =
     (let a = a\<lparr>m_running := True, m_sink := sink\<rparr>;
          (ok, c) = Websocket_Client.init True th tp ts gh gp gs cd (m_client a);
          a = a\<lparr>m_client := c\<rparr>
      in if ok then (Some True, a) else (Some False, ws_exit a))"

definition ws_connect :: "websocket_client adapter \<Rightarrow> websocket_client adapter" where
  "ws_connect a = a\<lparr>m_client := Websocket_Client.connect (m_client a)\<rparr>"

definition ws_close :: "websocket_client adapter \<Rightarrow> websocket_client adapter" where
  "ws_close a = a\<lparr>m_client := Websocket_Client.close (m_client a)\<rparr>"

definition ws_send_message :: "bool \<Rightarrow> bytes \<Rightarrow> websocket_client adapter \<Rightarrow> bool \<times> websocket_client adapter" where
  "ws_send_message accepts packet a =
     (let (r, c) = Websocket_Client.send_message accepts packet True (m_client a) in (r, a\<lparr>m_client := c\<rparr>))"

definition ws_is_connected :: "websocket_client adapter \<Rightarrow> bool" where
  "ws_is_connected a = Websocket_Client.is_connected (m_client a)"

definition on_websocket_connect :: "websocket_client adapter \<Rightarrow> report list" where
  "on_websocket_connect a = (if m_sink a then [On_connect (m_name a)] else [])"

definition on_websocket_close :: "websocket_client adapter \<Rightarrow> report list" where
  "on_websocket_close a = (if m_sink a then [On_close (m_name a)] else [])"

definition on_websocket_error :: "bytes \<Rightarrow> bytes \<Rightarrow> websocket_client adapter \<Rightarrow> report list" where
  "on_websocket_error action message a = (if m_sink a then [On_error (m_name a) action message] else [])"

definition on_websocket_recv :: "bytes \<Rightarrow> bool \<Rightarrow> websocket_client adapter \<Rightarrow> report list" where
  "on_websocket_recv packet binary a = (if m_sink a then [On_recv (m_name a) packet] else [])"

subsection \<open>WutnetOnEnet\<close>

definition WutnetOnEnet :: "enet_client_api adapter" where
  "WutnetOnEnet = \<lparr>m_running = False, m_client = Enet_Client_Api.EnetClient, m_sink = False, m_name = ascii ''enet''\<rparr>"

definition enet_exit :: "enet_client_api adapter \<Rightarrow> enet_client_api adapter" where
  "enet_exit a =
     (if Wutnet_Client.m_running a
      then a\<lparr>m_running := False, m_client := Enet_Client_Api.exit (m_client a), m_sink := False\<rparr> else a)"

definition enet_init ::
  "answers \<Rightarrow> bool \<Rightarrow> bytes option \<Rightarrow> u16 \<Rightarrow> bool \<Rightarrow> bytes option \<Rightarrow> u16 \<Rightarrow> bool \<Rightarrow> bytes option \<Rightarrow>
   enet_client_api adapter \<Rightarrow> bool option \<times> enet_client_api adapter" where
  "enet_init env sink th tp ts gh gp gs cd a =
     (let a = a\<lparr>m_running := True, m_sink := sink\<rparr>;
          (host, port) = (if c_text th = [] \<or> tp = 0 then (gh, gp) else (th, tp));
          (ok, c) = Enet_Client_Api.init True host port (initialized env) (created env) (m_client a);
          a = a\<lparr>m_client := c\<rparr>
      in if ok then (Some True, a) else (Some False, enet_exit a))"

definition enet_connect :: "enet_client_api adapter \<Rightarrow> enet_client_api adapter" where
  "enet_connect a = a\<lparr>m_client := Enet_Client_Api.connect (m_client a)\<rparr>"

definition enet_close :: "enet_client_api adapter \<Rightarrow> enet_client_api adapter" where
  "enet_close a = a\<lparr>m_client := Enet_Client_Api.close (m_client a)\<rparr>"

definition enet_send_message :: "bytes \<Rightarrow> enet_client_api adapter \<Rightarrow> bool \<times> enet_client_api adapter" where
  "enet_send_message packet a =
     (let (r, c) = Enet_Client_Api.send_message packet (m_client a) in (r, a\<lparr>m_client := c\<rparr>))"

definition enet_is_connected :: "enet_client_api adapter \<Rightarrow> bool" where
  "enet_is_connected a = Enet_Client_Api.is_connected (m_client a)"

definition on_enet_connect :: "enet_client_api adapter \<Rightarrow> report list" where
  "on_enet_connect a = (if m_sink a then [On_connect (m_name a)] else [])"

definition on_enet_close :: "enet_client_api adapter \<Rightarrow> report list" where
  "on_enet_close a = (if m_sink a then [On_close (m_name a)] else [])"

definition on_enet_error :: "bytes \<Rightarrow> bytes \<Rightarrow> enet_client_api adapter \<Rightarrow> report list" where
  "on_enet_error action message a = (if m_sink a then [On_error (m_name a) action message] else [])"

text \<open>The packet arrives as a pointer and a size; \<open>data\<close> is what follows the pointer.\<close>

definition on_enet_recv :: "bytes \<Rightarrow> u32 \<Rightarrow> enet_client_api adapter \<Rightarrow> report list" where
  "on_enet_recv data sz a = (if m_sink a then [On_recv (m_name a) (take (unat sz) data)] else [])"

subsection \<open>WutnetOnEtcp\<close>

definition WutnetOnEtcp :: "etcp_client_api adapter" where
  "WutnetOnEtcp = \<lparr>m_running = False, m_client = Etcp_Client_Api.EtcpClient, m_sink = False, m_name = ascii ''etcp''\<rparr>"

definition etcp_exit :: "etcp_client_api adapter \<Rightarrow> etcp_client_api adapter" where
  "etcp_exit a =
     (if Wutnet_Client.m_running a
      then a\<lparr>m_running := False, m_client := Etcp_Client_Api.exit (m_client a), m_sink := False\<rparr> else a)"

definition etcp_init ::
  "answers \<Rightarrow> bool \<Rightarrow> bytes option \<Rightarrow> u16 \<Rightarrow> bool \<Rightarrow> bytes option \<Rightarrow> u16 \<Rightarrow> bool \<Rightarrow> bytes option \<Rightarrow>
   etcp_client_api adapter \<Rightarrow> bool option \<times> etcp_client_api adapter" where
  "etcp_init env sink th tp ts gh gp gs cd a =
     (let a = a\<lparr>m_running := True, m_sink := sink\<rparr>;
          (result, c) = Etcp_Client_Api.init (valid env) True th tp gh gp cd (m_client a);
          a = a\<lparr>m_client := c\<rparr>
      in case result of
           None \<Rightarrow> (None, a)
         | Some True \<Rightarrow> (Some True, a)
         | Some False \<Rightarrow> (Some False, etcp_exit a))"

definition etcp_connect :: "etcp_client_api adapter \<Rightarrow> etcp_client_api adapter" where
  "etcp_connect a = a\<lparr>m_client := Etcp_Client_Api.connect (m_client a)\<rparr>"

definition etcp_close :: "etcp_client_api adapter \<Rightarrow> etcp_client_api adapter" where
  "etcp_close a = a\<lparr>m_client := Etcp_Client_Api.close (m_client a)\<rparr>"

definition etcp_send_message :: "bytes \<Rightarrow> etcp_client_api adapter \<Rightarrow> bool \<times> etcp_client_api adapter" where
  "etcp_send_message packet a =
     (let (r, c) = Etcp_Client_Api.send_message packet (m_client a) in (r, a\<lparr>m_client := c\<rparr>))"

definition etcp_is_connected :: "etcp_client_api adapter \<Rightarrow> bool" where
  "etcp_is_connected a = Etcp_Client_Api.is_connected (m_client a)"

definition on_etcp_connect :: "etcp_client_api adapter \<Rightarrow> report list" where
  "on_etcp_connect a = (if m_sink a then [On_connect (m_name a)] else [])"

definition on_etcp_close :: "etcp_client_api adapter \<Rightarrow> report list" where
  "on_etcp_close a = (if m_sink a then [On_close (m_name a)] else [])"

definition on_etcp_error :: "bytes \<Rightarrow> bytes \<Rightarrow> etcp_client_api adapter \<Rightarrow> report list" where
  "on_etcp_error action message a = (if m_sink a then [On_error (m_name a) action message] else [])"

definition on_etcp_recv :: "bytes \<Rightarrow> etcp_client_api adapter \<Rightarrow> report list" where
  "on_etcp_recv packet a = (if m_sink a then [On_recv (m_name a) packet] else [])"

section \<open>WutnetClientImpl\<close>

datatype wutnet =
    Ws "websocket_client adapter"
  | Enet "enet_client_api adapter"
  | Etcp "etcp_client_api adapter"

type_synonym wutnet_client_impl = "wutnet option"

definition WutnetClientImpl :: wutnet_client_impl where
  "WutnetClientImpl = None"

text \<open>\<open>exit\<close> leaves the adapter's own \<open>exit\<close>, and deletes it.\<close>

definition impl_exit :: "wutnet_client_impl \<Rightarrow> wutnet_client_impl" where
  "impl_exit m_wutnet = None"

text \<open>The virtual call of \<open>init\<close>, and \<open>init\<close>; \<open>wutnet_type\<close> is the byte of the enumeration.\<close>

definition base_init ::
  "answers \<Rightarrow> bool \<Rightarrow> bytes option \<Rightarrow> u16 \<Rightarrow> bytes option \<Rightarrow> u16 \<Rightarrow> bytes option \<Rightarrow>
   wutnet \<Rightarrow> bool option \<times> wutnet" where
  "base_init env sink th tp gh gp cd b =
     (case b of
        Ws a \<Rightarrow> map_prod id Ws (ws_init env sink th tp False gh gp False cd a)
      | Enet a \<Rightarrow> map_prod id Enet (enet_init env sink th tp False gh gp False cd a)
      | Etcp a \<Rightarrow> map_prod id Etcp (etcp_init env sink th tp False gh gp False cd a))"

definition impl_init ::
  "answers \<Rightarrow> bool \<Rightarrow> bytes option \<Rightarrow> u16 \<Rightarrow> bytes option \<Rightarrow> u16 \<Rightarrow> bytes option \<Rightarrow> byte \<Rightarrow>
   wutnet_client_impl \<Rightarrow> bool option \<times> wutnet_client_impl" where
  "impl_init env sink th tp gh gp cd wutnet_type m_wutnet =
     (let m_wutnet = impl_exit m_wutnet;
          made = (if wutnet_type = 0 then Some (Ws WutnetOnWebsocket)
                  else if wutnet_type = 1 then Some (Enet WutnetOnEnet)
                  else if wutnet_type = 2 then Some (Etcp WutnetOnEtcp) else None)
      in case made of
           None \<Rightarrow> (Some False, impl_exit made)
         | Some b \<Rightarrow>
             (case base_init env sink th tp gh gp cd b of
                (None, b) \<Rightarrow> (None, Some b)
              | (Some True, b) \<Rightarrow> (Some True, Some b)
              | (Some False, b) \<Rightarrow> (Some False, impl_exit (Some b))))"

definition impl_connect :: "wutnet_client_impl \<Rightarrow> wutnet_client_impl" where
  "impl_connect m_wutnet =
     map_option (\<lambda>b. case b of Ws a \<Rightarrow> Ws (ws_connect a) | Enet a \<Rightarrow> Enet (enet_connect a)
                             | Etcp a \<Rightarrow> Etcp (etcp_connect a)) m_wutnet"

definition impl_close :: "wutnet_client_impl \<Rightarrow> wutnet_client_impl" where
  "impl_close m_wutnet =
     map_option (\<lambda>b. case b of Ws a \<Rightarrow> Ws (ws_close a) | Enet a \<Rightarrow> Enet (enet_close a)
                             | Etcp a \<Rightarrow> Etcp (etcp_close a)) m_wutnet"

definition impl_send_message :: "bool \<Rightarrow> bytes \<Rightarrow> wutnet_client_impl \<Rightarrow> bool \<times> wutnet_client_impl" where
  "impl_send_message accepts packet m_wutnet =
     (case m_wutnet of
        None \<Rightarrow> (False, None)
      | Some (Ws a) \<Rightarrow> map_prod id (\<lambda>a. Some (Ws a)) (ws_send_message accepts packet a)
      | Some (Enet a) \<Rightarrow> map_prod id (\<lambda>a. Some (Enet a)) (enet_send_message packet a)
      | Some (Etcp a) \<Rightarrow> map_prod id (\<lambda>a. Some (Etcp a)) (etcp_send_message packet a))"

definition impl_is_connected :: "wutnet_client_impl \<Rightarrow> bool" where
  "impl_is_connected m_wutnet =
     (case m_wutnet of
        None \<Rightarrow> False
      | Some (Ws a) \<Rightarrow> ws_is_connected a
      | Some (Enet a) \<Rightarrow> enet_is_connected a
      | Some (Etcp a) \<Rightarrow> etcp_is_connected a)"

section \<open>WutnetClient\<close>

type_synonym wutnet_client = "wutnet_client_impl option"

definition WutnetClient :: wutnet_client where
  "WutnetClient = None"

definition exit :: "wutnet_client \<Rightarrow> wutnet_client" where
  "exit m_impl = None"

definition init ::
  "answers \<Rightarrow> bool \<Rightarrow> bytes option \<Rightarrow> u16 \<Rightarrow> bytes option \<Rightarrow> u16 \<Rightarrow> bytes option \<Rightarrow> byte \<Rightarrow>
   wutnet_client \<Rightarrow> bool option \<times> wutnet_client" where
  "init env sink th tp gh gp cd wutnet_type m_impl =
     (let m_impl = exit m_impl
      in case impl_init env sink th tp gh gp cd wutnet_type WutnetClientImpl of
           (None, i) \<Rightarrow> (None, Some i)
         | (Some True, i) \<Rightarrow> (Some True, Some i)
         | (Some False, i) \<Rightarrow> (Some False, exit (Some i)))"

definition connect :: "wutnet_client \<Rightarrow> wutnet_client" where
  "connect m_impl = map_option impl_connect m_impl"

definition close :: "wutnet_client \<Rightarrow> wutnet_client" where
  "close m_impl = map_option impl_close m_impl"

definition send_message :: "bool \<Rightarrow> bytes \<Rightarrow> wutnet_client \<Rightarrow> bool \<times> wutnet_client" where
  "send_message accepts packet m_impl =
     (case m_impl of
        None \<Rightarrow> (False, None)
      | Some i \<Rightarrow> map_prod id Some (impl_send_message accepts packet i))"

definition is_connected :: "wutnet_client \<Rightarrow> bool" where
  "is_connected m_impl = (case m_impl of None \<Rightarrow> False | Some i \<Rightarrow> impl_is_connected i)"

section \<open>The contract of WutnetBase\<close>

text \<open>
  What \<open>WutnetClientImpl\<close> needs of an adapter: an \<open>init\<close> that says whether it has a
  client, a client that starts out disconnected, and nothing sent or connected without.
\<close>

locale wutnet_base =
  fixes start :: "'s \<Rightarrow> bool option \<times> 's"
    and fresh :: 's
    and send :: "bytes \<Rightarrow> 's \<Rightarrow> bool \<times> 's"
    and connected :: "'s \<Rightarrow> bool"
    and live :: "'s \<Rightarrow> bool"
  assumes start_live: "fst (start fresh) = Some ok \<Longrightarrow> live (snd (start fresh)) = ok"
    and start_disconnected: "\<not> connected (snd (start fresh))"
    and dead_send: "\<not> live a \<Longrightarrow> \<not> fst (send p a)"
    and dead_connected: "\<not> live a \<Longrightarrow> \<not> connected a"
begin

lemma failed_start_inert:
  "fst (start fresh) = Some False \<Longrightarrow> \<not> fst (send p (snd (start fresh)))"
  using start_live [of False] dead_send by blast

end

lemmas ws_defs = ws_init_def ws_exit_def WutnetOnWebsocket_def ws_is_connected_def
  ws_send_message_def Websocket_Client.is_connected_def Websocket_Client.send_message_def
  send_message_data_def Websocket_Client.exit_def

text \<open>The adapter of a fresh client has what the client's \<open>init\<close> returned.\<close>

lemma ws_init_client:
  fixes env sink th tp ts gh gp gs cd
  defines "r \<equiv> Websocket_Client.init True th tp ts gh gp gs cd WebsocketClient"
  shows "fst (ws_init env sink th tp ts gh gp gs cd WutnetOnWebsocket) = Some (fst r)"
    "m_client (snd (ws_init env sink th tp ts gh gp gs cd WutnetOnWebsocket)) = snd r"
  using Websocket_Client.init_disconnected [of True th tp ts gh gp gs cd WebsocketClient]
  unfolding r_def
  by (cases "Websocket_Client.init True th tp ts gh gp gs cd WebsocketClient";
      simp add: ws_init_def ws_exit_def Websocket_Client.exit_def WutnetOnWebsocket_def Let_def)+

lemma enet_init_client:
  fixes env sink th tp ts gh gp gs cd
  defines "d \<equiv> (if c_text th = [] \<or> tp = 0 then (gh, gp) else (th, tp))"
  defines "r \<equiv> Enet_Client_Api.init True (fst d) (snd d) (initialized env) (created env) EnetClient"
  shows "fst (enet_init env sink th tp ts gh gp gs cd WutnetOnEnet) = Some (fst r)"
    "m_client (snd (enet_init env sink th tp ts gh gp gs cd WutnetOnEnet)) = snd r"
proof -
  obtain ok c where r: "r = (ok, c)" by (cases r)
  have l: "ok \<longleftrightarrow> c \<noteq> None"
    using enet_init_cases(2) [of True "fst d" "snd d" "initialized env" "created env" EnetClient] r
    by (simp add: r_def)
  have "enet_init env sink th tp ts gh gp gs cd WutnetOnEnet =
      (let a = WutnetOnEnet\<lparr>m_running := True, m_sink := sink, m_client := c\<rparr>
       in if ok then (Some True, a) else (Some False, enet_exit a))"
    using r by (cases "c_text th = [] \<or> tp = 0")
      (auto simp: enet_init_def r_def d_def WutnetOnEnet_def Let_def)
  with l show "fst (enet_init env sink th tp ts gh gp gs cd WutnetOnEnet) = Some (fst r)"
    "m_client (snd (enet_init env sink th tp ts gh gp gs cd WutnetOnEnet)) = snd r"
    by (simp_all add: r enet_exit_def Enet_Client_Api.exit_def WutnetOnEnet_def Let_def)
qed

lemma etcp_init_client:
  fixes env sink th tp ts gh gp gs cd
  defines "r \<equiv> Etcp_Client_Api.init (valid env) True th tp gh gp cd EtcpClient"
  shows "fst (etcp_init env sink th tp ts gh gp gs cd WutnetOnEtcp) = fst r"
    "m_client (snd (etcp_init env sink th tp ts gh gp gs cd WutnetOnEtcp)) = snd r"
proof -
  obtain ok c where r: "r = (ok, c)" by (cases r)
  have l: "ok = Some False \<Longrightarrow> c = None"
    using etcp_init_live(1) [of "valid env" True th tp gh gp cd EtcpClient] r by (simp add: r_def)
  have "etcp_init env sink th tp ts gh gp gs cd WutnetOnEtcp =
      (let a = WutnetOnEtcp\<lparr>m_running := True, m_sink := sink, m_client := c\<rparr>
       in case ok of None \<Rightarrow> (None, a) | Some True \<Rightarrow> (Some True, a) | Some False \<Rightarrow> (Some False, etcp_exit a))"
    using r by (auto simp: etcp_init_def r_def WutnetOnEtcp_def Let_def split: option.split bool.split)
  with l show "fst (etcp_init env sink th tp ts gh gp gs cd WutnetOnEtcp) = fst r"
    "m_client (snd (etcp_init env sink th tp ts gh gp gs cd WutnetOnEtcp)) = snd r"
    by (cases ok rule: option.exhaust;
        auto simp: r etcp_exit_def Etcp_Client_Api.exit_def WutnetOnEtcp_def Let_def split: bool.split)+
qed

text \<open>The three adapters keep the contract, each for every argument of \<open>init\<close>.\<close>

interpretation ws_base: wutnet_base
  "\<lambda>a. ws_init env sink th tp ts gh gp gs cd a" WutnetOnWebsocket "ws_send_message accepts"
  ws_is_connected "\<lambda>a. m_client a \<noteq> None"
  for env sink th tp ts gh gp gs cd accepts
  using Websocket_Client.init_disconnected [of True th tp ts gh gp gs cd WebsocketClient]
  by unfold_locales
    (auto simp: ws_init_client ws_is_connected_def Websocket_Client.is_connected_def
      ws_send_message_def Websocket_Client.send_message_def Websocket_Client.send_message_data_def)

interpretation enet_base: wutnet_base
  "\<lambda>a. enet_init env sink th tp ts gh gp gs cd a" WutnetOnEnet enet_send_message
  enet_is_connected "\<lambda>a. m_client a \<noteq> None"
  for env sink th tp ts gh gp gs cd
  using enet_init_cases(2,3)
  by unfold_locales
    (simp_all add: enet_init_client enet_is_connected_def Enet_Client_Api.is_connected_def
      enet_send_message_def Enet_Client_Api.send_message_def)

interpretation etcp_base: wutnet_base
  "\<lambda>a. etcp_init env sink th tp ts gh gp gs cd a" WutnetOnEtcp etcp_send_message
  etcp_is_connected "\<lambda>a. m_client a \<noteq> None"
  for env sink th tp ts gh gp gs cd
  using etcp_init_live [of "valid env" True th tp gh gp cd EtcpClient]
  by unfold_locales
    (auto simp: etcp_init_client etcp_is_connected_def Etcp_Client_Api.is_connected_def
      etcp_send_message_def Etcp_Client_Api.send_message_def)

lemma base_init_adapter:
  "base_init env sink th tp gh gp cd (Ws WutnetOnWebsocket) =
     map_prod id Ws (ws_init env sink th tp False gh gp False cd WutnetOnWebsocket)"
  "base_init env sink th tp gh gp cd (Enet WutnetOnEnet) =
     map_prod id Enet (enet_init env sink th tp False gh gp False cd WutnetOnEnet)"
  "base_init env sink th tp gh gp cd (Etcp WutnetOnEtcp) =
     map_prod id Etcp (etcp_init env sink th tp False gh gp False cd WutnetOnEtcp)"
  by (simp_all add: base_init_def)

text \<open>The result of \<open>init\<close> for each transport, in terms of its adapter's.\<close>

definition kept :: "(bool option \<times> wutnet) \<Rightarrow> bool option \<times> wutnet_client" where
  "kept r = (fst r, if fst r = Some False then None else Some (Some (snd r)))"

lemma init_type:
  "init env sink th tp gh gp cd 0 w = kept (base_init env sink th tp gh gp cd (Ws WutnetOnWebsocket))"
  "init env sink th tp gh gp cd 1 w = kept (base_init env sink th tp gh gp cd (Enet WutnetOnEnet))"
  "init env sink th tp gh gp cd 2 w = kept (base_init env sink th tp gh gp cd (Etcp WutnetOnEtcp))"
  "ty \<noteq> 0 \<Longrightarrow> ty \<noteq> 1 \<Longrightarrow> ty \<noteq> 2 \<Longrightarrow> init env sink th tp gh gp cd ty w = (Some False, None)"
  by (auto simp: init_def impl_init_def exit_def kept_def Let_def
      split: prod.split option.split bool.split)

lemma type_cases:
  fixes ty :: byte
  obtains "ty = 0" | "ty = 1" | "ty = 2" | "ty \<noteq> 0" "ty \<noteq> 1" "ty \<noteq> 2"
  by blast

lemmas virtual_defs = is_connected_def impl_is_connected_def send_message_def impl_send_message_def

text \<open>The server a client is going to contact, as the fields of its transport say.\<close>

definition dials :: "wutnet_client \<Rightarrow> (bytes \<times> nat) \<Rightarrow> bool" where
  "dials w server \<longleftrightarrow>
     (case w of
        Some (Some (Ws a)) \<Rightarrow>
          (case m_client a of
             None \<Rightarrow> False
           | Some m \<Rightarrow> (\<exists>r. m_gateway_url (session m) =
               ascii ''ws://'' @ fst server @ ascii '':'' @ to_string (snd server) @ r))
      | Some (Some (Enet a)) \<Rightarrow>
          (case m_client a of
             None \<Rightarrow> False
           | Some c \<Rightarrow> (m_host c, unat (m_port c)) = server)
      | Some (Some (Etcp a)) \<Rightarrow>
          (case m_client a of
             None \<Rightarrow> False
           | Some c \<Rightarrow> (fst (m_endpoint c), unat (snd (m_endpoint c))) = server)
      | _ \<Rightarrow> False)"

lemma dials_type:
  "base_init env sink th tp gh gp cd (Ws WutnetOnWebsocket) = (Some True, Ws a) \<Longrightarrow>
     dials (snd (init env sink th tp gh gp cd 0 w)) server = dials (Some (Some (Ws a))) server"
  "base_init env sink th tp gh gp cd (Enet WutnetOnEnet) = (Some True, Enet b) \<Longrightarrow>
     dials (snd (init env sink th tp gh gp cd 1 w)) server = dials (Some (Some (Enet b))) server"
  "base_init env sink th tp gh gp cd (Etcp WutnetOnEtcp) = (Some True, Etcp c) \<Longrightarrow>
     dials (snd (init env sink th tp gh gp cd 2 w)) server = dials (Some (Some (Etcp c))) server"
  by (simp_all add: init_type kept_def)

lemma ws_dials:
  fixes th gh cd w sink env and tp gp :: u16
  defines "gateway \<equiv> c_text gh \<noteq> [] \<and> gp \<noteq> 0"
  assumes "c_text th \<noteq> [] \<and> tp \<noteq> 0 \<or> gateway"
  shows "dials (snd (init env sink th tp gh gp cd 0 w))
    (if gateway then (c_text gh, unat gp) else (c_text th, unat tp))"
proof -
  let ?r = "Websocket_Client.init True th tp False gh gp False cd WebsocketClient"
  let ?a = "snd (ws_init env sink th tp False gh gp False cd WutnetOnWebsocket)"
  have "\<exists>m. ?r = (True, Some m) \<and>
      (\<exists>r. m_gateway_url (session m) =
         (if gateway then ascii ''ws://'' @ c_text gh @ ascii '':'' @ to_string (unat gp)
          else ascii ''ws://'' @ c_text th @ ascii '':'' @ to_string (unat tp)) @ r)"
  proof (cases "host_url th tp False = []")
    case True
    then have g: gateway using assms by (auto simp: host_url_cases)
    then have "gateway_url [] gh gp False cd \<noteq> []" by (simp add: gateway_url_empty gateway_def)
    from init_gateway [OF True this] g show ?thesis
      by (auto simp: session_urls_def gateway_url_def host_url_def scheme_def gateway_def Let_def)
  next
    case False
    then have t: "c_text th \<noteq> []" "tp \<noteq> 0" by (auto simp: host_url_cases)
    show ?thesis
      using init_target [OF False, of True gh gp False cd WebsocketClient] t
      by (auto simp: session_urls_def gateway_url_def host_url_def scheme_def gateway_def Let_def)
  qed
  then obtain m r where m: "?r = (True, Some m)" "m_gateway_url (session m) =
      (if gateway then ascii ''ws://'' @ c_text gh @ ascii '':'' @ to_string (unat gp)
       else ascii ''ws://'' @ c_text th @ ascii '':'' @ to_string (unat tp)) @ r" by blast
  have b: "base_init env sink th tp gh gp cd (Ws WutnetOnWebsocket) = (Some True, Ws ?a)"
    using ws_init_client(1) [of env sink th tp False gh gp False cd] m(1)
    by (simp add: base_init_adapter map_prod_def split_beta)
  show ?thesis
    unfolding dials_type(1) [OF b]
    using ws_init_client(2) [of env sink th tp False gh gp False cd] m
    by (auto simp: dials_def)
qed

lemma enet_dials:
  fixes th gh cd w sink env and tp gp :: u16
  defines "target \<equiv> c_text th \<noteq> [] \<and> tp \<noteq> 0"
  assumes "target \<or> c_text gh \<noteq> [] \<and> gp \<noteq> 0" "initialized env" "created env"
  shows "dials (snd (init env sink th tp gh gp cd 1 w))
    (if target then (c_text th, unat tp) else (c_text gh, unat gp))"
proof -
  let ?d = "if c_text th = [] \<or> tp = 0 then (gh, gp) else (th, tp)"
  let ?r = "Enet_Client_Api.init True (fst ?d) (snd ?d) (initialized env) (created env) EnetClient"
  let ?a = "snd (enet_init env sink th tp False gh gp False cd WutnetOnEnet)"
  obtain host where h: "fst ?d = Some host" "snd ?d \<noteq> 0"
    using assms(2) by (cases "fst ?d") (auto simp: target_def c_text_def split: if_split_asm option.split_asm)
  with enet_init_server [of "snd ?d" True host EnetClient] assms(3,4) obtain c where
    c: "?r = (True, Some c)" "m_host c = c_text (fst ?d)" "m_port c = snd ?d" by auto
  have b: "base_init env sink th tp gh gp cd (Enet WutnetOnEnet) = (Some True, Enet ?a)"
    using enet_init_client(1) [of env sink th tp False gh gp False cd] c(1)
    by (simp add: base_init_adapter map_prod_def split_beta)
  show ?thesis
    unfolding dials_type(2) [OF b]
    using enet_init_client(2) [of env sink th tp False gh gp False cd] c
    by (auto simp: dials_def target_def split: if_split_asm)
qed

lemma etcp_dials:
  fixes th gh cd w sink env and tp gp :: u16
  defines "gateway \<equiv> c_text gh \<noteq> [] \<and> gp \<noteq> 0"
  defines "via \<equiv> (if gateway then (c_text gh, unat gp) else (c_text th, unat tp))"
  assumes "c_text th \<noteq> [] \<and> tp \<noteq> 0 \<or> gateway" "valid env (fst via)"
  shows "dials (snd (init env sink th tp gh gp cd 2 w)) via"
proof -
  let ?r = "Etcp_Client_Api.init (valid env) True th tp gh gp cd EtcpClient"
  let ?a = "snd (etcp_init env sink th tp False gh gp False cd WutnetOnEtcp)"
  obtain impl where i: "?r = (Some True, Some impl)"
    "(fst (m_endpoint impl), unat (snd (m_endpoint impl))) = via"
    using etcp_init_endpoint [of th tp gh gp "valid env" True cd EtcpClient] assms(3,4)
    by (auto simp: via_def gateway_def split: if_split_asm)
  have b: "base_init env sink th tp gh gp cd (Etcp WutnetOnEtcp) = (Some True, Etcp ?a)"
    using etcp_init_client(1) [of env sink th tp False gh gp False cd] i(1)
    by (simp add: base_init_adapter map_prod_def split_beta)
  show ?thesis
    unfolding dials_type(3) [OF b]
    using etcp_init_client(2) [of env sink th tp False gh gp False cd] i
    by (simp add: dials_def)
qed

section \<open>Properties\<close>

text \<open>
  A client after \<open>init\<close>, whatever the transport. There is one exactly when \<open>init\<close> did
  not return false; it is not connected; without one nothing is sent; and an unknown
  transport is refused.
\<close>

theorem wutnet_init_result:
  "(fst (init env sink th tp gh gp cd ty w) = Some False \<longleftrightarrow>
      snd (init env sink th tp gh gp cd ty w) = None) \<and>
   \<not> is_connected (snd (init env sink th tp gh gp cd ty w)) \<and>
   (fst (init env sink th tp gh gp cd ty w) = Some False \<longrightarrow>
      \<not> fst (send_message accepts p (snd (init env sink th tp gh gp cd ty w)))) \<and>
   (unat ty > 2 \<longrightarrow> fst (init env sink th tp gh gp cd ty w) = Some False)"
proof (cases ty rule: type_cases)
  case 1
  then show ?thesis
    using ws_base.start_disconnected [of env sink th tp False gh gp False cd]
    by (simp add: init_type kept_def base_init_adapter virtual_defs)
next
  case 2
  then show ?thesis
    using enet_base.start_disconnected [of env sink th tp False gh gp False cd]
    by (simp add: init_type kept_def base_init_adapter virtual_defs)
next
  case 3
  then show ?thesis
    using etcp_base.start_disconnected [of env sink th tp False gh gp False cd]
    by (simp add: init_type kept_def base_init_adapter virtual_defs)
next
  case 4
  then show ?thesis by (simp add: init_type virtual_defs)
qed

theorem wutnet_init_result_witness:
  "fst (init \<lparr>valid = (\<lambda>h. True), initialized = True, created = True\<rparr> True None 0 None 0 None 7 None) =
     Some False"
  using wutnet_init_result [of "\<lparr>valid = (\<lambda>h. True), initialized = True, created = True\<rparr>"
      True None 0 None 0 None 7 None] by simp



definition callbacks_ws :: "websocket_client adapter \<Rightarrow> bytes \<Rightarrow> bytes \<Rightarrow> bytes \<Rightarrow> bool \<Rightarrow> report list list" where
  "callbacks_ws a action message packet binary =
     [on_websocket_connect a, on_websocket_close a, on_websocket_error action message a,
      on_websocket_recv packet binary a]"

definition callbacks_enet :: "enet_client_api adapter \<Rightarrow> bytes \<Rightarrow> bytes \<Rightarrow> bytes \<Rightarrow> report list list" where
  "callbacks_enet a action message packet =
     [on_enet_connect a, on_enet_close a, on_enet_error action message a,
      on_enet_recv packet (of_nat (length packet)) a]"

definition callbacks_etcp :: "etcp_client_api adapter \<Rightarrow> bytes \<Rightarrow> bytes \<Rightarrow> bytes \<Rightarrow> report list list" where
  "callbacks_etcp a action message packet =
     [on_etcp_connect a, on_etcp_close a, on_etcp_error action message a, on_etcp_recv packet a]"

fun renamed :: "bytes \<Rightarrow> report \<Rightarrow> report" where
  "renamed n (On_connect _) = On_connect n"
| "renamed n (On_close _) = On_close n"
| "renamed n (On_error _ a m) = On_error n a m"
| "renamed n (On_recv _ p) = On_recv n p"

text \<open>
  The three adapters agree. For the same callback of the transport the user's sink
  gets the same call, but for the name of the transport, and none without a sink.
\<close>

theorem wutnet_adapters_agree:
  assumes "m_sink a = m_sink b" and "m_sink b = m_sink c" and "length packet < 2 ^ 32"
  shows "map (map (renamed n)) (callbacks_ws a action message packet binary) =
      map (map (renamed n)) (callbacks_enet b action message packet) \<and>
    map (map (renamed n)) (callbacks_enet b action message packet) =
      map (map (renamed n)) (callbacks_etcp c action message packet) \<and>
    (\<not> m_sink a \<longrightarrow> concat (callbacks_ws a action message packet binary) = [])"
proof -
  have "unat (of_nat (length packet) :: u32) = length packet"
    using assms(3) by (simp add: unat_of_nat)
  with assms(1,2) show ?thesis
    by (simp add: callbacks_ws_def callbacks_enet_def callbacks_etcp_def
        on_websocket_connect_def on_websocket_close_def on_websocket_error_def on_websocket_recv_def
        on_enet_connect_def on_enet_close_def on_enet_error_def on_enet_recv_def
        on_etcp_connect_def on_etcp_close_def on_etcp_error_def on_etcp_recv_def)
qed

theorem wutnet_adapters_agree_witness:
  "map (map (renamed [])) (callbacks_ws (WutnetOnWebsocket\<lparr>m_sink := True\<rparr>) [1] [2] [3] True) =
     map (map (renamed [])) (callbacks_enet (WutnetOnEnet\<lparr>m_sink := True\<rparr>) [1] [2] [3])"
  using wutnet_adapters_agree [of "WutnetOnWebsocket\<lparr>m_sink := True\<rparr>" "WutnetOnEnet\<lparr>m_sink := True\<rparr>"
      "WutnetOnEtcp\<lparr>m_sink := True\<rparr>" "[3]" "[]" "[1]" "[2]" True] by simp

end
