(* ===== verification/Task_Actuator.thy ===== *)
theory Task_Actuator
  imports Prelude "HOL-Library.Multiset"
begin

text \<open>
  src/task_actuator/task_actuator.hpp: a pool of threads that run queued tasks. The
  threads, the callers of \<open>async_exec\<close> and the destructor interleave at the granularity
  of the lock operations, of the unlocked reads of \<open>m_running\<close> and of the wait. A task
  is a number; its body is the client's code and returns when \<open>Worker\<close> takes the step
  out of \<open>Run\<close>. \<open>m_running\<close> is read and written sequentially consistently.
\<close>

section \<open>State\<close>

text \<open>
  Where a thread is: \<open>Loop\<close> before the outer test, \<open>Lock\<close> asking for the mutex, \<open>Check\<close>
  before the inner test, \<open>Block\<close> decided to wait and still holding the mutex, \<open>Wait\<close>
  inside \<open>wait\<close>, \<open>Woken\<close> asking for the mutex again, \<open>Leave\<close> behind the inner loop.
\<close>

datatype worker = Loop | Lock | Check | Block | Wait | Woken | Leave | Run nat | Ended

datatype destructor = Alive | Stopped | Notified | Destroyed

record actuator =
  m_running :: bool
  m_threads :: "worker list"
  m_task_queue :: "nat list"
  m_task_mutex :: "nat option"
  notifications :: nat
  destruction :: destructor
  accepted :: "nat list"
  taken :: "nat list"
  finished :: "nat list"

definition TaskActuator :: "nat \<Rightarrow> actuator" where
  "TaskActuator thread_count =
     \<lparr>m_running = True, m_threads = replicate thread_count Loop, m_task_queue = [],
      m_task_mutex = None, notifications = 0, destruction = Alive,
      accepted = [], taken = [], finished = []\<rparr>"

section \<open>The threads\<close>

definition set_worker :: "nat \<Rightarrow> worker \<Rightarrow> actuator \<Rightarrow> actuator" where
  "set_worker w p s = s\<lparr>m_threads := (m_threads s)[w := p]\<rparr>"

definition lock :: "nat \<Rightarrow> actuator \<Rightarrow> actuator option" where
  "lock w s =
     (if m_task_mutex s = None then Some (set_worker w Check (s\<lparr>m_task_mutex := Some w\<rparr>)) else None)"

text \<open>The statements behind the inner loop: \<open>break\<close>, \<open>continue\<close>, or the first task.\<close>

definition take_task :: "nat \<Rightarrow> actuator \<Rightarrow> actuator" where
  "take_task w s =
     (let s' = s\<lparr>m_task_mutex := None\<rparr>
      in if \<not> m_running s then set_worker w Ended s'
         else case m_task_queue s of
                [] \<Rightarrow> set_worker w Loop s'
              | t # q \<Rightarrow> set_worker w (Run t) (s'\<lparr>m_task_queue := q, taken := taken s @ [t]\<rparr>))"

definition worker_next :: "nat \<Rightarrow> actuator \<Rightarrow> actuator option" where
  "worker_next w s =
     (case m_threads s ! w of
        Loop \<Rightarrow> Some (set_worker w (if m_running s then Lock else Ended) s)
      | Lock \<Rightarrow> lock w s
      | Check \<Rightarrow>
          Some (set_worker w (if m_running s \<and> m_task_queue s = [] then Block else Leave) s)
      | Block \<Rightarrow> Some (set_worker w Wait (s\<lparr>m_task_mutex := None\<rparr>))
      | Wait \<Rightarrow> None
      | Woken \<Rightarrow> lock w s
      | Leave \<Rightarrow> Some (take_task w s)
      | Run t \<Rightarrow> Some (set_worker w Loop (s\<lparr>finished := finished s @ [t]\<rparr>))
      | Ended \<Rightarrow> None)"

section \<open>Submission and destruction\<close>

definition async_exec :: "nat \<Rightarrow> actuator \<Rightarrow> actuator" where
  "async_exec t s =
     (let s' = (if m_running s
                then s\<lparr>m_task_queue := m_task_queue s @ [t], accepted := accepted s @ [t]\<rparr>
                else s)
      in s'\<lparr>notifications := Suc (notifications s)\<rparr>)"

text \<open>\<open>notify_one\<close> wakes one waiting thread, when there is one.\<close>

definition wake :: "nat \<Rightarrow> actuator \<Rightarrow> actuator" where
  "wake w s = (if m_threads s ! w = Wait then set_worker w Woken s else s)"

definition notify_all :: "actuator \<Rightarrow> actuator" where
  "notify_all s = s\<lparr>m_threads := map (\<lambda>p. if p = Wait then Woken else p) (m_threads s)\<rparr>"

text \<open>
  The destructor in its three statements: the flag, without the mutex; the notification;
  the joins, which return when every thread has ended.
\<close>

definition destroy_stop :: "actuator \<Rightarrow> actuator" where
  "destroy_stop s = s\<lparr>m_running := False, destruction := Stopped\<rparr>"

definition destroy_notify :: "actuator \<Rightarrow> actuator" where
  "destroy_notify s = (notify_all s)\<lparr>destruction := Notified\<rparr>"

definition destroy_join :: "actuator \<Rightarrow> actuator" where
  "destroy_join s = s\<lparr>destruction := Destroyed\<rparr>"

section \<open>Steps\<close>

datatype actuator_event =
    Worker nat
  | Spurious nat
  | Exec nat
  | Notify nat
  | Notify_none
  | Stop
  | Notify_all
  | Join

inductive actuator_step :: "actuator \<Rightarrow> actuator_event \<Rightarrow> actuator \<Rightarrow> bool" where
  a_worker: "w < length (m_threads s) \<Longrightarrow> worker_next w s = Some t \<Longrightarrow>
     actuator_step s (Worker w) t"
| a_spurious: "w < length (m_threads s) \<Longrightarrow> m_threads s ! w = Wait \<Longrightarrow>
     actuator_step s (Spurious w) (wake w s)"
| a_exec: "m_task_mutex s = None \<Longrightarrow> actuator_step s (Exec t) (async_exec t s)"
| a_notify: "notifications s = Suc n \<Longrightarrow> w < length (m_threads s) \<Longrightarrow> m_threads s ! w = Wait \<Longrightarrow>
     actuator_step s (Notify w) (wake w (s\<lparr>notifications := n\<rparr>))"
| a_notify_none: "notifications s = Suc n \<Longrightarrow> Wait \<notin> set (m_threads s) \<Longrightarrow>
     actuator_step s Notify_none (s\<lparr>notifications := n\<rparr>)"
| a_stop: "destruction s = Alive \<Longrightarrow> actuator_step s Stop (destroy_stop s)"
| a_notify_all: "destruction s = Stopped \<Longrightarrow> actuator_step s Notify_all (destroy_notify s)"
| a_join: "destruction s = Notified \<Longrightarrow> set (m_threads s) \<subseteq> {Ended} \<Longrightarrow>
     actuator_step s Join (destroy_join s)"

definition actuator_next :: "actuator_event \<Rightarrow> actuator \<Rightarrow> actuator option" where
  "actuator_next e s =
     (case e of
        Worker w \<Rightarrow> if w < length (m_threads s) then worker_next w s else None
      | Spurious w \<Rightarrow>
          if w < length (m_threads s) \<and> m_threads s ! w = Wait then Some (wake w s) else None
      | Exec t \<Rightarrow> if m_task_mutex s = None then Some (async_exec t s) else None
      | Notify w \<Rightarrow>
          if 0 < notifications s \<and> w < length (m_threads s) \<and> m_threads s ! w = Wait
          then Some (wake w (s\<lparr>notifications := notifications s - 1\<rparr>)) else None
      | Notify_none \<Rightarrow>
          if 0 < notifications s \<and> Wait \<notin> set (m_threads s)
          then Some (s\<lparr>notifications := notifications s - 1\<rparr>) else None
      | Stop \<Rightarrow> if destruction s = Alive then Some (destroy_stop s) else None
      | Notify_all \<Rightarrow> if destruction s = Stopped then Some (destroy_notify s) else None
      | Join \<Rightarrow>
          if destruction s = Notified \<and> set (m_threads s) \<subseteq> {Ended}
          then Some (destroy_join s) else None)"

inductive_simps actuator_step_simps:
  "actuator_step s (Worker w) t"
  "actuator_step s (Spurious w) t"
  "actuator_step s (Exec n) t"
  "actuator_step s (Notify w) t"
  "actuator_step s Notify_none t"
  "actuator_step s Stop t"
  "actuator_step s Notify_all t"
  "actuator_step s Join t"

lemma actuator_step_iff: "actuator_step s e t \<longleftrightarrow> actuator_next e s = Some t"
  by (cases e) (auto simp: actuator_step_simps actuator_next_def gr0_conv_Suc)

interpretation actuator_exec: executable_steps actuator_step actuator_next
  by unfold_locales (rule actuator_step_iff)


section \<open>What the operations change\<close>

lemma set_worker_fields [simp]:
  "m_running (set_worker w p s) = m_running s"
  "m_threads (set_worker w p s) = (m_threads s)[w := p]"
  "m_task_queue (set_worker w p s) = m_task_queue s"
  "m_task_mutex (set_worker w p s) = m_task_mutex s"
  "notifications (set_worker w p s) = notifications s"
  "destruction (set_worker w p s) = destruction s"
  "accepted (set_worker w p s) = accepted s" "taken (set_worker w p s) = taken s"
  "finished (set_worker w p s) = finished s"
  by (simp_all add: set_worker_def)

lemma wake_fields [simp]:
  "m_running (wake w s) = m_running s" "m_task_queue (wake w s) = m_task_queue s"
  "m_task_mutex (wake w s) = m_task_mutex s" "notifications (wake w s) = notifications s"
  "destruction (wake w s) = destruction s" "accepted (wake w s) = accepted s"
  "taken (wake w s) = taken s" "finished (wake w s) = finished s"
  by (simp_all add: wake_def)

text \<open>Every step of a thread, by the place the thread is at.\<close>

lemma worker_next_cases:
  assumes "worker_next w s = Some t"
  obtains
    (outer) "m_threads s ! w = Loop" "t = set_worker w (if m_running s then Lock else Ended) s"
  | (acquire) "m_threads s ! w \<in> {Lock, Woken}" "m_task_mutex s = None"
      "t = set_worker w Check (s\<lparr>m_task_mutex := Some w\<rparr>)"
  | (sleep) "m_threads s ! w = Check" "m_running s" "m_task_queue s = []" "t = set_worker w Block s"
  | (leave) "m_threads s ! w = Check" "\<not> (m_running s \<and> m_task_queue s = [])"
      "t = set_worker w Leave s"
  | (release) "m_threads s ! w = Block" "t = set_worker w Wait (s\<lparr>m_task_mutex := None\<rparr>)"
  | (quit) "m_threads s ! w = Leave" "\<not> m_running s"
      "t = set_worker w Ended (s\<lparr>m_task_mutex := None\<rparr>)"
  | (again) "m_threads s ! w = Leave" "m_running s" "m_task_queue s = []"
      "t = set_worker w Loop (s\<lparr>m_task_mutex := None\<rparr>)"
  | (taking) n q where "m_threads s ! w = Leave" "m_running s" "m_task_queue s = n # q"
      "t = set_worker w (Run n) (s\<lparr>m_task_mutex := None, m_task_queue := q, taken := taken s @ [n]\<rparr>)"
  | (finishing) n where "m_threads s ! w = Run n"
      "t = set_worker w Loop (s\<lparr>finished := finished s @ [n]\<rparr>)"
  using assms
  by (auto simp: worker_next_def lock_def take_task_def Let_def
      split: worker.splits if_split_asm list.splits)

text \<open>The tasks being run.\<close>

fun running_task :: "worker \<Rightarrow> nat list" where
  "running_task (Run t) = [t]"
| "running_task _ = []"

definition running_tasks :: "actuator \<Rightarrow> nat list" where
  "running_tasks s = concat (map running_task (m_threads s))"

lemma mset_concat_update:
  "w < length ps \<Longrightarrow>
    mset (concat (map f (ps[w := p]))) + mset (f (ps ! w)) = mset (concat (map f ps)) + mset (f p)"
proof (induction ps arbitrary: w)
  case (Cons x ps)
  then show ?case by (cases w) (simp_all add: union_assoc)
qed simp

lemma running_tasks_update:
  "w < length (m_threads s) \<Longrightarrow> running_task (m_threads s ! w) = [] \<Longrightarrow>
    mset (concat (map running_task ((m_threads s)[w := p]))) =
    mset (running_tasks s) + mset (running_task p)"
  using mset_concat_update [of w "m_threads s" running_task p] by (simp add: running_tasks_def)

lemma running_tasks_finish:
  "w < length (m_threads s) \<Longrightarrow> m_threads s ! w = Run n \<Longrightarrow>
    add_mset n (mset (concat (map running_task ((m_threads s)[w := Loop])))) =
    mset (running_tasks s)"
  using mset_concat_update [of w "m_threads s" running_task Loop] by (simp add: running_tasks_def)

lemma running_task_wait:
  "running_task (if p = Wait then Woken else p) = running_task p"
  by (cases p) simp_all

definition tasks_ok :: "actuator \<Rightarrow> bool" where
  "tasks_ok s \<longleftrightarrow> accepted s = taken s @ m_task_queue s \<and>
     mset (taken s) = mset (finished s) + mset (running_tasks s)"

lemma running_task_wake:
  "w < length (m_threads s) \<Longrightarrow> mset (running_tasks (wake w s)) = mset (running_tasks s)"
  using mset_concat_update [of w "m_threads s" running_task Woken]
  by (auto simp: wake_def running_tasks_def)

lemma tasks_ok_worker:
  assumes "worker_next w s = Some t" "w < length (m_threads s)" "tasks_ok s"
  shows "tasks_ok t"
  using assms(1)
proof (cases rule: worker_next_cases)
  case (taking n q)
  then show ?thesis
    using assms running_tasks_update [of w s "Run n"] by (simp add: tasks_ok_def running_tasks_def)
next
  case (finishing n)
  then show ?thesis
    using assms running_tasks_finish [of w s n] by (simp add: tasks_ok_def running_tasks_def)
next
  case acquire
  then have "running_task (m_threads s ! w) = []" by auto
  then show ?thesis
    using acquire assms running_tasks_update [of w s Check]
    by (simp add: tasks_ok_def running_tasks_def)
qed (use assms running_tasks_update [of w s] in \<open>simp_all add: tasks_ok_def running_tasks_def\<close>)

lemma tasks_ok_cong:
  "accepted t = accepted s \<Longrightarrow> taken t = taken s \<Longrightarrow> m_task_queue t = m_task_queue s \<Longrightarrow>
    finished t = finished s \<Longrightarrow> mset (running_tasks t) = mset (running_tasks s) \<Longrightarrow>
    tasks_ok t = tasks_ok s"
  by (simp add: tasks_ok_def)

lemma tasks_ok_frame:
  "tasks_ok (s\<lparr>notifications := n\<rparr>) = tasks_ok s" "tasks_ok (destroy_stop s) = tasks_ok s"
  "tasks_ok (destroy_notify s) = tasks_ok s" "tasks_ok (destroy_join s) = tasks_ok s"
  by (rule tasks_ok_cong; simp add: running_tasks_def destroy_stop_def destroy_notify_def
      destroy_join_def notify_all_def o_def running_task_wait)+

lemma tasks_ok_wake: "w < length (m_threads s) \<Longrightarrow> tasks_ok (wake w s) = tasks_ok s"
  by (rule tasks_ok_cong) (simp_all add: running_task_wake)

lemma tasks_ok_exec: "tasks_ok s \<Longrightarrow> tasks_ok (async_exec t s)"
  by (simp add: tasks_ok_def async_exec_def Let_def running_tasks_def)

lemma tasks_ok_step:
  assumes "actuator_step s e t" "tasks_ok s"
  shows "tasks_ok t"
  using assms
  by cases (simp_all add: tasks_ok_frame tasks_ok_wake tasks_ok_exec tasks_ok_worker)

interpretation tasks_ok: step_invariant actuator_step tasks_ok
  by unfold_locales (rule tasks_ok_step)

lemma tasks_ok_init: "tasks_ok (TaskActuator n)"
  by (simp add: tasks_ok_def running_tasks_def TaskActuator_def)

section \<open>The mutex\<close>

definition holds :: "worker \<Rightarrow> bool" where
  "holds p \<longleftrightarrow> p \<in> {Check, Block, Leave}"

lemma holds_simps [simp]:
  "\<not> holds Loop" "\<not> holds Lock" "holds Check" "holds Block" "\<not> holds Wait" "\<not> holds Woken"
  "holds Leave" "\<not> holds (Run n)" "\<not> holds Ended"
  by (simp_all add: holds_def)

definition mutex_ok :: "actuator \<Rightarrow> bool" where
  "mutex_ok s \<longleftrightarrow>
     (\<forall>w < length (m_threads s). holds (m_threads s ! w) \<longleftrightarrow> m_task_mutex s = Some w) \<and>
     (\<forall>w. m_task_mutex s = Some w \<longrightarrow> w < length (m_threads s))"

definition blocked_ok :: "actuator \<Rightarrow> bool" where
  "blocked_ok s \<longleftrightarrow> (Block \<in> set (m_threads s) \<longrightarrow> m_task_queue s = []) \<and>
     (m_running s \<longrightarrow> Ended \<notin> set (m_threads s))"

text \<open>A waiting task has a thread that is awake, or a notification that will wake one.\<close>

definition not_stranded :: "actuator \<Rightarrow> bool" where
  "not_stranded s \<longleftrightarrow>
     (m_running s \<and> m_task_queue s \<noteq> [] \<and> m_threads s \<noteq> [] \<longrightarrow>
        0 < notifications s \<or> (\<exists>p \<in> set (m_threads s). p \<noteq> Wait))"

definition pool_ok :: "actuator \<Rightarrow> bool" where
  "pool_ok s \<longleftrightarrow> mutex_ok s \<and> blocked_ok s \<and> not_stranded s"

lemma mutex_ok_update:
  assumes "mutex_ok s" "w < length (m_threads s)" "m_threads t = (m_threads s)[w := p]"
    "if holds (m_threads s ! w) then m_task_mutex t = (if holds p then Some w else None)
     else if holds p then m_task_mutex s = None \<and> m_task_mutex t = Some w
     else m_task_mutex t = m_task_mutex s"
  shows "mutex_ok t"
  unfolding mutex_ok_def
proof (intro conjI allI impI)
  show "m_task_mutex t = Some v \<Longrightarrow> v < length (m_threads t)" for v
    using assms by (auto simp: mutex_ok_def split: if_split_asm)
  fix v
  assume "v < length (m_threads t)"
  then have v: "v < length (m_threads s)" using assms(3) by simp
  from assms(1) have i: "\<And>u. u < length (m_threads s) \<Longrightarrow>
      holds (m_threads s ! u) \<longleftrightarrow> m_task_mutex s = Some u"
    by (simp add: mutex_ok_def)
  show "holds (m_threads t ! v) \<longleftrightarrow> m_task_mutex t = Some v"
    using i [OF v] i [OF assms(2)] assms(2-4) v
    by (cases "v = w") (auto split: if_split_asm)
qed

lemma mutex_ok_worker:
  assumes "worker_next w s = Some t" "w < length (m_threads s)" "mutex_ok s"
  shows "mutex_ok t"
proof -
  have h: "holds (m_threads s ! w) \<longleftrightarrow> m_task_mutex s = Some w"
    using assms(2,3) by (simp add: mutex_ok_def)
  from assms(1) show ?thesis
    by (cases rule: worker_next_cases; intro mutex_ok_update [OF assms(3,2)])
      (use h in \<open>auto split: if_split_asm\<close>)
qed

lemma set_update_cases: "x \<in> set (xs[w := p]) \<Longrightarrow> x = p \<or> x \<in> set xs"
  using set_update_subset_insert [of xs w p] by blast

lemma blocked_ok_worker:
  assumes "worker_next w s = Some t" "blocked_ok s"
  shows "blocked_ok t"
  using assms(1)
  by (cases rule: worker_next_cases)
    (use assms(2) in \<open>auto simp: blocked_ok_def dest: set_update_cases split: if_split_asm\<close>)

lemma not_stranded_worker:
  assumes "worker_next w s = Some t" "w < length (m_threads s)" "blocked_ok s"
  shows "not_stranded t"
  using assms(1)
proof (cases rule: worker_next_cases)
  case release
  with assms(2) have "Block \<in> set (m_threads s)" by (metis nth_mem)
  with assms(3) release show ?thesis by (simp add: not_stranded_def blocked_ok_def)
qed (use assms(2) in \<open>auto simp: not_stranded_def intro: set_update_memI\<close>)

lemma pool_ok_worker:
  "worker_next w s = Some t \<Longrightarrow> w < length (m_threads s) \<Longrightarrow> pool_ok s \<Longrightarrow> pool_ok t"
  by (auto simp: pool_ok_def mutex_ok_worker blocked_ok_worker not_stranded_worker)

lemma pool_ok_wake:
  assumes "w < length (m_threads s)" "m_threads s ! w = Wait" "mutex_ok s" "blocked_ok s"
  shows "pool_ok (wake w s)"
proof -
  have "mutex_ok (wake w s)"
    by (rule mutex_ok_update [OF assms(3,1), of _ Woken]) (use assms(2-4) in \<open>auto simp: wake_def mutex_ok_def\<close>)
  moreover have "blocked_ok (wake w s)"
    using assms by (auto simp: blocked_ok_def wake_def dest!: set_update_cases)
  moreover have "not_stranded (wake w s)"
    using assms by (auto simp: not_stranded_def wake_def intro: set_update_memI)
  ultimately show ?thesis by (simp add: pool_ok_def)
qed

lemma pool_ok_exec:
  assumes "m_task_mutex s = None" "pool_ok s"
  shows "pool_ok (async_exec t s)"
proof -
  have "Block \<notin> set (m_threads s)"
    using assms by (auto simp: pool_ok_def mutex_ok_def in_set_conv_nth)
  with assms show ?thesis
    by (simp add: pool_ok_def mutex_ok_def blocked_ok_def not_stranded_def async_exec_def Let_def)
qed

lemma pool_ok_notify_all:
  assumes "pool_ok s"
  shows "pool_ok (destroy_notify s)"
proof -
  have h: "holds (if p = Wait then Woken else p) = holds p" for p by simp
  have "mutex_ok (destroy_notify s)"
    using assms by (simp add: pool_ok_def mutex_ok_def destroy_notify_def notify_all_def h)
  moreover have "blocked_ok (destroy_notify s)"
    using assms by (auto simp: pool_ok_def blocked_ok_def destroy_notify_def notify_all_def
        split: if_split_asm)
  moreover have "not_stranded (destroy_notify s)"
    by (cases "m_threads s") (auto simp: not_stranded_def destroy_notify_def notify_all_def)
  ultimately show ?thesis by (simp add: pool_ok_def)
qed

lemma pool_ok_notify_none: "pool_ok s \<Longrightarrow> Wait \<notin> set (m_threads s) \<Longrightarrow> pool_ok (s\<lparr>notifications := n\<rparr>)"
  by (cases "m_threads s") (auto simp: pool_ok_def mutex_ok_def blocked_ok_def not_stranded_def)

lemma pool_ok_destroy: "pool_ok s \<Longrightarrow> pool_ok (destroy_stop s)" "pool_ok s \<Longrightarrow> pool_ok (destroy_join s)"
  by (simp_all add: pool_ok_def mutex_ok_def blocked_ok_def not_stranded_def destroy_stop_def
      destroy_join_def)

lemma pool_ok_step:
  assumes "actuator_step s e t" "pool_ok s"
  shows "pool_ok t"
proof -
  have p: "mutex_ok s" "blocked_ok s" "mutex_ok (s\<lparr>notifications := n\<rparr>)"
    "blocked_ok (s\<lparr>notifications := n\<rparr>)" for n
    using assms(2) by (simp_all add: pool_ok_def mutex_ok_def blocked_ok_def)
  from assms(1) show ?thesis
    by cases (simp_all add: assms(2) p pool_ok_worker [OF _ _ assms(2)] pool_ok_wake pool_ok_exec
        pool_ok_notify_all pool_ok_notify_none pool_ok_destroy)
qed

interpretation pool_ok: step_invariant actuator_step pool_ok
  by unfold_locales (rule pool_ok_step)

lemma pool_ok_init: "pool_ok (TaskActuator n)"
  by (auto simp: pool_ok_def mutex_ok_def blocked_ok_def not_stranded_def TaskActuator_def)

section \<open>Destruction\<close>

text \<open>The steps a thread still takes once the flag is down and it cannot fall asleep.\<close>

fun remaining :: "worker \<Rightarrow> nat" where
  "remaining Lock = 3"
| "remaining Woken = 3"
| "remaining Check = 2"
| "remaining (Run t) = 2"
| "remaining Loop = 1"
| "remaining Leave = 1"
| "remaining _ = 0"

definition remaining_steps :: "actuator \<Rightarrow> nat" where
  "remaining_steps s = sum_list (map remaining (m_threads s))"

definition winding_down :: "actuator \<Rightarrow> bool" where
  "winding_down s \<longleftrightarrow> \<not> m_running s \<and> destruction s = Notified \<and>
     Wait \<notin> set (m_threads s) \<and> Block \<notin> set (m_threads s)"

lemma sum_list_update_nat:
  "w < length ps \<Longrightarrow> sum_list (map f (ps[w := p])) + f (ps ! w) = sum_list (map f ps) + (f p :: nat)"
proof (induction ps arbitrary: w)
  case (Cons x ps)
  then show ?case by (cases w) simp_all
qed simp

lemma remaining_le: "remaining p \<le> 3"
  by (cases p) simp_all

lemma remaining_steps_le: "remaining_steps s \<le> 3 * length (m_threads s)"
  unfolding remaining_steps_def
proof (induction "m_threads s" arbitrary: s)
  case (Cons p ps)
  from Cons.hyps(1) [of "s\<lparr>m_threads := ps\<rparr>"] Cons.hyps(2) [symmetric] show ?case
    using remaining_le [of p] by simp
qed simp

lemma worker_winds_down:
  assumes "worker_next w s = Some t" "w < length (m_threads s)" "winding_down s"
  shows "winding_down t \<and> Suc (remaining_steps t) = remaining_steps s \<and>
    length (m_threads t) = length (m_threads s) \<and>
    taken t = taken s \<and> accepted t = accepted s"
  using assms(1)
proof (cases rule: worker_next_cases)
  case release
  with assms(2,3) show ?thesis by (metis nth_mem winding_down_def)
next
  case acquire
  with assms(3) sum_list_update_nat [OF assms(2), of remaining Check] show ?thesis
    by (auto simp: winding_down_def remaining_steps_def dest!: set_update_cases)
qed (use assms(2,3) sum_list_update_nat [OF assms(2), of remaining Leave]
    sum_list_update_nat [OF assms(2), of remaining Loop]
    sum_list_update_nat [OF assms(2), of remaining Ended] in
    \<open>auto simp: winding_down_def remaining_steps_def dest!: set_update_cases\<close>)

lemma run_winds_down:
  assumes "run actuator_step s es t" "winding_down s" "set es \<subseteq> range Worker"
  shows "winding_down t \<and> length es + remaining_steps t = remaining_steps s \<and>
    taken t = taken s \<and> accepted t = accepted s"
  using assms
proof (induction rule: run.induct)
  case (run_Cons s e t es u)
  then obtain w where w: "e = Worker w" by auto
  with run_Cons.hyps(1) have "worker_next w s = Some t" "w < length (m_threads s)"
    by (simp_all add: actuator_step_simps)
  from worker_winds_down [OF this] run_Cons.prems run_Cons.IH show ?case by auto
qed simp

text \<open>Some thread can always go on, until all have ended.\<close>

lemma worker_can_step:
  assumes "pool_ok s" "w < length (m_threads s)" "m_threads s ! w \<noteq> Ended" "m_threads s ! w \<noteq> Wait"
  shows "\<exists>v t. actuator_step s (Worker v) t"
proof (cases "m_task_mutex s")
  case None
  with assms(2-4) have "\<exists>t. worker_next w s = Some t"
    by (cases "m_threads s ! w") (simp_all add: worker_next_def lock_def)
  with assms(2) show ?thesis by (auto simp: actuator_step_simps)
next
  case (Some v)
  with assms(1) have v: "v < length (m_threads s)" "holds (m_threads s ! v)"
    by (simp_all add: pool_ok_def mutex_ok_def)
  from v(2) have "\<exists>t. worker_next v s = Some t" by (auto simp: holds_def worker_next_def)
  with v(1) show ?thesis by (auto simp: actuator_step_simps)
qed

lemma winding_down_progress:
  assumes "pool_ok s" "winding_down s"
  shows "(\<exists>w t. actuator_step s (Worker w) t) \<or> (\<exists>t. actuator_step s Join t)"
proof (cases "set (m_threads s) \<subseteq> {Ended}")
  case True
  with assms(2) show ?thesis by (auto simp: actuator_step_simps winding_down_def)
next
  case False
  then obtain p where "p \<in> set (m_threads s)" "p \<noteq> Ended" by auto
  then obtain w where "w < length (m_threads s)" "m_threads s ! w \<noteq> Ended"
    by (metis in_set_conv_nth)
  moreover from this assms(2) have "m_threads s ! w \<noteq> Wait"
    by (metis nth_mem winding_down_def)
  ultimately show ?thesis
    using worker_can_step [OF assms(1)] by blast
qed

text \<open>The number of threads never changes; the flag is down once destruction has begun.\<close>

definition size_ok :: "nat \<Rightarrow> actuator \<Rightarrow> bool" where
  "size_ok n s \<longleftrightarrow> length (m_threads s) = n \<and> (m_running s \<longleftrightarrow> destruction s = Alive)"

lemma size_ok_step: "actuator_step s e t \<Longrightarrow> size_ok n s \<Longrightarrow> size_ok n t"
  by (erule actuator_step.cases)
    (auto simp: size_ok_def worker_next_def lock_def take_task_def wake_def async_exec_def Let_def
      destroy_stop_def destroy_notify_def destroy_join_def notify_all_def
      split: worker.splits if_split_asm list.splits)

interpretation size_ok: step_invariant actuator_step "size_ok n"
  by unfold_locales (rule size_ok_step)

lemma size_ok_init: "size_ok n (TaskActuator n)"
  by (simp add: size_ok_def TaskActuator_def)

text \<open>A thread asleep stays asleep when nobody notifies.\<close>

definition quiet :: "actuator_event \<Rightarrow> bool" where
  "quiet e \<longleftrightarrow> (case e of Spurious _ \<Rightarrow> False | Notify _ \<Rightarrow> False | _ \<Rightarrow> True)"

definition asleep :: "actuator \<Rightarrow> bool" where
  "asleep s \<longleftrightarrow> destruction s = Notified \<and> Wait \<in> set (m_threads s)"

lemma asleep_worker:
  assumes "worker_next w s = Some t" "w < length (m_threads s)" "asleep s"
  shows "asleep t"
proof -
  from assms(3) obtain v where v: "v < length (m_threads s)" "m_threads s ! v = Wait"
    by (auto simp: asleep_def in_set_conv_nth)
  with assms(1) have "v \<noteq> w" by (auto simp: worker_next_def)
  from assms(1) obtain p where "m_threads t = (m_threads s)[w := p]" "destruction t = destruction s"
    by (cases rule: worker_next_cases) auto
  with v \<open>v \<noteq> w\<close> assms(3) have "m_threads t ! v = Wait" "v < length (m_threads t)"
    "destruction t = Notified" by (simp_all add: asleep_def)
  then show ?thesis by (metis asleep_def nth_mem)
qed

lemma pool_asleep_step:
  assumes "actuator_step s e t" "quiet e" "asleep s"
  shows "asleep t"
  using assms
  by cases (auto simp: quiet_def asleep_worker, auto simp: asleep_def async_exec_def)

lemma run_pool_asleep: "run actuator_step s es t \<Longrightarrow> list_all quiet es \<Longrightarrow> asleep s \<Longrightarrow> asleep t"
  by (induction rule: run.induct) (auto intro: pool_asleep_step)

section \<open>Properties\<close>

text \<open>
  C15: the pool runs every task once. However its threads and the callers interleave, the
  tasks accepted are, in order, the tasks handed to a thread and then the tasks still
  queued; and a task handed to a thread is finished or being run, exactly once.
\<close>

theorem tasks_run_once:
  assumes "run actuator_step (TaskActuator n) es s"
  shows "accepted s = taken s @ m_task_queue s \<and>
    mset (taken s) = mset (finished s) + mset (running_tasks s)"
  using tasks_ok.run_inv [OF assms tasks_ok_init] by (simp add: tasks_ok_def)

text \<open>
  No task is stranded. While the pool is alive and a task is queued, some thread is
  awake and will look at the queue, or a notification is still to come; and in every
  reachable state a thread that neither sleeps nor has ended implies that some thread
  can take a step, so the mutex is never left locked.
\<close>

theorem no_task_stranded:
  assumes "run actuator_step (TaskActuator n) es s" and "0 < n"
  shows "(m_running s \<and> m_task_queue s \<noteq> [] \<longrightarrow>
       0 < notifications s \<or> (\<exists>w < n. m_threads s ! w \<notin> {Wait, Block, Ended})) \<and>
    ((\<exists>w < n. m_threads s ! w \<notin> {Wait, Ended}) \<longrightarrow> (\<exists>v t. actuator_step s (Worker v) t))"
proof -
  have p: "pool_ok s" using pool_ok.run_inv [OF assms(1) pool_ok_init] .
  have n: "length (m_threads s) = n"
    using size_ok.run_inv [OF assms(1) size_ok_init] by (simp add: size_ok_def)
  have "0 < notifications s \<or> (\<exists>w < n. m_threads s ! w \<notin> {Wait, Block, Ended})"
    if r: "m_running s" "m_task_queue s \<noteq> []"
  proof -
    have "Block \<notin> set (m_threads s)" "Ended \<notin> set (m_threads s)" "m_threads s \<noteq> []"
      using p r n assms(2) by (auto simp: pool_ok_def blocked_ok_def)
    with p r n show ?thesis
      by (auto simp: pool_ok_def not_stranded_def in_set_conv_nth)
  qed
  with worker_can_step [OF p] n show ?thesis by auto
qed


definition demo_pool :: "actuator_event list" where
  "demo_pool = map Worker [0, 0, 0, 0, 1] @ [Exec 7, Notify 0, Exec 8, Notify_none] @
     map Worker [0, 0, 0, 1] @ [Stop, Notify_all]"

theorem tasks_run_once_witness:
  "\<exists>s. run actuator_step (TaskActuator 2) demo_pool s \<and> accepted s = [7, 8] \<and> taken s = [7] \<and>
     mset (taken s) = mset (finished s) + mset (running_tasks s)"
proof -
  have "\<exists>s. run actuator_step (TaskActuator 2) demo_pool s \<and> (accepted s = [7, 8] \<and> taken s = [7])"
    by (rule actuator_exec.exec_ex) code_simp
  then show ?thesis using tasks_run_once by blast
qed

theorem no_task_stranded_witness:
  "\<exists>s. run actuator_step (TaskActuator 2) (take 6 demo_pool) s \<and>
     m_task_queue s = [7] \<and>
     (0 < notifications s \<or> (\<exists>w < 2. m_threads s ! w \<notin> {Wait, Block, Ended}))"
proof -
  have "\<exists>s. run actuator_step (TaskActuator 2) (take 6 demo_pool) s \<and>
      (m_task_queue s = [7] \<and> m_running s)"
    by (rule actuator_exec.exec_ex) code_simp
  then obtain s where s: "run actuator_step (TaskActuator 2) (take 6 demo_pool) s"
    "m_task_queue s = [7]" "m_running s" by blast
  show ?thesis using s no_task_stranded [OF s(1)] by auto
qed


text \<open>A run in which the flag and the notification fall between the test and the wait of thread 0.\<close>

definition lost_wakeup_run :: "actuator_event list" where
  "lost_wakeup_run = [Worker 0, Worker 0, Worker 0, Stop, Notify_all, Worker 0]"

definition sleeping_pool :: actuator where
  "sleeping_pool = the (exec actuator_next lost_wakeup_run (TaskActuator 2))"

lemma sleeping_pool:
  "run actuator_step (TaskActuator 2) lost_wakeup_run sleeping_pool"
  "destruction sleeping_pool = Notified" "Wait \<in> set (m_threads sleeping_pool)"
proof -
  have "exec actuator_next lost_wakeup_run (TaskActuator 2) \<noteq> None" by code_simp
  then show "run actuator_step (TaskActuator 2) lost_wakeup_run sleeping_pool"
    unfolding sleeping_pool_def by (rule actuator_exec.run_exec)
  show "destruction sleeping_pool = Notified" "Wait \<in> set (m_threads sleeping_pool)" by code_simp+
qed

text \<open>
  The destructor can hang. It lowers the flag and notifies without the mutex, so
  both can fall between a thread's test of the flag and its wait; that thread then sleeps
  for ever, and the join never returns, unless it is woken spuriously or by a later call
  of \<open>async_exec\<close> on the object being destroyed.
\<close>

theorem destructor_lost_wakeup:
  "run actuator_step (TaskActuator 2) lost_wakeup_run sleeping_pool \<and>
   destruction sleeping_pool = Notified \<and>
   (\<forall>fs t. run actuator_step sleeping_pool fs t \<and> list_all quiet fs \<longrightarrow>
      destruction t \<noteq> Destroyed \<and> \<not> (\<exists>u. actuator_step t Join u))"
proof (intro conjI allI impI)
  have s: "asleep sleeping_pool"
    using sleeping_pool by (simp add: asleep_def)
  fix fs t assume "run actuator_step sleeping_pool fs t \<and> list_all quiet fs"
  then have "asleep t" using run_pool_asleep [OF _ _ s] by blast
  then show "destruction t \<noteq> Destroyed" "\<not> (\<exists>u. actuator_step t Join u)"
    by (auto simp: asleep_def actuator_step_simps)
qed (use sleeping_pool in simp_all)

theorem destructor_lost_wakeup_witness:
  "\<exists>t. run actuator_step sleeping_pool [Exec 7, Worker 1] t \<and> m_threads t ! 1 = Ended \<and>
     destruction t \<noteq> Destroyed \<and> \<not> (\<exists>u. actuator_step t Join u)"
proof -
  have "\<exists>t. run actuator_step sleeping_pool [Exec 7, Worker 1] t \<and> m_threads t ! 1 = Ended"
    by (rule actuator_exec.exec_ex) code_simp
  moreover have "list_all quiet [Exec 7, Worker 1]" by (simp add: quiet_def)
  ultimately show ?thesis using destructor_lost_wakeup by blast
qed

end
