(* ===== verification/Http_Client.thy ===== *)
theory Http_Client
  imports Task_Actuator
begin

text \<open>
  src/http_client: requests run on the two threads of a \<open>TaskActuator\<close>. The HTTP library
  (vendored in src/httplib), with the servers behind it, and the file system are parameters,
  the functions of the record \<open>world\<close>. A multimap is the list of its pairs.
\<close>

type_synonym fields = "(bytes \<times> bytes) list"

section \<open>URLs\<close>

text \<open>\<open>std::string::find\<close>: the first position, from \<open>pos\<close> on, where \<open>pat\<close> occurs.\<close>

fun find_at :: "bytes \<Rightarrow> bytes \<Rightarrow> nat option" where
  "find_at pat [] = (if pat = [] then Some 0 else None)"
| "find_at pat (c # cs) =
     (if take (length pat) (c # cs) = pat then Some 0 else map_option Suc (find_at pat cs))"

definition find_from :: "bytes \<Rightarrow> bytes \<Rightarrow> nat \<Rightarrow> nat option" where
  "find_from s pat pos =
     (if length s < pos then None else map_option ((+) pos) (find_at pat (drop pos s)))"

definition parse :: "bytes \<Rightarrow> bytes \<times> bytes" where
  "parse url =
     (let pos = (case find_from url (ascii ''://'') 0 of Some pos \<Rightarrow> pos + 3 | None \<Rightarrow> 0)
      in case find_from url (ascii ''/'') pos of
           Some pos \<Rightarrow> (take pos url, drop pos url)
         | None \<Rightarrow> (url, ascii ''/''))"

section \<open>Requests\<close>

datatype request =
    Get bytes bytes fields
  | Post bytes bytes fields bytes
  | Upload bytes bytes fields fields bytes bytes
  | Download bytes bytes fields bytes "nat \<Rightarrow> nat \<Rightarrow> bool"

text \<open>What the library makes of a request: an exception, no result, or a response.\<close>

datatype answer = Exception | No_result | Response int bytes

text \<open>The parts of a multipart body: name, content, file name, content type.\<close>

type_synonym items = "(bytes \<times> bytes \<times> bytes \<times> bytes) list"

text \<open>
  The library and the file system, as one request finds them: \<open>Get\<close> and the two kinds of
  \<open>Post\<close> of a client for \<open>scheme\<close>; of a download, unless it fails, the status, the length
  announced and the chunks that arrive; the content of a file that can be read; and
  whether a file can be created.
\<close>

record world =
  lib_get :: "bytes \<Rightarrow> bytes \<Rightarrow> fields \<Rightarrow> answer"
  lib_post :: "bytes \<Rightarrow> bytes \<Rightarrow> fields \<Rightarrow> bytes \<Rightarrow> bytes \<Rightarrow> answer"
  lib_post_items :: "bytes \<Rightarrow> bytes \<Rightarrow> fields \<Rightarrow> items \<Rightarrow> answer"
  lib_get_chunks :: "bytes \<Rightarrow> bytes \<Rightarrow> fields \<Rightarrow> (int \<times> nat \<times> bytes list) option"
  read_file :: "bytes \<Rightarrow> bytes option"
  can_create :: "bytes \<Rightarrow> bool"

definition http_get_request :: "world \<Rightarrow> bytes \<Rightarrow> bytes \<Rightarrow> fields \<Rightarrow> bool \<times> bytes" where
  "http_get_request w scheme target headers =
     (case lib_get w scheme target headers of
        Response status body \<Rightarrow> if status div 100 = 2 then (True, body) else (False, [])
      | _ \<Rightarrow> (False, []))"

definition http_post_request :: "world \<Rightarrow> bytes \<Rightarrow> bytes \<Rightarrow> fields \<Rightarrow> bytes \<Rightarrow> bool \<times> bytes" where
  "http_post_request w scheme target headers body =
     (case lib_post w scheme target headers body (ascii ''application/json'') of
        Response status body \<Rightarrow> if status div 100 = 2 then (True, body) else (False, [])
      | _ \<Rightarrow> (False, []))"

text \<open>
  The parts of an upload. A file that cannot be opened (\<open>None\<close>) gives an empty content,
  since the stream is not tested.
\<close>

definition upload_items :: "(bytes \<Rightarrow> bytes option) \<Rightarrow> bytes \<Rightarrow> bytes \<Rightarrow> fields \<Rightarrow> items" where
  "upload_items file src_file_path dst_file_name forms =
     (dst_file_name, (case file src_file_path of Some d \<Rightarrow> d | None \<Rightarrow> []), src_file_path,
      ascii ''multipart/form-data'') # map (\<lambda>(n, v). (n, v, [], [])) forms"

definition http_upload_request ::
  "world \<Rightarrow> bytes \<Rightarrow> bytes \<Rightarrow> fields \<Rightarrow> fields \<Rightarrow> bytes \<Rightarrow> bytes \<Rightarrow> bool \<times> bytes" where
  "http_upload_request w scheme target headers forms src_file_path dst_file_name =
     (case lib_post_items w scheme target headers
             (upload_items (read_file w) src_file_path dst_file_name forms) of
        Response status body \<Rightarrow> if status div 100 = 2 then (True, []) else (False, body)
      | _ \<Rightarrow> (False, []))"

text \<open>
  A download: the library shows the response (its status) to the first handler, which
  opens the file and goes on, or cancels the request, which then has no result; the body
  arrives in chunks, after each of which it asks \<open>progress\<close> (the bytes so far and the
  length announced), and it stops, without a result, when that says so. Writes to a
  stream that is not open have no effect. The file left behind is \<open>None\<close> when none was
  opened.
\<close>

definition response_handler :: "int \<Rightarrow> bool" where
  "response_handler status \<longleftrightarrow> status = 200"

fun receive_chunks :: "(nat \<Rightarrow> nat \<Rightarrow> bool) \<Rightarrow> nat \<Rightarrow> bytes \<Rightarrow> bytes list \<Rightarrow> bool \<times> bytes" where
  "receive_chunks progress len written [] = (True, written)"
| "receive_chunks progress len written (c # cs) =
     (if progress (length (written @ c)) len
      then receive_chunks progress len (written @ c) cs
      else (False, written @ c))"

definition http_download_request ::
  "world \<Rightarrow> bytes \<Rightarrow> bytes \<Rightarrow> fields \<Rightarrow> bytes \<Rightarrow> (nat \<Rightarrow> nat \<Rightarrow> bool) \<Rightarrow>
   (bool \<times> bytes) \<times> bytes option" where
  "http_download_request w scheme target headers save_file_path progress =
     (case lib_get_chunks w scheme target headers of
        None \<Rightarrow> ((False, []), None)
      | Some (status, len, chunks) \<Rightarrow>
          if \<not> response_handler status then ((False, []), None)
          else let (complete, data) = receive_chunks progress len [] chunks
               in ((complete, []), if can_create w save_file_path then Some data else None))"

text \<open>The task of a request: what its callback is given.\<close>

definition perform :: "world \<Rightarrow> request \<Rightarrow> bool \<times> bytes" where
  "perform w r =
     (case r of
        Get scheme target headers \<Rightarrow> http_get_request w scheme target headers
      | Post scheme target headers body \<Rightarrow> http_post_request w scheme target headers body
      | Upload scheme target headers forms src dst \<Rightarrow>
          http_upload_request w scheme target headers forms src dst
      | Download scheme target headers path progress \<Rightarrow>
          fst (http_download_request w scheme target headers path progress))"

section \<open>HttpManager\<close>

text \<open>The pool and the requests handed to it; a task is the number of its request.\<close>

record http_manager =
  m_task_actuator :: actuator
  requests :: "request list"

definition HttpManager :: http_manager where
  "HttpManager = \<lparr>m_task_actuator = TaskActuator 2, requests = []\<rparr>"

definition submit :: "request \<Rightarrow> http_manager \<Rightarrow> http_manager" where
  "submit r m =
     m\<lparr>m_task_actuator := async_exec (length (requests m)) (m_task_actuator m),
       requests := requests m @ [r]\<rparr>"

definition manager_get :: "bytes \<Rightarrow> bytes \<Rightarrow> fields \<Rightarrow> http_manager \<Rightarrow> http_manager" where
  "manager_get scheme target headers m = submit (Get scheme target headers) m"

definition manager_post :: "bytes \<Rightarrow> bytes \<Rightarrow> fields \<Rightarrow> bytes \<Rightarrow> http_manager \<Rightarrow> http_manager" where
  "manager_post scheme target headers body m = submit (Post scheme target headers body) m"

definition manager_upload ::
  "bytes \<Rightarrow> bytes \<Rightarrow> fields \<Rightarrow> fields \<Rightarrow> bytes \<Rightarrow> bytes \<Rightarrow> http_manager \<Rightarrow> http_manager" where
  "manager_upload scheme target headers forms src dst m = submit (Upload scheme target headers forms src dst) m"

definition manager_download ::
  "bytes \<Rightarrow> bytes \<Rightarrow> fields \<Rightarrow> bytes \<Rightarrow> (nat \<Rightarrow> nat \<Rightarrow> bool) \<Rightarrow> http_manager \<Rightarrow> http_manager" where
  "manager_download scheme target headers path progress m =
     submit (Download scheme target headers path progress) m"

text \<open>The callbacks made so far, in their order; \<open>w k\<close> is the world as request \<open>k\<close> finds it.\<close>

definition callbacks :: "(nat \<Rightarrow> world) \<Rightarrow> http_manager \<Rightarrow> (nat \<times> bool \<times> bytes) list" where
  "callbacks w m = map (\<lambda>k. (k, perform (w k) (requests m ! k))) (finished (m_task_actuator m))"

section \<open>HttpClient\<close>

text \<open>
  The overloads, which complete a request and hand it to the one \<open>HttpManager\<close>; those
  with a URL parse it first. Without a progress function every progress is accepted.
\<close>

definition always :: "nat \<Rightarrow> nat \<Rightarrow> bool" where
  "always current len = True"

definition get :: "bytes \<Rightarrow> bytes \<Rightarrow> http_manager \<Rightarrow> http_manager" where
  "get scheme target m = manager_get scheme target [] m"

definition get_headers :: "bytes \<Rightarrow> bytes \<Rightarrow> fields \<Rightarrow> http_manager \<Rightarrow> http_manager" where
  "get_headers scheme target headers m = manager_get scheme target headers m"

definition post :: "bytes \<Rightarrow> bytes \<Rightarrow> http_manager \<Rightarrow> http_manager" where
  "post scheme target m = manager_post scheme target [] [] m"

definition post_body :: "bytes \<Rightarrow> bytes \<Rightarrow> bytes \<Rightarrow> http_manager \<Rightarrow> http_manager" where
  "post_body scheme target body m = manager_post scheme target [] body m"

definition post_headers :: "bytes \<Rightarrow> bytes \<Rightarrow> fields \<Rightarrow> bytes \<Rightarrow> http_manager \<Rightarrow> http_manager" where
  "post_headers scheme target headers body m = manager_post scheme target headers body m"

definition upload :: "bytes \<Rightarrow> bytes \<Rightarrow> bytes \<Rightarrow> bytes \<Rightarrow> http_manager \<Rightarrow> http_manager" where
  "upload scheme target src dst m = manager_upload scheme target [] [] src dst m"

definition upload_forms :: "bytes \<Rightarrow> bytes \<Rightarrow> fields \<Rightarrow> bytes \<Rightarrow> bytes \<Rightarrow> http_manager \<Rightarrow> http_manager" where
  "upload_forms scheme target forms src dst m = manager_upload scheme target [] forms src dst m"

definition upload_headers :: "bytes \<Rightarrow> bytes \<Rightarrow> fields \<Rightarrow> fields \<Rightarrow> bytes \<Rightarrow> bytes \<Rightarrow> http_manager \<Rightarrow> http_manager" where
  "upload_headers scheme target headers forms src dst m = manager_upload scheme target headers forms src dst m"

definition download :: "bytes \<Rightarrow> bytes \<Rightarrow> bytes \<Rightarrow> http_manager \<Rightarrow> http_manager" where
  "download scheme target path m = manager_download scheme target [] path always m"

definition download_progress :: "bytes \<Rightarrow> bytes \<Rightarrow> bytes \<Rightarrow> (nat \<Rightarrow> nat \<Rightarrow> bool) \<Rightarrow> http_manager \<Rightarrow> http_manager" where
  "download_progress scheme target path progress m = manager_download scheme target [] path progress m"

definition download_headers :: "bytes \<Rightarrow> bytes \<Rightarrow> fields \<Rightarrow> bytes \<Rightarrow> http_manager \<Rightarrow> http_manager" where
  "download_headers scheme target headers path m = manager_download scheme target headers path always m"

definition download_headers_progress :: "bytes \<Rightarrow> bytes \<Rightarrow> fields \<Rightarrow> bytes \<Rightarrow> (nat \<Rightarrow> nat \<Rightarrow> bool) \<Rightarrow> http_manager \<Rightarrow> http_manager" where
  "download_headers_progress scheme target headers path progress m = manager_download scheme target headers path progress m"

definition get_url :: "bytes \<Rightarrow> http_manager \<Rightarrow> http_manager" where
  "get_url url m = (let (scheme, target) = parse url in manager_get scheme target [] m)"

definition get_headers_url :: "bytes \<Rightarrow> fields \<Rightarrow> http_manager \<Rightarrow> http_manager" where
  "get_headers_url url headers m = (let (scheme, target) = parse url in manager_get scheme target headers m)"

definition post_url :: "bytes \<Rightarrow> http_manager \<Rightarrow> http_manager" where
  "post_url url m = (let (scheme, target) = parse url in manager_post scheme target [] [] m)"

definition post_headers_url :: "bytes \<Rightarrow> fields \<Rightarrow> bytes \<Rightarrow> http_manager \<Rightarrow> http_manager" where
  "post_headers_url url headers body m = (let (scheme, target) = parse url in manager_post scheme target headers body m)"

definition upload_url :: "bytes \<Rightarrow> bytes \<Rightarrow> bytes \<Rightarrow> http_manager \<Rightarrow> http_manager" where
  "upload_url url src dst m = (let (scheme, target) = parse url in manager_upload scheme target [] [] src dst m)"

definition upload_forms_url :: "bytes \<Rightarrow> fields \<Rightarrow> bytes \<Rightarrow> bytes \<Rightarrow> http_manager \<Rightarrow> http_manager" where
  "upload_forms_url url forms src dst m = (let (scheme, target) = parse url in manager_upload scheme target [] forms src dst m)"

definition upload_headers_url :: "bytes \<Rightarrow> fields \<Rightarrow> fields \<Rightarrow> bytes \<Rightarrow> bytes \<Rightarrow> http_manager \<Rightarrow> http_manager" where
  "upload_headers_url url headers forms src dst m = (let (scheme, target) = parse url in manager_upload scheme target headers forms src dst m)"

definition download_url :: "bytes \<Rightarrow> bytes \<Rightarrow> http_manager \<Rightarrow> http_manager" where
  "download_url url path m = (let (scheme, target) = parse url in manager_download scheme target [] path always m)"

definition download_progress_url :: "bytes \<Rightarrow> bytes \<Rightarrow> (nat \<Rightarrow> nat \<Rightarrow> bool) \<Rightarrow> http_manager \<Rightarrow> http_manager" where
  "download_progress_url url path progress m = (let (scheme, target) = parse url in manager_download scheme target [] path progress m)"

definition download_headers_url :: "bytes \<Rightarrow> fields \<Rightarrow> bytes \<Rightarrow> http_manager \<Rightarrow> http_manager" where
  "download_headers_url url headers path m = (let (scheme, target) = parse url in manager_download scheme target headers path always m)"

definition download_headers_progress_url :: "bytes \<Rightarrow> fields \<Rightarrow> bytes \<Rightarrow> (nat \<Rightarrow> nat \<Rightarrow> bool) \<Rightarrow> http_manager \<Rightarrow> http_manager" where
  "download_headers_progress_url url headers path progress m = (let (scheme, target) = parse url in manager_download scheme target headers path progress m)"

section \<open>Steps\<close>

datatype http_event = Submit request | Pool actuator_event

definition http_next :: "http_event \<Rightarrow> http_manager \<Rightarrow> http_manager option" where
  "http_next e m =
     (case e of
        Submit r \<Rightarrow> if m_task_mutex (m_task_actuator m) = None then Some (submit r m) else None
      | Pool (Exec _) \<Rightarrow> None
      | Pool e \<Rightarrow> map_option (\<lambda>p. m\<lparr>m_task_actuator := p\<rparr>) (actuator_next e (m_task_actuator m)))"

definition http_step :: "http_manager \<Rightarrow> http_event \<Rightarrow> http_manager \<Rightarrow> bool" where
  "http_step s e t \<longleftrightarrow> http_next e s = Some t"

interpretation http_exec: executable_steps http_step http_next
  by unfold_locales (rule http_step_def)

text \<open>A step of the manager is a step of its pool; only a submission adds a request.\<close>

lemma http_pool_step:
  assumes "http_step m e n"
  shows "(\<exists>r. e = Submit r \<and> n = submit r m \<and>
      actuator_step (m_task_actuator m) (Exec (length (requests m))) (m_task_actuator n)) \<or>
    (\<exists>a. e = Pool a \<and> (\<forall>k. a \<noteq> Exec k) \<and> requests n = requests m \<and>
      actuator_step (m_task_actuator m) a (m_task_actuator n))"
proof (cases e)
  case (Submit r)
  with assms show ?thesis
    by (auto simp: http_step_def http_next_def submit_def actuator_step_simps split: if_split_asm)
next
  case (Pool a)
  with assms show ?thesis
    by (cases a) (auto simp: http_step_def http_next_def actuator_step_iff)
qed

text \<open>The requests of a manager are those its users submitted, in their order.\<close>

fun submissions :: "http_event list \<Rightarrow> request list" where
  "submissions [] = []"
| "submissions (Submit r # es) = r # submissions es"
| "submissions (Pool a # es) = submissions es"

lemma requests_submitted: "run http_step m es n \<Longrightarrow> requests n = requests m @ submissions es"
proof (induction rule: run.induct)
  case (run_Cons s e t es u)
  with http_pool_step [OF run_Cons.hyps(1)] show ?case by (auto simp: submit_def)
qed simp

lemma requests_of_run: "run http_step HttpManager es m \<Longrightarrow> requests m = submissions es"
  using requests_submitted [of HttpManager] by (simp add: HttpManager_def)

lemma accepted_pool:
  "actuator_step s a t \<Longrightarrow> (\<forall>k. a \<noteq> Exec k) \<Longrightarrow>
    accepted t = accepted s \<and> (m_running t \<longrightarrow> m_running s)"
  by (erule actuator_step.cases)
    (auto simp: destroy_stop_def destroy_notify_def destroy_join_def notify_all_def
      elim!: worker_next_cases)

definition numbered :: "http_manager \<Rightarrow> bool" where
  "numbered m \<longleftrightarrow> tasks_ok (m_task_actuator m) \<and> distinct (accepted (m_task_actuator m)) \<and>
     set (accepted (m_task_actuator m)) \<subseteq> {..<length (requests m)} \<and>
     (m_running (m_task_actuator m) \<longrightarrow> accepted (m_task_actuator m) = [0..<length (requests m)])"

lemma numbered_step:
  assumes "http_step m e n" "numbered m"
  shows "numbered n"
  using http_pool_step [OF assms(1)]
proof (elim disjE exE conjE)
  fix r
  assume n: "n = submit r m"
    and a: "actuator_step (m_task_actuator m) (Exec (length (requests m))) (m_task_actuator n)"
  have "tasks_ok (m_task_actuator n)"
    using tasks_ok_step [OF a] assms(2) by (simp add: numbered_def)
  with assms(2) show ?thesis
    by (cases "m_running (m_task_actuator m)")
      (auto simp: numbered_def n submit_def async_exec_def Let_def)
next
  fix a
  assume "requests n = requests m" "\<forall>k. a \<noteq> Exec k"
    and a: "actuator_step (m_task_actuator m) a (m_task_actuator n)"
  with accepted_pool [OF a] tasks_ok_step [OF a] assms(2) show ?thesis
    by (auto simp: numbered_def)
qed

interpretation numbered: step_invariant http_step numbered
  by unfold_locales (rule numbered_step)

lemma numbered_init: "numbered HttpManager"
  using tasks_ok_init by (simp add: numbered_def HttpManager_def) (simp add: TaskActuator_def)

section \<open>Finding\<close>

lemma find_at_bound: "find_at pat s = Some k \<Longrightarrow> k \<le> length s \<and> take (length pat) (drop k s) = pat"
proof (induction s arbitrary: k)
  case (Cons c cs)
  then show ?case by (auto split: if_split_asm)
qed (auto split: if_split_asm)

lemma find_at_char_None: "find_at [c] s = None \<longleftrightarrow> c \<notin> set s"
  by (induction s) auto

lemma find_at_char_append: "c \<notin> set s \<Longrightarrow> find_at [c] (s @ t) = map_option ((+) (length s)) (find_at [c] t)"
  by (cases "find_at [c] t"; induction s) auto

lemma find_scheme: "ch (CHR '':'') \<notin> set p \<Longrightarrow> find_at (ascii ''://'') (p @ ascii ''://'' @ s) = Some (length p)"
  by (induction p) auto

lemma receive_all: "(\<forall>n. progress n len) \<Longrightarrow> receive_chunks progress len w cs = (True, w @ concat cs)"
  by (induction cs arbitrary: w) auto

section \<open>Properties\<close>

text \<open>
  A URL is split behind its host. For a scheme without a colon and a host without a
  slash the first part is scheme and host and the second the path, \<open>/\<close> when there is
  none; and of every URL the second part begins with a slash and the two parts are the
  URL, or the first is the URL and the second \<open>/\<close>.
\<close>

theorem http_parse:
  assumes "ch (CHR '':'') \<notin> set p" and "ch (CHR ''/'') \<notin> set h"
    and "path = [] \<or> hd path = ch (CHR ''/'')"
  shows "parse (p @ ascii ''://'' @ h @ path) =
      (p @ ascii ''://'' @ h, if path = [] then ascii ''/'' else path) \<and>
    (let (s, t) = parse url
     in t \<noteq> [] \<and> hd t = ch (CHR ''/'') \<and> (s @ t = url \<or> s = url \<and> t = ascii ''/''))"
proof -
  have slash: "ch (CHR ''/'') = (47 :: byte)" by simp
  have "find_at [47] (h @ path) = (if path = [] then None else Some (length h))"
    using find_at_char_append [of 47 h path] assms(2,3) by (cases path) (auto simp: slash)
  then have "parse (p @ ascii ''://'' @ h @ path) =
      (p @ ascii ''://'' @ h, if path = [] then ascii ''/'' else path)"
    using find_scheme [OF assms(1), of "h @ path"] by (simp add: parse_def find_from_def Let_def numeral_3_eq_3)
  moreover have "let (s, t) = parse url
     in t \<noteq> [] \<and> hd t = ch (CHR ''/'') \<and> (s @ t = url \<or> s = url \<and> t = ascii ''/'')"
  proof (cases "find_from url (ascii ''/'') (case find_from url (ascii ''://'') 0 of Some pos \<Rightarrow> pos + 3 | None \<Rightarrow> 0)")
    case None
    then show ?thesis by (simp add: parse_def Let_def)
  next
    case (Some k)
    then have "take 1 (drop k url) = [47]"
      by (auto simp: find_from_def drop_drop add.commute dest!: find_at_bound split: if_split_asm)
    then have "drop k url \<noteq> [] \<and> hd (drop k url) = 47" by (cases "drop k url") auto
    with Some show ?thesis by (simp add: parse_def Let_def)
  qed
  ultimately show ?thesis by simp
qed

theorem http_parse_witness:
  "parse (ascii ''http://h:80/a?b=http://c'') = (ascii ''http://h:80'', ascii ''/a?b=http://c'')"
  using http_parse [of "ascii ''http''" "ascii ''h:80''" "ascii ''/a?b=http://c''" "[]"] by simp

text \<open>
  A URL without a scheme is split in the wrong place when its query contains one:
  \<open>://\<close> is searched in the whole URL, so that host, path and query up to the host of the
  inner URL become the server.
\<close>

theorem http_parse_inner_url:
  "parse (ascii ''h/a?b=http://c/d'') = (ascii ''h/a?b=http://c'', ascii ''/d'') \<and>
   parse (ascii ''http://h?b=/d'') = (ascii ''http://h?b='', ascii ''/d'')"
  by code_simp

definition successful :: "answer \<Rightarrow> bytes option" where
  "successful r =
     (case r of Response st b \<Rightarrow> if 200 \<le> st \<and> st \<le> 299 then Some b else None | _ \<Rightarrow> None)"

definition refused :: "answer \<Rightarrow> bytes" where
  "refused r =
     (case r of Response st b \<Rightarrow> if 200 \<le> st \<and> st \<le> 299 then [] else b | _ \<Rightarrow> [])"

lemma status_2xx: "(st :: int) div 100 = 2 \<longleftrightarrow> 200 \<le> st \<and> st \<le> 299"
  by presburger

text \<open>
  What a request reports. A GET and a POST succeed exactly for a response with a
  status from 200 to 299, and then give its body, and nothing otherwise; an upload
  succeeds for the same responses, but gives the body only of the others.
\<close>

theorem http_outcomes:
  "perform w (Get scheme target headers) =
     (case successful (lib_get w scheme target headers) of Some b \<Rightarrow> (True, b) | None \<Rightarrow> (False, [])) \<and>
   perform w (Post scheme target headers body) =
     (case successful (lib_post w scheme target headers body (ascii ''application/json'')) of
        Some b \<Rightarrow> (True, b) | None \<Rightarrow> (False, [])) \<and>
   perform w (Upload scheme target headers forms src dst) =
     (let r = lib_post_items w scheme target headers (upload_items (read_file w) src dst forms)
      in (successful r \<noteq> None, refused r))"
  by (intro conjI) (auto simp: perform_def http_get_request_def http_post_request_def
      http_upload_request_def successful_def refused_def status_2xx Let_def split: answer.split)

text \<open>
  Files that cannot be opened go unnoticed. A file that cannot be read is uploaded as
  an empty one; a download into a file that cannot be written succeeds all the same,
  without a file.
\<close>

theorem http_file_errors_unnoticed:
  assumes "\<forall>n. progress n len" and "lib_get_chunks w scheme target headers = Some (200, len, chunks)"
    and "read_file w src = None"
  shows "http_download_request w scheme target headers path progress =
      ((True, []), if can_create w path then Some (concat chunks) else None) \<and>
    perform w (Upload scheme target headers forms src dst) =
    perform (w\<lparr>read_file := (read_file w)(src \<mapsto> [])\<rparr>) (Upload scheme target headers forms src dst)"
proof -
  have "receive_chunks progress len [] chunks = (True, concat chunks)"
    using receive_all [of progress len "[]" chunks] assms(1) by simp
  with assms(2,3) show ?thesis
    by (simp add: http_download_request_def response_handler_def perform_def
        http_upload_request_def upload_items_def)
qed

text \<open>A server that answers everything with three bytes, and no file system.\<close>

definition demo_world :: world where
  "demo_world =
     \<lparr>lib_get = \<lambda>_ _ _. Response 200 [1, 2, 3], lib_post = \<lambda>_ _ _ _ _. Response 404 [],
      lib_post_items = \<lambda>_ _ _ _. No_result, lib_get_chunks = \<lambda>_ _ _. Some (200, 3, [[1, 2], [3]]),
      read_file = \<lambda>_. None, can_create = \<lambda>_. False\<rparr>"

theorem http_file_errors_unnoticed_witness:
  "http_download_request demo_world [] [] [] [] always = ((True, []), None)"
  using http_file_errors_unnoticed [of always 3 demo_world "[]" "[]" "[]" "[[1, 2], [3]]" "[]" "[]"]
  by (simp add: always_def demo_world_def)

text \<open>
  Every request is answered once. However the two threads and the callers interleave,
  the callbacks made are those of distinct requests; and until the manager is destroyed
  every request ever made is queued, running, or answered, exactly one of them.
\<close>

theorem http_callbacks_once:
  assumes "run http_step HttpManager es m"
  shows "distinct (finished (m_task_actuator m)) \<and>
    set (finished (m_task_actuator m)) \<subseteq> {..<length (requests m)} \<and>
    (m_running (m_task_actuator m) \<longrightarrow>
       mset (finished (m_task_actuator m)) + mset (running_tasks (m_task_actuator m)) +
         mset (m_task_queue (m_task_actuator m)) = mset [0..<length (requests m)])"
proof -
  let ?p = "m_task_actuator m"
  have n: "numbered m" using numbered.run_inv [OF assms numbered_init] .
  then have a: "mset (accepted ?p) =
      mset (finished ?p) + mset (running_tasks ?p) + mset (m_task_queue ?p)"
    by (simp add: numbered_def tasks_ok_def)
  then have "mset (accepted ?p) = mset (finished ?p @ running_tasks ?p @ m_task_queue ?p)" by simp
  from mset_eq_imp_distinct_iff [OF this] mset_eq_setD [OF this] n
  have "distinct (finished ?p)" "set (finished ?p) \<subseteq> set (accepted ?p)"
    by (auto simp: numbered_def)
  with n a show ?thesis by (auto simp: numbered_def)
qed

theorem http_callbacks_once_witness:
  "\<exists>m. run http_step HttpManager
       ([Submit (Get [] [] []), Submit (Post [] [] [] [])] @ map (\<lambda>w. Pool (Worker w)) [0, 0, 0, 0, 1, 0]) m \<and>
     finished (m_task_actuator m) = [0] \<and> distinct (finished (m_task_actuator m))"
proof -
  have "\<exists>m. run http_step HttpManager
      ([Submit (Get [] [] []), Submit (Post [] [] [] [])] @ map (\<lambda>w. Pool (Worker w)) [0, 0, 0, 0, 1, 0]) m \<and>
      finished (m_task_actuator m) = [0]"
    by (rule http_exec.exec_ex) code_simp
  with http_callbacks_once show ?thesis by blast
qed

end
