(* ===== verification/Json_Helper.thy ===== *)
theory Json_Helper
  imports Prelude "HOL-Library.List_Lexorder"
begin

text \<open>
  src/json_helper: reading and writing the members of a JSON object. The value type is the
  one of nlohmann::json (vendored in src/json), whose object is a map ordered by key;
  what its \<open>find\<close> and \<open>operator[]\<close> document is \<open>find_member\<close> and \<open>set_member\<close>, its parser,
  its printer and its conversions \<open>get_to\<close> are arguments. \<open>None\<close> is an exception.
\<close>

section \<open>Values\<close>

datatype json =
    Null
  | Bool bool
  | Number int
  | String bytes
  | Array "json list"
  | Object "(bytes \<times> json) list"

text \<open>\<open>find\<close>: the end iterator (\<open>None\<close>) for a value that is no object.\<close>

definition find_member :: "json \<Rightarrow> bytes \<Rightarrow> json option" where
  "find_member j name = (case j of Object ms \<Rightarrow> map_of ms name | _ \<Rightarrow> None)"

text \<open>
  \<open>operator[]\<close> with an assignment: a null becomes an object, a member is replaced or
  inserted where its key belongs, any other value raises a type error.
\<close>

fun insert_member :: "bytes \<Rightarrow> json \<Rightarrow> (bytes \<times> json) list \<Rightarrow> (bytes \<times> json) list" where
  "insert_member n v [] = [(n, v)]"
| "insert_member n v ((m, w) # ms) =
     (if n = m then (n, v) # ms
      else if n < m then (n, v) # (m, w) # ms
      else (m, w) # insert_member n v ms)"

definition set_member :: "json \<Rightarrow> bytes \<Rightarrow> json \<Rightarrow> json option" where
  "set_member j name v =
     (case j of
        Null \<Rightarrow> Some (Object [(name, v)])
      | Object ms \<Rightarrow> Some (Object (insert_member name v ms))
      | _ \<Rightarrow> None)"

section \<open>The helpers\<close>

definition string_to_json :: "(bytes \<Rightarrow> json option) \<Rightarrow> bytes \<Rightarrow> json option" where
  "string_to_json parse str = parse str"

definition json_to_string :: "(json \<Rightarrow> bytes option) \<Rightarrow> json \<Rightarrow> bytes option" where
  "json_to_string dump j = dump j"

definition get_member_map :: "json \<Rightarrow> (bytes \<times> json) list option" where
  "get_member_map j = (case j of Object ms \<Rightarrow> Some ms | _ \<Rightarrow> None)"

definition get_member_vector :: "(json \<Rightarrow> 'a option) \<Rightarrow> json \<Rightarrow> 'a list option" where
  "get_member_vector get j =
     (case j of
        Array js \<Rightarrow> if list_all (\<lambda>x. get x \<noteq> None) js then Some (map (the \<circ> get) js) else None
      | _ \<Rightarrow> None)"

text \<open>
  \<open>parse_element\<close>: the result and the value that is written, if one is. The name \<open>None\<close>
  is a null pointer.
\<close>

definition parse_element :: "json \<Rightarrow> bytes option \<Rightarrow> bool \<times> json option" where
  "parse_element j name =
     (case name of
        None \<Rightarrow> (False, None)
      | Some name \<Rightarrow>
          (case find_member j (c_text (Some name)) of
             None \<Rightarrow> (False, None)
           | Some Null \<Rightarrow> (False, None)
           | Some sub \<Rightarrow> (True, Some sub)))"

text \<open>The template converts the member, which may raise: the outer \<open>None\<close>.\<close>

definition parse_element_as ::
  "(json \<Rightarrow> 'a option) \<Rightarrow> json \<Rightarrow> bytes option \<Rightarrow> (bool \<times> 'a option) option" where
  "parse_element_as get_to j name =
     (case name of
        None \<Rightarrow> Some (False, None)
      | Some name \<Rightarrow>
          (case find_member j (c_text (Some name)) of
             None \<Rightarrow> Some (False, None)
           | Some Null \<Rightarrow> Some (False, None)
           | Some sub \<Rightarrow>
               (case get_to sub of None \<Rightarrow> None | Some v \<Rightarrow> Some (True, Some v))))"

definition build_element_as ::
  "('a \<Rightarrow> json) \<Rightarrow> json \<Rightarrow> bytes option \<Rightarrow> 'a \<Rightarrow> (bool \<times> json) option" where
  "build_element_as to_json j name value =
     (case name of
        None \<Rightarrow> Some (False, j)
      | Some name \<Rightarrow>
          (case set_member j (c_text (Some name)) (to_json value) of
             None \<Rightarrow> None
           | Some j \<Rightarrow> Some (True, j)))"

definition build_element :: "json \<Rightarrow> bytes option \<Rightarrow> bytes option \<Rightarrow> (bool \<times> json) option" where
  "build_element j name value =
     (case (name, value) of
        (Some name, Some value) \<Rightarrow>
          (case set_member j (c_text (Some name)) (String (c_text (Some value))) of
             None \<Rightarrow> None
           | Some j \<Rightarrow> Some (True, j))
      | _ \<Rightarrow> Some (False, j))"

section \<open>Objects as maps\<close>

lemma find_insert_member:
  "map_of (insert_member n v ms) m = (if m = n then Some v else map_of ms m)"
  by (induction n v ms rule: insert_member.induct) auto

lemma find_set_member:
  "set_member j n v = Some k \<Longrightarrow> find_member k m = (if m = n then Some v else find_member j m)"
  by (auto simp: set_member_def find_member_def find_insert_member split: json.splits)

text \<open>Keys are in order and distinct, in the value and below it.\<close>

fun json_ok :: "json \<Rightarrow> bool" where
  "json_ok (Array js) = list_all json_ok js"
| "json_ok (Object ms) = (sorted_wrt (<) (map fst ms) \<and> list_all (\<lambda>m. json_ok (snd m)) ms)"
| "json_ok _ = True"

lemma insert_member_keys: "set (map fst (insert_member n v ms)) = insert n (set (map fst ms))"
  by (induction n v ms rule: insert_member.induct) auto

lemma insert_member_sorted:
  "sorted_wrt (<) (map fst ms) \<Longrightarrow> sorted_wrt (<) (map fst (insert_member n v ms))"
proof (induction n v ms rule: insert_member.induct)
  case (2 n v m w ms)
  then show ?case
    using insert_member_keys [of n v ms] by (auto simp del: set_map)
qed simp

lemma insert_member_values:
  "list_all (\<lambda>m. json_ok (snd m)) ms \<Longrightarrow> json_ok v \<Longrightarrow>
    list_all (\<lambda>m. json_ok (snd m)) (insert_member n v ms)"
  by (induction n v ms rule: insert_member.induct) auto

lemma set_member_ok: "set_member j n v = Some k \<Longrightarrow> json_ok j \<Longrightarrow> json_ok v \<Longrightarrow> json_ok k"
  by (auto simp: set_member_def insert_member_sorted insert_member_values split: json.splits)

section \<open>Properties\<close>

text \<open>
  What is written is read back. After a successful \<open>build_element\<close> the member of that
  name reads as the value written, unless that is null, which reads as a missing member;
  every other member reads as before. Writing succeeds exactly on an object or null.
\<close>

theorem json_build_parse:
  assumes "build_element_as to_json j (Some name) v = Some (True, k)"
  shows "parse_element k (Some name) =
      (if to_json v = Null then (False, None) else (True, Some (to_json v))) \<and>
    (\<forall>other. c_text (Some other) \<noteq> c_text (Some name) \<longrightarrow>
       parse_element k (Some other) = parse_element j (Some other)) \<and>
    (build_element_as to_json i (Some name) v = None \<longleftrightarrow> (\<forall>ms. i \<noteq> Object ms) \<and> i \<noteq> Null)"
proof -
  from assms have "set_member j (c_text (Some name)) (to_json v) = Some k"
    by (simp add: build_element_as_def split: option.split_asm)
  from find_set_member [OF this] show ?thesis
    by (auto simp: parse_element_def build_element_as_def set_member_def split: json.split option.split)
qed

theorem json_build_parse_witness:
  "parse_element (Object [(ascii ''a'', Bool True), (ascii ''b'', Null)]) (Some (ascii ''a'')) =
     (True, Some (Bool True))"
proof -
  have "build_element_as Bool (Object [(ascii ''b'', Null)]) (Some (ascii ''a'')) True =
      Some (True, Object [(ascii ''a'', Bool True), (ascii ''b'', Null)])"
    by code_simp
  from json_build_parse [OF this] show ?thesis by simp
qed



end
