(* ===== verification/Task_Quiescence.thy ===== *)
theory Task_Quiescence
  imports Task_Actuator
begin

text \<open>
  A pool that nobody submits to comes to rest: every step of its threads and every
  notification delivered lowers a weight, whatever the order, and a pool in which no step
  is possible has finished all tasks it ever accepted.
\<close>

section \<open>Steps of the pool itself\<close>

definition internal :: "actuator_event \<Rightarrow> bool" where
  "internal e \<longleftrightarrow> (case e of Worker _ \<Rightarrow> True | Notify _ \<Rightarrow> True | Notify_none \<Rightarrow> True | _ \<Rightarrow> False)"

fun rank :: "worker \<Rightarrow> nat" where
  "rank (Run t) = 5"
| "rank Loop = 4"
| "rank Lock = 3"
| "rank Woken = 3"
| "rank Check = 2"
| "rank Block = 1"
| "rank Leave = 1"
| "rank Wait = 0"
| "rank Ended = 0"

definition work :: "actuator \<Rightarrow> nat" where
  "work s = sum_list (map rank (m_threads s)) + 5 * length (m_task_queue s) + 4 * notifications s"

text \<open>A thread that has left the inner loop of a running pool finds a task.\<close>

definition leave_ok :: "actuator \<Rightarrow> bool" where
  "leave_ok s \<longleftrightarrow> (m_running s \<and> Leave \<in> set (m_threads s) \<longrightarrow> m_task_queue s \<noteq> [])"

lemma one_holder:
  assumes "mutex_ok s" "v < length (m_threads s)" "w < length (m_threads s)"
    "holds (m_threads s ! v)" "holds (m_threads s ! w)"
  shows "v = w"
  using assms by (auto simp: mutex_ok_def)

lemma other_leave:
  assumes "mutex_ok s" "w < length (m_threads s)" "holds (m_threads s ! w)"
    "Leave \<in> set ((m_threads s)[w := p])" "p \<noteq> Leave"
  shows "False"
proof -
  from assms(4) obtain v where v: "v < length (m_threads s)" "(m_threads s)[w := p] ! v = Leave"
    by (auto simp: in_set_conv_nth)
  with assms(2,5) have "v \<noteq> w" "m_threads s ! v = Leave" by (auto simp: nth_list_update split: if_splits)
  with one_holder [OF assms(1) v(1) assms(2)] assms(3) show False by simp
qed

lemma leave_ok_worker:
  assumes "worker_next w s = Some t" "w < length (m_threads s)" "mutex_ok s" "leave_ok s"
  shows "leave_ok t"
  using assms(1)
proof (cases rule: worker_next_cases)
  case (taking n q)
  with other_leave [OF assms(3,2), of "Run n"] show ?thesis by (auto simp: leave_ok_def)
qed (use assms(4) in \<open>auto simp: leave_ok_def dest!: set_update_cases split: if_split_asm\<close>)

lemma leave_ok_step:
  assumes "actuator_step s e t" "pool_ok s \<and> leave_ok s"
  shows "pool_ok t \<and> leave_ok t"
proof -
  have "leave_ok t"
    using assms
    by cases (auto simp: pool_ok_def leave_ok_worker, auto simp: leave_ok_def wake_def async_exec_def
        destroy_stop_def destroy_notify_def destroy_join_def notify_all_def Let_def
        dest!: set_update_cases split: if_split_asm)
  with assms pool_ok_step show ?thesis by blast
qed

interpretation leave_ok: step_invariant actuator_step "\<lambda>s. pool_ok s \<and> leave_ok s"
  by unfold_locales (rule leave_ok_step)

lemma leave_ok_init: "pool_ok (TaskActuator n) \<and> leave_ok (TaskActuator n)"
  using pool_ok_init by (auto simp: leave_ok_def TaskActuator_def)

section \<open>The weight falls\<close>

lemma rank_update:
  "w < length (m_threads s) \<Longrightarrow>
    sum_list (map rank ((m_threads s)[w := p])) + rank (m_threads s ! w) =
    sum_list (map rank (m_threads s)) + rank p"
  by (rule sum_list_update_nat)

lemma worker_works:
  assumes "worker_next w s = Some t" "w < length (m_threads s)" "leave_ok s" "m_running s"
  shows "Suc (work t) = work s"
  using assms(1)
proof (cases rule: worker_next_cases)
  case again
  with assms(2-4) show ?thesis by (metis leave_ok_def nth_mem)
next
  case acquire
  then show ?thesis using rank_update [OF assms(2), of Check] by (auto simp: work_def)
next
  case (taking n q)
  then show ?thesis using rank_update [OF assms(2), of "Run n"] by (simp add: work_def)
qed (use assms(4) rank_update [OF assms(2), of Lock] rank_update [OF assms(2), of Block]
    rank_update [OF assms(2), of Leave] rank_update [OF assms(2), of Wait]
    rank_update [OF assms(2), of Loop] in \<open>simp_all add: work_def\<close>)

lemma internal_works:
  assumes "actuator_step s e t" "internal e" "leave_ok s" "m_running s"
  shows "work t < work s \<and> m_running t \<and> accepted t = accepted s"
  using assms(1)
proof cases
  case (a_worker w)
  moreover from a_worker(3) have "m_running t = m_running s" "accepted t = accepted s"
    by (cases rule: worker_next_cases; simp)+
  ultimately show ?thesis using worker_works [OF _ _ assms(3,4)] assms(4) by fastforce
next
  case (a_notify n w)
  then show ?thesis using rank_update [of w s Woken] assms(4) by (simp add: work_def wake_def)
next
  case (a_notify_none n)
  then show ?thesis using assms(4) by (simp add: work_def)
qed (use assms(2) in \<open>simp_all add: internal_def\<close>)

lemma run_works:
  assumes "run actuator_step s fs t" "list_all internal fs" "pool_ok s \<and> leave_ok s" "m_running s"
  shows "length fs + work t \<le> work s \<and> m_running t \<and> accepted t = accepted s"
  using assms
proof (induction rule: run.induct)
  case (run_Cons s e t es u)
  then have "internal e" "leave_ok s" by simp_all
  from internal_works [OF run_Cons.hyps(1) this run_Cons.prems(3)]
    leave_ok_step [OF run_Cons.hyps(1) run_Cons.prems(2)] run_Cons.IH run_Cons.prems(1)
  show ?case by auto
qed simp

section \<open>At rest\<close>

definition at_rest :: "actuator \<Rightarrow> bool" where
  "at_rest s \<longleftrightarrow> set (m_threads s) \<subseteq> {Wait} \<and> notifications s = 0"

lemma at_rest:
  assumes "pool_ok s" "m_running s" "m_threads s \<noteq> []" "\<forall>e t. internal e \<longrightarrow> \<not> actuator_step s e t"
  shows "at_rest s \<and> m_task_queue s = []"
proof -
  have "m_threads s ! w = Wait" if w: "w < length (m_threads s)" for w
  proof (rule ccontr)
    assume "m_threads s ! w \<noteq> Wait"
    moreover have "m_threads s ! w \<noteq> Ended"
      using assms(1,2) w by (metis blocked_ok_def nth_mem pool_ok_def)
    ultimately have "\<exists>v t. actuator_step s (Worker v) t"
      using worker_can_step [OF assms(1) w] by blast
    with assms(4) show False by (force simp: internal_def)
  qed
  then have w: "set (m_threads s) \<subseteq> {Wait}" by (auto simp: in_set_conv_nth)
  moreover have n: "notifications s = 0"
  proof (cases "notifications s")
    case (Suc n)
    have "\<exists>t. actuator_step s (Notify 0) t"
      using Suc w assms(3) by (cases "m_threads s") (auto simp: actuator_step_simps)
    with assms(4) show ?thesis by (force simp: internal_def)
  qed
  moreover have "m_task_queue s = []"
    using assms(1-3) w n by (auto simp: pool_ok_def not_stranded_def)
  ultimately show ?thesis by (simp add: at_rest_def)
qed

lemma no_running_task: "set ps \<subseteq> {Wait} \<Longrightarrow> concat (map running_task ps) = []"
  by (induction ps) auto

lemma rank_le: "rank p \<le> 5"
  by (cases p) simp_all

lemma sum_rank_le: "sum_list (map rank ps) \<le> 5 * length ps"
proof (induction ps)
  case (Cons p ps)
  then show ?case using rank_le [of p] by simp
qed simp

text \<open>What all runs of a pool of \<open>n\<close> threads keep.\<close>

definition sound :: "nat \<Rightarrow> actuator \<Rightarrow> bool" where
  "sound n s \<longleftrightarrow> pool_ok s \<and> leave_ok s \<and> tasks_ok s \<and> size_ok n s"

lemma sound_step: "actuator_step s e t \<Longrightarrow> sound n s \<Longrightarrow> sound n t"
  using leave_ok_step tasks_ok_step size_ok_step unfolding sound_def by blast

interpretation sound: step_invariant actuator_step "sound n"
  by unfold_locales (rule sound_step)

lemma sound_init: "sound n (TaskActuator n)"
  using leave_ok_init tasks_ok_init size_ok_init by (simp add: sound_def)

lemma steps_bounded:
  assumes "run actuator_step s fs t" "list_all internal fs" "sound n s" "m_running s"
  shows "length fs \<le> 5 * (n + length (m_task_queue s)) + 4 * notifications s"
  using run_works [OF assms(1,2)] assms(3,4) sum_rank_le [of "m_threads s"]
  by (simp add: sound_def size_ok_def work_def)

lemma all_finished:
  assumes "run actuator_step s fs t" "list_all internal fs" "sound n s" "m_running s" "0 < n"
    "\<forall>e u. internal e \<longrightarrow> \<not> actuator_step t e u"
  shows "m_task_queue t = [] \<and> mset (finished t) = mset (accepted s)"
proof -
  have t: "sound n t" using sound.run_inv [OF assms(1,3)] .
  have w: "m_running t" "accepted t = accepted s"
    using run_works [OF assms(1,2)] assms(3,4) by (simp_all add: sound_def)
  have "m_threads t \<noteq> []" using t assms(5) by (auto simp: sound_def size_ok_def)
  with at_rest [OF _ w(1) this assms(6)] t have "at_rest t \<and> m_task_queue t = []"
    by (simp add: sound_def)
  with t w(2) show ?thesis
    by (simp add: sound_def tasks_ok_def running_tasks_def at_rest_def no_running_task)
qed

section \<open>Properties\<close>

text \<open>
  C16: every accepted task is finished. From any state of a living pool, its own steps, in
  whatever order the scheduler takes them, come to an end after at most five per thread and
  queued task and four per notification; and a pool that cannot take a step has an empty
  queue and has finished exactly the tasks it has accepted, each of them once.
\<close>

theorem pool_comes_to_rest:
  assumes "run actuator_step (TaskActuator n) es s" and "0 < n" and "m_running s"
    and "run actuator_step s fs t" and "list_all internal fs"
  shows "length fs \<le> 5 * (n + length (m_task_queue s)) + 4 * notifications s \<and>
    ((\<forall>e u. internal e \<longrightarrow> \<not> actuator_step t e u) \<longrightarrow>
       m_task_queue t = [] \<and> mset (finished t) = mset (accepted s))"
  using steps_bounded [OF assms(4,5) _ assms(3)] all_finished [OF assms(4,5) _ assms(3,2)]
    sound.run_inv [OF assms(1) sound_init] by blast

text \<open>Two tasks, on two threads.\<close>

definition demo_submit :: "actuator_event list" where
  "demo_submit = map Worker [0, 0, 0, 0, 1] @ [Exec 7, Exec 8]"

definition demo_settle :: "actuator_event list" where
  "demo_settle =
     [Notify 0, Notify_none] @ map Worker [0, 0, 0, 1, 0, 1, 1, 1, 1, 0, 0, 0, 0, 1, 1, 1]"

lemma rest_stuck: "at_rest s \<Longrightarrow> internal e \<Longrightarrow> \<not> actuator_step s e t"
  by (cases e) (auto simp: at_rest_def internal_def actuator_step_simps worker_next_def
      split: worker.splits dest!: nth_mem)

theorem pool_comes_to_rest_witness:
  "\<exists>s t. run actuator_step (TaskActuator 2) demo_submit s \<and> accepted s = [7, 8] \<and>
     run actuator_step s demo_settle t \<and> length demo_settle \<le> 28 \<and>
     m_task_queue t = [] \<and> mset (finished t) = {#7, 8#}"
proof -
  have "\<exists>s. run actuator_step (TaskActuator 2) demo_submit s \<and> (accepted s = [7, 8] \<and>
      m_running s \<and> m_task_queue s = [7, 8] \<and> notifications s = 2 \<and>
      (case exec actuator_next demo_settle s of None \<Rightarrow> False | Some t \<Rightarrow> at_rest t))"
    by (rule actuator_exec.exec_ex) code_simp
  then obtain s where s: "run actuator_step (TaskActuator 2) demo_submit s" "accepted s = [7, 8]"
    "m_running s" "m_task_queue s = [7, 8]" "notifications s = 2"
    "case exec actuator_next demo_settle s of None \<Rightarrow> False | Some t \<Rightarrow> at_rest t"
    by blast
  from actuator_exec.exec_ex [OF s(6)] obtain t where t: "run actuator_step s demo_settle t" "at_rest t"
    by blast
  have "list_all internal demo_settle" by (simp add: demo_settle_def internal_def)
  from pool_comes_to_rest [OF s(1) _ s(3) t(1) this] rest_stuck [OF t(2)] s t(1) show ?thesis by auto
qed

end
