(* ===== verification/Http_Quiescence.thy ===== *)
theory Http_Quiescence
  imports Http_Client Task_Quiescence
begin

text \<open>
  The HTTP manager on its pool, composed: every request made through it is answered. The
  steps of the manager project onto those of the pool, whose quiescence carries over.
\<close>

section \<open>The pool inside the manager\<close>

lemma http_pool_sound:
  assumes "http_step m e n" "sound 2 (m_task_actuator m)"
  shows "sound 2 (m_task_actuator n)"
  using http_pool_step [OF assms(1)] sound_step assms(2) by blast

interpretation http_sound: step_invariant http_step "\<lambda>m. sound 2 (m_task_actuator m)"
  by unfold_locales (rule http_pool_sound)

lemma http_sound_init: "sound 2 (m_task_actuator HttpManager)"
  by (simp add: HttpManager_def sound_init)

text \<open>Events of the pool alone: its threads work, and notifications arrive.\<close>

lemma pool_run:
  assumes "run http_step m (map Pool as) n" "list_all internal as"
  shows "run actuator_step (m_task_actuator m) as (m_task_actuator n) \<and> requests n = requests m"
  using assms
proof (induction as arbitrary: m)
  case (Cons a as)
  from Cons.prems(1) obtain k where k: "http_step m (Pool a) k" "run http_step k (map Pool as) n"
    by (auto elim: run_ConsE)
  with Cons.IH Cons.prems(2) http_pool_step [OF k(1)] show ?case by (auto intro: run_Cons)
qed (auto intro: run_Nil)

lemma pool_step_iff:
  "internal a \<Longrightarrow>
    (\<exists>n. http_step m (Pool a) n) \<longleftrightarrow> (\<exists>p. actuator_step (m_task_actuator m) a p)"
  by (cases a) (auto simp: http_step_def http_next_def actuator_step_iff internal_def)

section \<open>Properties\<close>

text \<open>
  C31: every request is answered. From any state of a manager that lives, the steps of its
  two threads end, at most ten, five for each queued request and four for each notification
  under way, in whatever order they are taken; and when no step is possible every request
  ever made has had its callback called, exactly once, with what the library and the file
  system make of this very request, and nothing is queued.
\<close>

theorem http_requests_answered:
  assumes "run http_step HttpManager es m" and "m_running (m_task_actuator m)"
    and "run http_step m (map Pool as) n" and "list_all internal as"
  shows "length as \<le> 10 + 5 * length (m_task_queue (m_task_actuator m)) +
      4 * notifications (m_task_actuator m) \<and>
    ((\<forall>a k. internal a \<longrightarrow> \<not> http_step n (Pool a) k) \<longrightarrow>
       m_task_queue (m_task_actuator n) = [] \<and>
       mset (callbacks w n) =
         mset (map (\<lambda>k. (k, perform (w k) (submissions es ! k))) [0..<length (submissions es)]))"
proof -
  have s: "sound 2 (m_task_actuator m)" using http_sound.run_inv [OF assms(1) http_sound_init] .
  have p: "run actuator_step (m_task_actuator m) as (m_task_actuator n)" "requests n = requests m"
    using pool_run [OF assms(3,4)] by simp_all
  have "accepted (m_task_actuator m) = [0..<length (submissions es)]"
    using requests_of_run [OF assms(1)] numbered.run_inv [OF assms(1) numbered_init] assms(2) by (simp add: numbered_def)
  then show ?thesis
    using steps_bounded [OF p(1) assms(4) s assms(2)] all_finished [OF p(1) assms(4) s assms(2)]
      pool_step_iff [of _ n] p(2) requests_of_run [OF assms(1)] by (auto simp: algebra_simps callbacks_def mset_map)
qed

text \<open>Two requests, on two threads.\<close>

definition demo_requests :: "http_event list" where
  "demo_requests =
     map (\<lambda>w. Pool (Worker w)) [0, 0, 0, 0, 1] @ [Submit (Get [] [] []), Submit (Post [] [] [] [])]"

theorem http_requests_answered_witness:
  "\<exists>m n. run http_step HttpManager demo_requests m \<and> run http_step m (map Pool demo_settle) n \<and>
     length demo_settle \<le> 28 \<and> m_task_queue (m_task_actuator n) = [] \<and>
     mset (callbacks (\<lambda>_. demo_world) n) = {#(0, True, [1, 2, 3]), (1, False, [])#}"
proof -
  have "\<exists>m. run http_step HttpManager demo_requests m \<and>
      (m_running (m_task_actuator m) \<and>
       m_task_queue (m_task_actuator m) = [0, 1] \<and> notifications (m_task_actuator m) = 2 \<and>
       (case exec http_next (map Pool demo_settle) m of None \<Rightarrow> False
        | Some n \<Rightarrow> at_rest (m_task_actuator n)))"
    by (rule http_exec.exec_ex) code_simp
  then obtain m where m: "run http_step HttpManager demo_requests m"
    "m_running (m_task_actuator m)"
    "m_task_queue (m_task_actuator m) = [0, 1]" "notifications (m_task_actuator m) = 2"
    "case exec http_next (map Pool demo_settle) m of None \<Rightarrow> False
     | Some n \<Rightarrow> at_rest (m_task_actuator n)"
    by blast
  from http_exec.exec_ex [OF m(5)] obtain n where n: "run http_step m (map Pool demo_settle) n"
    "at_rest (m_task_actuator n)" by blast
  have q: "submissions demo_requests = [Get [] [] [], Post [] [] [] []]"
    by (simp add: demo_requests_def)
  have "list_all internal demo_settle" by (simp add: demo_settle_def internal_def)
  from http_requests_answered [OF m(1,2) n(1) this, of "\<lambda>_. demo_world"] rest_stuck [OF n(2)]
    pool_step_iff [of _ n] m n q
  show ?thesis
    by (auto simp: upt_rec perform_def http_get_request_def http_post_request_def demo_world_def)
qed

end
