(* ===== verification/Websocket_Quiescence.thy ===== *)
theory Websocket_Quiescence
  imports Websocket_Session
begin

text \<open>
  What a websocket session does when it is left alone: its event, callback and work threads
  come to rest, whatever the scheduler does; then every report has reached the sink, and
  every request has been carried out or waits for the connection being made.
\<close>

section \<open>Steps of the session itself\<close>

definition internal :: "websocket_event \<Rightarrow> bool" where
  "internal e \<longleftrightarrow>
     (case e of
        Event_thread \<Rightarrow> True | Callback_thread \<Rightarrow> True | Work_begin _ \<Rightarrow> True | Work_end \<Rightarrow> True
      | Notify_event \<Rightarrow> True | Notify_callback \<Rightarrow> True | _ \<Rightarrow> False)"

fun operation_load :: "operation \<Rightarrow> nat" where
  "operation_load Idle = 0"
| "operation_load (Begin _) = 24"
| "operation_load _ = 23"

fun work_load :: "work option \<Rightarrow> nat" where
  "work_load (Some Starting) = 12"
| "work_load (Some Running) = 1"
| "work_load _ = 0"

text \<open>
  A request costs the event thread a join and the work thread a start, and each of them
  may report to the callback thread.
\<close>

definition burden :: "websocket \<Rightarrow> nat" where
  "burden s = 25 * load (event_monitor s) + load (callback_monitor s) +
     operation_load (operation s) + work_load (m_work_thread s)"

lemma burden_le: "burden s \<le> 25 * load (event_monitor s) + load (callback_monitor s) + 36"
proof -
  have "operation_load (operation s) \<le> 24" by (cases "operation s") simp_all
  moreover have "work_load (m_work_thread s) \<le> 12"
    by (cases "m_work_thread s" rule: work_load.cases) simp_all
  ultimately show ?thesis by (simp add: burden_def)
qed

section \<open>Two more invariants\<close>

text \<open>
  While the session runs, its threads see the same flag; a client that waits for the work
  thread after closing has stopped it; and the library holds no connection but the
  current one.
\<close>

definition current_only :: "websocket \<Rightarrow> bool" where
  "current_only s \<longleftrightarrow>
     (\<forall>i < length (connections s). phase (connections s ! i) \<noteq> Over \<longrightarrow> m_connection s = Some i)"

definition closing_stopped :: "websocket \<Rightarrow> bool" where
  "closing_stopped s \<longleftrightarrow> (closing s \<longrightarrow> stopped s)"

definition settled :: "websocket \<Rightarrow> bool" where
  "settled s \<longleftrightarrow> running (callback_monitor s) = m_running s \<and>
     (m_running s \<longrightarrow> current_only s \<and> closing_stopped s)"

lemma flags_step:
  assumes "websocket_step s e t" "running (callback_monitor s) = m_running s"
  shows "running (callback_monitor t) = m_running t \<and> (m_running t \<longrightarrow> m_running s)"
proof (cases "e = Exit")
  case True
  with assms show ?thesis
    by (cases "leaving s") (auto simp: websocket_step_def websocket_next_def exit_def exit_begin_def set_running_def
        m_running_def exit_close_def wake_events_def do_close_def do_close_joined_def exit_events_def
        exit_end_def put_def split: if_split_asm)
next
  case False
  from monitors_change [OF assms(1) False] consumer_change_ok(2) assms(2) show ?thesis
    by (metis m_running_def)
qed

lemma settled_minor:
  assumes "websocket_step s e t" "is_minor e" "settled s"
  shows "settled t"
  using assms(3) flags_step [OF assms(1)] minor_frame [OF assms(1,2)]
  by (simp add: settled_def current_only_def closing_stopped_def closing_def)

lemma phase_update:
  "j < length cs \<Longrightarrow>
    phase (cs[i := (cs ! i)\<lparr>phase := p\<rparr>] ! j) = (if i = j then p else phase (cs ! j))"
  by (cases "i = j") simp_all

lemma settled_work_begin:
  assumes "session_ok s" "m_running s" "m_work_thread s = Some Starting" "current_only s"
  shows "current_only (work_begin refusal s) \<and> closing_stopped (work_begin refusal s)"
proof -
  from assms(1-3) have n: "m_connection s = None" "\<not> closing s"
    by (auto simp: session_ok_def attached_def threads_ok_def split: option.split_asm)
  have "\<forall>i < length (connections s). phase (connections s ! i) = Over"
    using assms(4) n(1) by (simp add: current_only_def)
  then show ?thesis
    using n by (auto simp: work_begin_def real_connect_def Let_def on_close_def on_error_def current_only_def
        closing_stopped_def closing_def nth_append split: option.split)
qed

lemma settled_phase:
  assumes "current_only s" "closing_stopped s"
  shows "has_phase s i Opening \<Longrightarrow>
      current_only (open_handler i (set_phase i Open s)) \<and> closing_stopped (open_handler i (set_phase i Open s))"
    "current_only (close_handler i (set_phase i Over s)) \<and> closing_stopped (close_handler i (set_phase i Over s))"
  using assms
  by (auto simp: current_only_def closing_stopped_def closing_def open_handler_def close_handler_def
      set_phase_def on_connect_def on_close_def has_phase_def phase_update split: if_split_asm)

lemma settled_event:
  assumes "event_thread s = Some t" "current_only s" "closing_stopped s" "m_running t" "m_running s"
  shows "current_only t \<and> closing_stopped t"
  using assms
  by (auto simp: event_thread_def do_connect_def do_connect_joined_def do_close_def do_close_joined_def
      real_close_def set_phase_def on_close_def current_only_def closing_stopped_def closing_def
      is_connected_def phase_update
      split: operation.split_asm option.split_asm if_split_asm bool.split_asm place.split_asm)

lemma settled_step:
  assumes "websocket_step s e t" "websocket_ok s" "settled s"
  shows "settled t"
proof (cases "is_minor e \<or> \<not> m_running t")
  case True
  with assms(3) flags_step [OF assms(1)] settled_minor [OF assms(1) _ assms(3)] show ?thesis
    by (auto simp: settled_def)
next
  case False
  have f: "running (callback_monitor t) = m_running t" "m_running s"
    using flags_step [OF assms(1)] assms(3) False by (simp_all add: settled_def)
  with assms have i: "session_ok s" "current_only s" "closing_stopped s" "leaving s = Staying"
    by (auto simp: websocket_ok_def settled_def monitors_ok_def)
  have "current_only t \<and> closing_stopped t"
  proof (cases e)
    case (Opened k)
    with assms(1) settled_phase(1) [OF i(2,3)] show ?thesis
      by (auto simp: websocket_step_def websocket_next_def split: if_split_asm)
  next
    case (Closed k)
    with assms(1) settled_phase(2) [OF i(2,3)] show ?thesis
      by (auto simp: websocket_step_def websocket_next_def split: if_split_asm)
  next
    case (Work_begin r)
    with assms(1) settled_work_begin [OF i(1) f(2) _ i(2)] show ?thesis
      by (auto simp: websocket_step_def websocket_next_def split: if_split_asm)
  next
    case Work_end
    with assms(1) i show ?thesis
      by (auto simp: websocket_step_def websocket_next_def current_only_def closing_stopped_def closing_def
          split: if_split_asm)
  next
    case Event_thread
    with assms(1) settled_event [OF _ i(2,3) _ f(2)] False show ?thesis
      by (auto simp: websocket_step_def websocket_next_def)
  next
    case Exit
    with assms(1) i(4) False show ?thesis
      by (auto simp: websocket_step_def websocket_next_def exit_def exit_begin_def set_running_def
          m_running_def split: if_split_asm)
  qed (use False in \<open>auto simp: is_minor_def\<close>)
  with f show ?thesis by (simp add: settled_def)
qed

interpretation settled: step_invariant websocket_step "\<lambda>s. websocket_ok s \<and> settled s"
  by unfold_locales (blast intro: settled_step websocket_ok.step_inv)

lemma settled_init:
  assumes "init sink target_url gateway_url WebsocketSession = (True, s)"
  shows "websocket_ok s \<and> settled s"
  using init_ok [OF assms] assms
  by (auto simp: init_def settled_def current_only_def closing_stopped_def closing_def m_running_def
      set_running_def WebsocketSession_def split: if_split_asm prod.split_asm)

section \<open>The burden falls\<close>

lemma on_close_burden: "load (callback_monitor (on_close s)) \<le> load (callback_monitor s) + 10"
  by (simp add: on_close_def put_load)

lemma on_close_rest [simp]:
  "operation (on_close s) = operation s" "m_work_thread (on_close s) = m_work_thread s"
  by (simp_all add: on_close_def)

lemma real_close_operation [simp]: "operation (real_close s) = operation s"
  by (simp add: real_close_def set_phase_def split: option.split)

lemma event_thread_burden:
  assumes "event_thread s = Some t" "m_running s"
  shows "burden t < burden s"
proof (cases "operation s")
  case Idle
  with assms obtain c where c: "consumer_next (event_monitor s) = Some c"
    "t = s\<lparr>event_monitor := c, operation := (case place c of Busy x xs \<Rightarrow> Begin x | _ \<Rightarrow> Idle)\<rparr>"
    by (auto simp: event_thread_def split: option.split_asm)
  have "load c < load (event_monitor s)" using thread_lightens [OF c(1)] assms(2) by (simp add: m_running_def)
  with Idle show ?thesis by (auto simp: burden_def c(2) split: place.split)
next
  case (Begin b)
  with assms show ?thesis
    by (cases b) (auto simp: event_thread_def do_connect_def do_close_def burden_def split: if_split_asm)
next
  case Close_join
  with assms on_close_burden [of "s\<lparr>m_work_thread := None\<rparr>"] show ?thesis
    by (auto simp: event_thread_def do_close_joined_def burden_def split: if_split_asm)
qed (use assms on_close_burden [of s] in \<open>auto simp: event_thread_def do_connect_joined_def burden_def
      work_gone_def split: if_split_asm\<close>)

lemma work_begin_burden:
  "m_work_thread s = Some Starting \<Longrightarrow> burden (work_begin refusal s) < burden s"
  by (auto simp: work_begin_def real_connect_def on_close_def on_error_def burden_def put_load Let_def
      split: option.split)

lemma internal_burden:
  assumes "websocket_step s e t" "internal e" "m_running s" "running (callback_monitor s)"
  shows "burden t < burden s \<and> m_running t"
proof (cases e)
  case Event_thread
  with assms have s: "event_thread s = Some t"
    by (simp add: websocket_step_def websocket_next_def)
  have "m_running t"
    using monitors_change(1) [OF assms(1)] consumer_change_ok(2) assms(3) Event_thread
    by (auto simp: m_running_def)
  with event_thread_burden [OF s assms(3)] show ?thesis by simp
next
  case Callback_thread
  with assms thread_lightens show ?thesis
    by (fastforce simp: websocket_step_def websocket_next_def callback_thread_def burden_def m_running_def)
next
  case (Work_begin r)
  have "m_running t"
    using monitors_change(1) [OF assms(1)] consumer_change_ok(2) assms(3) Work_begin
    by (auto simp: m_running_def)
  with Work_begin assms(1) work_begin_burden show ?thesis
    by (auto simp: websocket_step_def websocket_next_def split: if_split_asm)
next
  case Notify_event
  with assms notify_lightens [of "event_monitor s"] show ?thesis
    by (auto simp: websocket_step_def websocket_next_def burden_def m_running_def notify_one_def
        split: if_split_asm)
next
  case Notify_callback
  with assms notify_lightens [of "callback_monitor s"] show ?thesis
    by (auto simp: websocket_step_def websocket_next_def burden_def m_running_def split: if_split_asm)
qed (use assms in \<open>auto simp: websocket_step_def websocket_next_def internal_def burden_def m_running_def
      split: if_split_asm\<close>)

lemma run_burden:
  assumes "run websocket_step s fs t" "list_all internal fs" "websocket_ok s \<and> settled s" "m_running s"
  shows "length fs + burden t \<le> burden s \<and> m_running t"
  using assms
proof (induction rule: run.induct)
  case (run_Cons s e t es u)
  then have "burden t < burden s" "m_running t"
    using internal_burden [OF run_Cons.hyps(1)] by (simp_all add: settled_def)
  moreover have "websocket_ok t \<and> settled t"
    using settled.step_inv [OF run_Cons.hyps(1) run_Cons.prems(2)] .
  ultimately show ?case using run_Cons.IH run_Cons.prems(1) by auto
qed simp

section \<open>At rest\<close>

definition still :: "websocket \<Rightarrow> bool" where
  "still s \<longleftrightarrow> (\<forall>e t. internal e \<longrightarrow> \<not> websocket_step s e t)"

lemma still_next: "still s \<Longrightarrow> internal e \<Longrightarrow> websocket_next e s = None"
  by (auto simp: still_def websocket_step_def)

lemma callbacks_rest:
  assumes "still s" "websocket_ok s \<and> settled s" "m_running s"
  shows "mutex_free (callback_monitor s) \<and> handled (callback_monitor s) = reports s"
proof -
  have "consumer_next (callback_monitor s) = None" "wakeups (callback_monitor s) = 0"
    using still_next [OF assms(1), of Callback_thread] still_next [OF assms(1), of Notify_callback]
    by (auto simp: internal_def websocket_next_def callback_thread_def split: if_split_asm)
  with monitor_rest [of "callback_monitor s"] assms(2,3) show ?thesis
    by (auto simp: websocket_ok_def monitors_ok_def settled_def reports_def mutex_free_def)
qed

lemma work_rest:
  assumes "still s" "websocket_ok s \<and> settled s" "m_running s" "\<not> work_gone s"
  shows "m_work_thread s = Some Running \<and> m_connection s \<noteq> None \<and> \<not> closing s"
proof -
  have "m_work_thread s \<noteq> Some Starting"
    using still_next [OF assms(1), of "Work_begin None"] callbacks_rest [OF assms(1-3)]
    by (auto simp: internal_def websocket_next_def split: if_split_asm)
  with assms(4) have w: "m_work_thread s = Some Running"
    by (cases "m_work_thread s" rule: work_load.cases) (auto simp: work_gone_def)
  with still_next [OF assms(1), of Work_end] have "\<not> work_done s"
    by (auto simp: internal_def websocket_next_def split: if_split_asm)
  then have d: "\<not> stopped s" "\<exists>i < length (connections s). phase (connections s ! i) \<noteq> Over"
    by (auto simp: work_done_def list_all_length)
  with assms(2,3) have "m_connection s \<noteq> None" "\<not> closing s"
    by (auto simp: settled_def current_only_def closing_stopped_def)
  with w show ?thesis by simp
qed

lemma events_rest:
  assumes "still s" "websocket_ok s \<and> settled s" "m_running s"
  shows "(operation s = Idle \<and> items (event_monitor s) = [] \<and> handled (event_monitor s) = puts (event_monitor s)) \<or>
    (operation s = Connect_join \<and> m_work_thread s = Some Running \<and> m_connection s \<noteq> None)"
proof -
  note f = callbacks_rest [OF assms]
  have e: "event_thread s = None" "wakeups (event_monitor s) = 0"
    using still_next [OF assms(1), of Event_thread] still_next [OF assms(1), of Notify_event]
    by (auto simp: internal_def websocket_next_def split: if_split_asm)
  show ?thesis
  proof (cases "operation s")
    case Idle
    with e have "consumer_next (event_monitor s) = None"
      by (simp add: event_thread_def split: option.split_asm)
    with Idle e(2) monitor_rest [of "event_monitor s"] assms(2,3) show ?thesis
      by (auto simp: websocket_ok_def monitors_ok_def m_running_def)
  next
    case (Begin b)
    with e(1) f show ?thesis by (cases b) (simp_all add: event_thread_def)
  next
    case Connect_join
    with e(1) f have "\<not> work_gone s" by (simp add: event_thread_def split: if_split_asm)
    with Connect_join work_rest [OF assms] show ?thesis by simp
  qed (use e(1) f work_rest [OF assms] in \<open>auto simp: event_thread_def closing_def split: if_split_asm\<close>)
qed

lemma attempts_rest:
  assumes "still s" "websocket_ok s \<and> settled s" "m_running s"
  shows "count_list (reports s) False + (if m_connection s \<noteq> None then 1 else 0) = attempts s"
proof -
  have "\<not> closing s" using events_rest [OF assms] by (auto simp: closing_def)
  with assms(2,3) show ?thesis
    by (auto simp: websocket_ok_def session_ok_def balanced_def attached_def split: option.split_asm)
qed

section \<open>Properties\<close>

text \<open>
  C27: a session that is left alone comes to rest. From any state of a running session, the
  steps of its event, callback and work threads and the notifications under way end, in
  whatever order they are taken, within a bound; and when none is possible, every report
  has reached the sink, every attempt but the connection that is being made or open has
  been reported closed, and every request has been carried out, or the event thread waits
  for that connection before it makes another.
\<close>

theorem websocket_comes_to_rest:
  assumes "init sink target_url gateway_url WebsocketSession = (True, r)"
    and "run websocket_step r es s" and "m_running s"
    and "run websocket_step s fs t" and "list_all internal fs"
  shows "length fs \<le> 25 * load (event_monitor s) + load (callback_monitor s) + 36 \<and>
    ((\<forall>e u. internal e \<longrightarrow> \<not> websocket_step t e u) \<longrightarrow>
       handled (callback_monitor t) = reports t \<and>
       count_list (handled (callback_monitor t)) False + (if m_connection t \<noteq> None then 1 else 0) =
         attempts t \<and>
       (operation t = Idle \<and> handled (event_monitor t) = puts (event_monitor t) \<or>
        operation t = Connect_join \<and> m_connection t \<noteq> None))"
proof -
  have s: "websocket_ok s \<and> settled s" using settled.run_inv [OF assms(2) settled_init [OF assms(1)]] .
  have t: "websocket_ok t \<and> settled t" using settled.run_inv [OF assms(4) s] .
  note b = run_burden [OF assms(4,5) s assms(3)]
  have "length fs \<le> 25 * load (event_monitor s) + load (callback_monitor s) + 36"
    using b burden_le [of s] by simp
  moreover
  { assume "\<forall>e u. internal e \<longrightarrow> \<not> websocket_step t e u"
    then have q: "still t" by (simp add: still_def)
    note r = callbacks_rest [OF q t] attempts_rest [OF q t] events_rest [OF q t] }
  ultimately show ?thesis using b by fastforce
qed

text \<open>A connection that is refused: the failure is reported as a close.\<close>

definition demo_refused :: "websocket_event list" where
  "demo_refused = Notify_event # events 6 @ [Work_begin (Some True), Work_end, Notify_callback] @
     events 6 @ replicate 10 Callback_thread"

definition at_peace :: "websocket \<Rightarrow> bool" where
  "at_peace s \<longleftrightarrow> operation s = Idle \<and> work_gone s \<and>
     place (event_monitor s) = Asleep \<and> wakeups (event_monitor s) = 0 \<and>
     place (callback_monitor s) = Asleep \<and> wakeups (callback_monitor s) = 0"

lemma at_peace_still: "at_peace s \<Longrightarrow> internal e \<Longrightarrow> \<not> websocket_step s e t"
  by (cases e) (auto simp: at_peace_def internal_def websocket_step_def websocket_next_def
      event_thread_def callback_thread_def consumer_next_def work_gone_def)

theorem websocket_comes_to_rest_witness:
  "\<exists>s t. run websocket_step demo_session [Connect] s \<and> run websocket_step s demo_refused t \<and>
     length demo_refused \<le> 25 * load (event_monitor s) + load (callback_monitor s) + 36 \<and>
     handled (callback_monitor t) = [False] \<and> attempts t = 1 \<and> handled (event_monitor t) = [True]"
proof -
  have "\<exists>s. run websocket_step demo_session [Connect] s \<and> (m_running s \<and>
      (case exec websocket_next demo_refused s of None \<Rightarrow> False
       | Some t \<Rightarrow> at_peace t \<and> reports t = [False] \<and> attempts t = 1 \<and> puts (event_monitor t) = [True]))"
    by (rule websocket_exec.exec_ex) code_simp
  then obtain s where s: "run websocket_step demo_session [Connect] s" "m_running s"
    "case exec websocket_next demo_refused s of None \<Rightarrow> False
     | Some t \<Rightarrow> at_peace t \<and> reports t = [False] \<and> attempts t = 1 \<and> puts (event_monitor t) = [True]"
    by blast
  from websocket_exec.exec_ex [OF s(3)] obtain t where t: "run websocket_step s demo_refused t"
    "at_peace t" "reports t = [False]" "attempts t = 1" "puts (event_monitor t) = [True]" by blast
  have "list_all internal demo_refused" by (simp add: demo_refused_def events_def list_all_iff internal_def)
  from websocket_comes_to_rest [OF ws_demo_init s(1,2) t(1) this] at_peace_still [OF t(2)] s(1) t
  show ?thesis by (auto simp: at_peace_def)
qed

end
