(* ===== verification/Enet_Quiescence.thy ===== *)
theory Enet_Quiescence
  imports Enet_Client
begin

text \<open>
  What an ENet client does when it is left alone: its event and callback threads come to
  rest, and its send thread once it is not connected, whatever the scheduler does; then
  every request has been carried out and every report has reached the sink.
\<close>

section \<open>Steps of the client itself\<close>

text \<open>
  A connected client's send thread turns for ever; that of one that is not ends at the
  first service call without an event.
\<close>

definition own :: "enet_event \<Rightarrow> enet \<Rightarrow> bool" where
  "own e s \<longleftrightarrow>
     (case e of
        Event_thread \<Rightarrow> True | Host_connect _ \<Rightarrow> True | Host_service _ \<Rightarrow> True
      | Callback_thread \<Rightarrow> True | Notify_event \<Rightarrow> True | Notify_callback \<Rightarrow> True
      | Send_list \<Rightarrow> \<not> is_connected s | Serve Nothing \<Rightarrow> \<not> is_connected s | _ \<Rightarrow> False)"

definition own_next :: "enet_event \<Rightarrow> enet \<Rightarrow> enet option" where
  "own_next e s = (if own e s then enet_next e s else None)"

definition own_enet_step :: "enet \<Rightarrow> enet_event \<Rightarrow> enet \<Rightarrow> bool" where
  "own_enet_step s e t \<longleftrightarrow> own_next e s = Some t"

interpretation own_exec: executable_steps own_enet_step own_next
  by unfold_locales (rule own_enet_step_def)

lemma own_enet_step: "own_enet_step s e t \<longleftrightarrow> own e s \<and> enet_step s e t"
  by (simp add: own_enet_step_def own_next_def enet_step_def)

fun operation_load :: "operation \<Rightarrow> nat" where
  "operation_load Idle = 0"
| "operation_load (Begin _) = 15"
| "operation_load Connect_join = 14"
| "operation_load Connect_wait = 13"
| "operation_load Close_join = 11"

fun sender_load :: "sender option \<Rightarrow> nat" where
  "sender_load (Some Top) = 2"
| "sender_load (Some Service) = 1"
| "sender_load _ = 0"

definition burden :: "enet \<Rightarrow> nat" where
  "burden s = 16 * load (event_monitor s) + load (callback_monitor s) +
     operation_load (operation s) + sender_load (m_send_data_thread s)"

lemma enet_burden_le: "burden s \<le> 16 * load (event_monitor s) + load (callback_monitor s) + 17"
proof -
  have "operation_load (operation s) \<le> 15" by (cases "operation s") simp_all
  moreover have "sender_load (m_send_data_thread s) \<le> 2"
    by (cases "m_send_data_thread s" rule: sender_load.cases) simp_all
  ultimately show ?thesis by (simp add: burden_def)
qed

section \<open>One more invariant\<close>

text \<open>
  The threads see the same flag, and an operation that waits for the send thread or for an
  answer waits with the old connection given up.
\<close>

definition waits_alone :: "enet \<Rightarrow> bool" where
  "waits_alone s \<longleftrightarrow> running (callback_monitor s) = m_running s \<and>
     (operation s \<in> {Connect_join, Connect_wait, Close_join} \<longrightarrow> \<not> is_connected s) \<and>
     (operation s = Connect_wait \<longrightarrow> \<not> m_enet_peer s)"

lemma consumer_next_running: "consumer_next c = Some d \<Longrightarrow> running d = running c"
  by (erule consumer_next_cases) auto

lemma put_running [simp]: "running (put x c) = running c"
  by (simp add: put_def)

lemma notify_running [simp]: "running (notify_one c) = running c"
  by (simp add: notify_one_def)

lemma waits_alone_event:
  assumes "event_thread s = Some t" "waits_alone s"
  shows "waits_alone t"
  using assms
  by (auto simp: event_thread_def waits_alone_def m_running_def is_connected_def do_connect_def
      do_close_def do_close_joined_def on_close_def consumer_next_running
      split: operation.split_asm option.split_asm if_split_asm bool.split_asm place.split_asm)

lemma waits_alone_mono:
  assumes "waits_alone s" "running (callback_monitor t) = running (event_monitor t)"
    "operation t = operation s" "m_enet_peer t \<Longrightarrow> m_enet_peer s" "is_connected t \<Longrightarrow> is_connected s"
  shows "waits_alone t"
  using assms by (auto simp: waits_alone_def m_running_def)

lemma waits_alone_flag: "waits_alone s \<Longrightarrow> running (callback_monitor s) = running (event_monitor s)"
  by (simp add: waits_alone_def m_running_def)

lemma exit_frame:
  assumes "exit s = Some t" "running (callback_monitor s) = running (event_monitor s)"
  shows "running (callback_monitor t) = running (event_monitor t)" "operation t = operation s"
    "m_enet_peer t \<Longrightarrow> m_enet_peer s" "is_connected t \<Longrightarrow> is_connected s"
  using assms
  by (cases "leaving s"; auto simp: exit_def exit_begin_def set_running_def exit_close_def wake_events_def
      do_close_def exit_joined_def do_close_joined_def on_close_def exit_events_def exit_end_def
      is_connected_def split: if_split_asm)+

lemma serve_frame:
  "running (callback_monitor (serve r s)) = running (callback_monitor s)"
  "operation (serve r s) = operation s" "m_enet_peer (serve r s) = m_enet_peer s"
  "is_connected (serve r s) \<Longrightarrow> is_connected s"
  by (simp_all add: serve_def on_close_def is_connected_def split: service.splits if_splits)

lemma waits_alone_exit: "exit s = Some t \<Longrightarrow> waits_alone s \<Longrightarrow> waits_alone t"
  using waits_alone_mono [of s t] exit_frame [of s t] waits_alone_flag [of s] by blast

lemma waits_alone_serve: "waits_alone s \<Longrightarrow> waits_alone (serve r s)"
  using waits_alone_mono [of s "serve r s"] serve_frame [of r s] waits_alone_flag [of s] by simp

lemma waits_alone_step:
  assumes "enet_step s e t" "waits_alone s"
  shows "waits_alone t"
proof (cases e)
  case Event_thread
  with assms show ?thesis by (simp add: enet_step_def enet_next_def waits_alone_event)
next
  case Exit
  with assms show ?thesis by (simp add: enet_step_def enet_next_def waits_alone_exit)
next
  case (Serve r)
  with assms show ?thesis
    by (simp add: enet_step_def enet_next_def split: if_split_asm) (blast intro: waits_alone_serve)
next
  case (Host_connect b)
  with assms show ?thesis
    by (auto simp: enet_step_def enet_next_def do_connect_host_def on_close_def waits_alone_def
        m_running_def is_connected_def Let_def split: if_split_asm)
next
  case (Host_service b)
  with assms show ?thesis
    by (auto simp: enet_step_def enet_next_def do_connect_service_def on_connect_def on_close_def
        waits_alone_def m_running_def is_connected_def split: if_split_asm)
qed (rule waits_alone_mono [OF assms(2)];
    use assms(1) waits_alone_flag [OF assms(2)] in \<open>auto simp: enet_step_def enet_next_def connect_def
      close_def send_message_def send_list_def callback_thread_def consumer_next_running
      is_connected_def split: if_split_asm\<close>)+

definition orderly :: "enet \<Rightarrow> bool" where
  "orderly s \<longleftrightarrow> monitors_ok s \<and> waits_alone s"

interpretation orderly: step_invariant enet_step orderly
  by unfold_locales (auto simp: orderly_def intro: monitors_ok_step waits_alone_step)

lemma orderly_init:
  assumes "init sink host port initialized created EnetClientImpl = (True, s)"
  shows "orderly s"
  using enet_started_ok(1) [OF assms] assms
  by (auto simp: orderly_def waits_alone_def init_def set_running_def m_running_def EnetClientImpl_def
      split: option.split_asm if_split_asm)

section \<open>The burden falls\<close>

lemma report_fields [simp]:
  "operation (on_close s) = operation s" "m_send_data_thread (on_close s) = m_send_data_thread s"
  "operation (on_connect s) = operation s" "m_send_data_thread (on_connect s) = m_send_data_thread s"
  by (simp_all add: on_close_def on_connect_def)

lemma event_thread_lightens:
  assumes "event_thread s = Some t" "m_running s"
  shows "burden t < burden s"
proof (cases "operation s")
  case Idle
  with assms obtain c where c: "consumer_next (event_monitor s) = Some c"
    "t = s\<lparr>event_monitor := c, operation := (case place c of Busy x xs \<Rightarrow> Begin x | _ \<Rightarrow> Idle)\<rparr>"
    by (auto simp: event_thread_def split: option.split_asm)
  have "load c < load (event_monitor s)" using thread_lightens [OF c(1)] assms(2) by (simp add: m_running_def)
  with Idle show ?thesis by (auto simp: burden_def c(2) split: place.split)
next
  case (Begin b)
  with assms show ?thesis
    by (cases b) (auto simp: event_thread_def do_connect_def do_close_def burden_def split: if_split_asm)
qed (use assms in \<open>auto simp: event_thread_def do_close_joined_def burden_def put_load on_close_def
      split: if_split_asm\<close>)

lemma own_lightens:
  assumes "own_enet_step s e t" "m_running s" "running (callback_monitor s)"
  shows "burden t < burden s \<and> m_running t"
proof -
  from assms(1) have o: "own e s" "enet_next e s = Some t"
    by (simp_all add: own_enet_step enet_step_def)
  show ?thesis
  proof (cases e)
    case Event_thread
    with o(2) have s: "event_thread s = Some t" by (simp add: enet_next_def)
    have "m_running t"
      using s assms(2)
      by (auto simp: event_thread_def m_running_def consumer_next_running
          split: operation.split_asm option.split_asm if_split_asm bool.split_asm)
    with event_thread_lightens [OF s assms(2)] show ?thesis by simp
  next
    case Callback_thread
    with o(2) obtain c where c: "consumer_next (callback_monitor s) = Some c" "t = s\<lparr>callback_monitor := c\<rparr>"
      by (auto simp: enet_next_def callback_thread_def)
    from thread_lightens [OF c(1) assms(3)] c(2) assms(2) show ?thesis
      by (simp add: burden_def m_running_def)
  next
    case (Serve r)
    with o assms(2) show ?thesis
      by (cases r) (auto simp: own_def enet_next_def serve_def burden_def m_running_def split: if_split_asm)
  next
    case Notify_event
    with o(2) assms(2) notify_lightens [of "event_monitor s"] show ?thesis
      by (auto simp: enet_next_def burden_def m_running_def split: if_split_asm)
  next
    case Notify_callback
    with o(2) assms(2,3) notify_lightens [of "callback_monitor s"] show ?thesis
      by (auto simp: enet_next_def burden_def m_running_def split: if_split_asm)
  qed (use o assms(2) in \<open>auto simp: own_def enet_next_def burden_def m_running_def do_connect_host_def
        do_connect_service_def on_connect_def on_close_def send_list_def put_load Let_def
        split: if_split_asm\<close>)
qed

lemma run_own:
  assumes "run own_enet_step s fs t" "orderly s" "m_running s"
  shows "length fs + burden t \<le> burden s \<and> m_running t \<and> orderly t"
  using assms
proof (induction rule: run.induct)
  case (run_Cons s e t es u)
  then have "burden t < burden s" "m_running t"
    using own_lightens [OF run_Cons.hyps(1)] by (simp_all add: orderly_def waits_alone_def)
  moreover have "orderly t"
    using orderly.step_inv run_Cons.hyps(1) run_Cons.prems(1) by (auto simp: own_enet_step)
  ultimately show ?case using run_Cons.IH by auto
qed simp

section \<open>At rest\<close>

definition inert :: "enet \<Rightarrow> bool" where
  "inert s \<longleftrightarrow> (\<forall>e. own_next e s = None)"

lemma inert_next: "inert s \<Longrightarrow> own e s \<Longrightarrow> enet_next e s = None"
  by (auto simp: inert_def own_next_def split: if_split_asm)

lemma inert_callbacks:
  assumes "inert s" "orderly s" "m_running s"
  shows "mutex_free (callback_monitor s) \<and> handled (callback_monitor s) = puts (callback_monitor s)"
proof -
  have "consumer_next (callback_monitor s) = None" "wakeups (callback_monitor s) = 0"
    using inert_next [OF assms(1), of Callback_thread] inert_next [OF assms(1), of Notify_callback]
    by (auto simp: own_def enet_next_def callback_thread_def split: if_split_asm)
  with monitor_rest [of "callback_monitor s"] assms(2,3) show ?thesis
    by (auto simp: orderly_def monitors_ok_def waits_alone_def mutex_free_def)
qed

lemma inert_sender:
  assumes "inert s" "\<not> is_connected s"
  shows "sender_gone s"
  using inert_next [OF assms(1), of Send_list] inert_next [OF assms(1), of "Serve Nothing"] assms(2)
  by (cases "m_send_data_thread s" rule: sender_load.cases)
    (auto simp: own_def enet_next_def service_possible_def sender_gone_def)

lemma inert_idle:
  assumes "inert s" "orderly s" "m_running s"
  shows "operation s = Idle"
proof -
  have f: "mutex_free (callback_monitor s)" using inert_callbacks [OF assms] by simp
  have e: "event_thread s = None" "enet_next (Host_connect False) s = None" "enet_next (Host_service False) s = None"
    by (rule inert_next [OF assms(1), of Event_thread, unfolded enet_next_def, simplified]
        inert_next [OF assms(1)]; simp add: own_def)+
  show ?thesis
  proof (cases "operation s")
    case (Begin b)
    with e f show ?thesis by (cases b) (auto simp: event_thread_def)
  qed (use e f inert_sender [OF assms(1)] assms(2) in
      \<open>auto simp: event_thread_def enet_next_def orderly_def waits_alone_def split: if_split_asm\<close>)
qed

lemma inert_events:
  assumes "inert s" "orderly s" "m_running s"
  shows "handled (event_monitor s) = puts (event_monitor s)"
proof -
  have "consumer_next (event_monitor s) = None" "wakeups (event_monitor s) = 0"
    using inert_next [OF assms(1), of Event_thread] inert_next [OF assms(1), of Notify_event] inert_idle [OF assms]
    by (auto simp: own_def enet_next_def event_thread_def split: if_split_asm option.split_asm)
  with monitor_rest [of "event_monitor s"] assms(2,3) show ?thesis
    by (simp add: orderly_def monitors_ok_def m_running_def)
qed

section \<open>Properties\<close>

text \<open>
  C30: a client that is left alone comes to rest. From any state of a running client, the
  steps of its event and callback threads, the answers ENet gives them, the notifications
  under way and, once it is not connected, the turns of its send thread end, in whatever
  order they are taken, within a bound; and when none is possible, every request has been
  carried out, every report has reached the sink, no operation is under way, and the send
  thread runs only on a connection.
\<close>

theorem enet_comes_to_rest:
  assumes "init sink host port initialized created EnetClientImpl = (True, r)"
    and "run enet_step r es s" and "m_running s" and "run own_enet_step s fs t"
  shows "length fs \<le> 16 * load (event_monitor s) + load (callback_monitor s) + 17 \<and>
    ((\<forall>e u. \<not> own_enet_step t e u) \<longrightarrow>
       handled (event_monitor t) = puts (event_monitor t) \<and>
       handled (callback_monitor t) = puts (callback_monitor t) \<and>
       operation t = Idle \<and> (is_connected t \<or> sender_gone t))"
proof -
  have "orderly s" using orderly.run_inv [OF assms(2) orderly_init [OF assms(1)]] .
  note b = run_own [OF assms(4) this assms(3)]
  have "length fs \<le> 16 * load (event_monitor s) + load (callback_monitor s) + 17"
    using b enet_burden_le [of s] by simp
  moreover
  { assume "\<forall>e u. \<not> own_enet_step t e u"
    then have q: "inert t" by (auto simp: inert_def own_enet_step_def)
    note r = inert_callbacks [OF q] inert_idle [OF q] inert_events [OF q] inert_sender [OF q] }
  ultimately show ?thesis using b by blast
qed

text \<open>A connection attempt that times out, and the thread that waits for it.\<close>

definition demo_timeout :: "enet_event list" where
  "demo_timeout = Notify_event # threads 5 @ [Host_connect True, Host_service False, Notify_callback] @
     threads 6 @ replicate 10 Callback_thread"

definition at_peace :: "enet \<Rightarrow> bool" where
  "at_peace s \<longleftrightarrow> operation s = Idle \<and> sender_gone s \<and>
     place (event_monitor s) = Asleep \<and> wakeups (event_monitor s) = 0 \<and>
     place (callback_monitor s) = Asleep \<and> wakeups (callback_monitor s) = 0"

lemma at_peace_inert: "at_peace s \<Longrightarrow> \<not> own_enet_step s e t"
  by (cases e) (auto simp: at_peace_def own_def own_enet_step_def own_next_def enet_next_def
      event_thread_def callback_thread_def consumer_next_def sender_gone_def)

theorem enet_comes_to_rest_witness:
  "\<exists>s t. run enet_step demo_client [Connect] s \<and> run own_enet_step s demo_timeout t \<and>
     length demo_timeout \<le> 16 * load (event_monitor s) + load (callback_monitor s) + 17 \<and>
     handled (event_monitor t) = [True] \<and> handled (callback_monitor t) = [False]"
proof -
  have "\<exists>s. run enet_step demo_client [Connect] s \<and> (m_running s \<and>
      (case exec own_next demo_timeout s of None \<Rightarrow> False
       | Some t \<Rightarrow> at_peace t \<and> puts (event_monitor t) = [True] \<and> puts (callback_monitor t) = [False]))"
    by (rule enet_exec.exec_ex) code_simp
  then obtain s where s: "run enet_step demo_client [Connect] s" "m_running s"
    "case exec own_next demo_timeout s of None \<Rightarrow> False
     | Some t \<Rightarrow> at_peace t \<and> puts (event_monitor t) = [True] \<and> puts (callback_monitor t) = [False]"
    by blast
  from own_exec.exec_ex [OF s(3)] obtain t where t: "run own_enet_step s demo_timeout t" "at_peace t"
    "puts (event_monitor t) = [True]" "puts (callback_monitor t) = [False]" by blast
  from enet_comes_to_rest [OF enet_demo_init s(1,2) t(1)] at_peace_inert [OF t(2)] s(1) t show ?thesis by auto
qed

end
