(* ===== verification/Gateway_Tunnel.thy ===== *)
theory Gateway_Tunnel
  imports End_To_End Proxy_Handshake
begin

text \<open>
  A client, the gateway it dials and the server behind it, from the first byte on: the
  CONNECT request, the answer, the relay that takes over, and the session of the server.
  The components take their steps in any order, as long as nothing is read that has not
  been written. That the gateway loses no byte rests on the order of events: it reads the
  request before it answers, and the client sends packets only after the answer.
\<close>

section \<open>Requests and answers end with an empty line\<close>

lemma head_end_bounds: "head_end d = Some k \<Longrightarrow> 4 \<le> k \<and> k \<le> length d"
proof (induction d arbitrary: k)
  case (Cons b d)
  then show ?case by (cases "take 4 (b # d) = [13, 10, 13, 10]") (auto dest: arg_cong [where f = length])
qed simp

lemma head_end_append: "head_end d = Some k \<Longrightarrow> head_end (d @ x) = Some k"
proof (induction d arbitrary: k)
  case (Cons b d)
  show ?case
  proof (cases "take 4 (b # d) = [13, 10, 13, 10]")
    case True
    with Cons.prems show ?thesis by (auto dest: arg_cong [where f = length] simp: take_Cons')
  next
    case False
    with Cons.prems obtain j where j: "head_end d = Some j" "k = Suc j" by auto
    with head_end_bounds [OF j(1)] False Cons.IH show ?thesis by (simp add: take_Cons')
  qed
qed simp

lemma head_end_prefix: "prefix d w \<Longrightarrow> head_end d = Some k \<Longrightarrow> head_end w = Some k"
  by (auto simp: prefix_def head_end_append)

lemma head_end_take: "head_end d = Some k \<Longrightarrow> head_end (take k d) = Some k"
proof (induction d arbitrary: k)
  case (Cons b d)
  show ?case
  proof (cases "take 4 (b # d) = [13, 10, 13, 10]")
    case True
    with Cons.prems show ?thesis by (auto simp: take_Cons')
  next
    case False
    with Cons.prems obtain j where j: "head_end d = Some j" "k = Suc j" by auto
    with head_end_bounds [OF j(1)] False Cons.IH show ?thesis by (simp add: take_Cons' min_def)
  qed
qed simp

definition closed_head :: "bytes \<Rightarrow> bool" where
  "closed_head h \<longleftrightarrow> head_end h = Some (length h)"

text \<open>Of two texts that end with their first empty line none is a proper prefix of the other.\<close>

lemma closed_head_unique:
  assumes "closed_head h" "prefix d w" "prefix h w" "head_end d = Some k"
  shows "prefix h d"
proof -
  have "k = length h"
    using assms head_end_prefix [OF assms(2,4)] head_end_prefix [OF assms(3)] by (simp add: closed_head_def)
  with head_end_bounds [OF assms(4)] have "length h \<le> length d" by simp
  with assms(2,3) show ?thesis by (metis prefix_length_prefix)
qed

lemma answers_closed:
  assumes "recv_body resolve data = Some (r, ok, e)"
  shows "closed_head r"
proof -
  have "closed_head (http_response ''400 Bad Request'')" "closed_head (http_response ''502 Bad Gateway'')"
    "closed_head (http_response ''404 Not Found'')" "closed_head (http_response ''200 Connection Established'')"
    by (simp_all add: closed_head_def http_response_def)
  with assms show ?thesis
    by (auto simp: recv_body_def split: parsed.split_asm option.split_asm list.split_asm)
qed

section \<open>One connection of the gateway\<close>

text \<open>
  The handshake and then the relay. \<open>taken\<close> are the bytes read from the peer, \<open>offered\<close> is
  the answer that is being or has been written to it; the peer is the remote socket of the
  relay.
\<close>

record tunnel =
  shaking :: handshake
  copying :: "relay option"
  taken :: bytes
  offered :: bytes

definition accepted_tunnel :: tunnel where
  "accepted_tunnel = \<lparr>shaking = do_recv_head, copying = None, taken = [], offered = []\<rparr>"

datatype tunnel_event = Shake handshake_event | Copy relay_event

fun shake_input :: "handshake_event \<Rightarrow> bytes" where
  "shake_input (Head bs) = bs"
| "shake_input (Body data) = data"
| "shake_input _ = []"

fun copy_input :: "bool \<Rightarrow> relay_event \<Rightarrow> bytes" where
  "copy_input d (Recv_ok d' bs) = (if d' = d then bs else [])"
| "copy_input d _ = []"

definition shaken :: "handshake \<Rightarrow> tunnel \<Rightarrow> tunnel" where
  "shaken h s =
     s\<lparr>shaking := h,
       copying := (case progress h of Relaying e \<Rightarrow> Some (start TcpGatewaySession) | _ \<Rightarrow> None),
       offered := (case progress h of Sending r ok e \<Rightarrow> r | _ \<Rightarrow> offered s)\<rparr>"

definition tunnel_next :: "bool \<Rightarrow> (bytes \<Rightarrow> bytes \<Rightarrow> endpoint list option) \<Rightarrow>
    tunnel_event \<Rightarrow> tunnel \<Rightarrow> tunnel option" where
  "tunnel_next little resolve e s =
     (case (e, copying s) of
        (Shake e, None) \<Rightarrow>
          map_option (\<lambda>h. (shaken h s)\<lparr>taken := taken s @ shake_input e\<rparr>)
            (handshake_next little resolve e (shaking s))
      | (Copy e, Some r) \<Rightarrow>
          map_option (\<lambda>r. s\<lparr>copying := Some r, taken := taken s @ copy_input False e\<rparr>) (relay_next e r)
      | _ \<Rightarrow> None)"

definition to_peer :: "tunnel \<Rightarrow> bytes" where
  "to_peer s = offered s @ (case copying s of None \<Rightarrow> [] | Some r \<Rightarrow> onward r True)"

definition to_target :: "tunnel \<Rightarrow> bytes" where
  "to_target s = (case copying s of None \<Rightarrow> [] | Some r \<Rightarrow> onward r False)"

definition from_target :: "tunnel \<Rightarrow> bytes" where
  "from_target s = (case copying s of None \<Rightarrow> [] | Some r \<Rightarrow> got r True)"

section \<open>The network\<close>

text \<open>
  \<open>heard\<close> are the bytes the client has read on its connection, the answer to its request
  included; \<open>client_out\<close> those it has written, the outstanding operation included.
\<close>

record network =
  net_client :: etcp_client
  net_tunnel :: tunnel
  net_server :: etcp_session
  heard :: bytes

fun client_input :: "client_event \<Rightarrow> bytes" where
  "client_input (Response_ok g bs) = bs"
| "client_input (Response_err g bs m) = bs"
| "client_input (Etcp_Client.Head_ok g h) = h"
| "client_input (Etcp_Client.Body_ok g b) = b"
| "client_input _ = []"

definition client_out :: "etcp_client \<Rightarrow> bytes" where
  "client_out c =
     etcp_client.wire c 1 @
     (if etcp_client.failed c 1 then []
      else (if (1, Dial_request) \<in> set (dials c) then m_request c else []) @
        concat (map snd (etcp_client.writes c)))"

definition causal :: "network \<Rightarrow> bool" where
  "causal n \<longleftrightarrow>
     prefix (taken (net_tunnel n)) (client_out (net_client n)) \<and>
     prefix (heard n) (to_peer (net_tunnel n)) \<and>
     prefix (etcp_session.rx (net_server n)) (to_target (net_tunnel n)) \<and>
     prefix (from_target (net_tunnel n)) (on_wire (Etcp_Session.snd_of (net_server n)))"

datatype network_event = Client client_event | Gateway tunnel_event | Server session_event

text \<open>The byte orders of client, gateway and server, and the gateway's resolver.\<close>

record hosts =
  client_little :: bool
  gateway_little :: bool
  server_little :: bool
  resolver :: "bytes \<Rightarrow> bytes \<Rightarrow> endpoint list option"

definition network_next :: "hosts \<Rightarrow> network_event \<Rightarrow> network \<Rightarrow> network option" where
  "network_next h e n =
     (case (case e of
              Client e \<Rightarrow> map_option (\<lambda>c. n\<lparr>net_client := c, heard := heard n @ client_input e\<rparr>)
                (orderly_next (client_little h) e (net_client n))
            | Gateway e \<Rightarrow> map_option (\<lambda>t. n\<lparr>net_tunnel := t\<rparr>)
                (tunnel_next (gateway_little h) (resolver h) e (net_tunnel n))
            | Server e \<Rightarrow> map_option (\<lambda>s. n\<lparr>net_server := s\<rparr>)
                (session_next (server_little h) e (net_server n))) of
        None \<Rightarrow> None
      | Some n \<Rightarrow> if causal n then Some n else None)"

definition network_step :: "hosts \<Rightarrow> network \<Rightarrow> network_event \<Rightarrow> network \<Rightarrow> bool" where
  "network_step h n e n' \<longleftrightarrow> network_next h e n = Some n'"

interpretation network_exec: executable_steps "network_step h" "network_next h" for h
  by unfold_locales (rule network_step_def)

lemma network_cases:
  assumes "network_step h n e n'"
  obtains
    (client) a c where "e = Client a" "orderly_step (client_little h) (net_client n) a c" "causal n'"
      "n' = n\<lparr>net_client := c, heard := heard n @ client_input a\<rparr>"
  | (gateway) a t where "e = Gateway a" "tunnel_next (gateway_little h) (resolver h) a (net_tunnel n) = Some t"
      "causal n'" "n' = n\<lparr>net_tunnel := t\<rparr>"
  | (server) a s where "e = Server a" "session_step (server_little h) (net_server n) a s" "causal n'"
      "n' = n\<lparr>net_server := s\<rparr>"
  using assms
  by (auto simp: network_step_def network_next_def orderly_step_iff session_step_iff
      split: network_event.split_asm option.split_asm if_split_asm)

section \<open>The client has heard the answer before it is connected\<close>

text \<open>
  What \<open>heard\<close> consists of: nothing while the client dials, then the answer up to its empty
  line, what was read behind it (and stays in \<open>m_response\<close>), and the packet stream.
\<close>

definition heard_ok :: "etcp_client \<Rightarrow> bytes \<Rightarrow> bool" where
  "heard_ok c h \<longleftrightarrow>
     (h = [] \<longrightarrow> m_response c = [] \<and> On_connect \<notin> set (calls c)) \<and>
     (gen c = 0 \<or> dials c \<noteq> [] \<longrightarrow> h = []) \<and>
     (if On_connect \<in> set (calls c)
      then \<exists>a. closed_head a \<and> h = a @ m_response c @ etcp_client.rx c 1
      else etcp_client.reads c = [] \<and> etcp_client.rx c 1 = [])"

lemma heard_ok_cong:
  assumes "m_response t = m_response s" "On_connect \<in> set (calls t) \<longleftrightarrow> On_connect \<in> set (calls s)"
    "etcp_client.rx t = etcp_client.rx s" "etcp_client.reads t = [] \<or> etcp_client.reads t = etcp_client.reads s"
    "gen t = 0 \<or> dials t \<noteq> [] \<Longrightarrow> gen s = 0 \<or> dials s \<noteq> []"
  shows "heard_ok s h \<Longrightarrow> heard_ok t h"
  using assms by (auto simp: heard_ok_def)

lemma answer_split:
  assumes "head_end bs = Some k"
  shows "closed_head (take k bs)" "bs = take k bs @ drop k bs"
  using head_end_take [OF assms] head_end_bounds [OF assms] by (simp_all add: closed_head_def)

lemma heard_response:
  assumes c: "client_ok c" "heard_ok c h" "(g, Dial_response) \<in> set (dials c)" "delivered c bs"
  shows "heard_ok (response_ok g bs c) (h @ bs)"
proof -
  note d = dialing [OF c(1,3)]
  have "m_sink c" using c(1) by (simp add: client_ok_def)
  from c(2) d have n: "h = []" "m_response c = []" "On_connect \<notin> set (calls c)" "etcp_client.rx c 1 = []"
    by (auto simp: heard_ok_def fresh_reader_def)
  from c(4) n(2) obtain k where k: "head_end bs = Some k" by (auto simp: delivered_def)
  then have "bs \<noteq> []" by auto
  with n d k \<open>m_sink c\<close> answer_split [OF k] show ?thesis
    by (auto simp: heard_ok_def response_ok_def fresh_reader_def Let_def simp del: append_take_drop_id)
qed

lemma heard_read:
  assumes "heard_ok s h" "(g, r) \<in> set (etcp_client.reads s)"
    "m_response t = m_response s" "On_connect \<in> set (calls s) \<Longrightarrow> On_connect \<in> set (calls t)"
    "etcp_client.rx t 1 = etcp_client.rx s 1 @ x" "gen t = 1" "dials t = []"
  shows "heard_ok t (h @ x)"
proof -
  have c: "On_connect \<in> set (calls s)"
  proof (rule ccontr)
    assume "On_connect \<notin> set (calls s)"
    with assms(1) have "etcp_client.reads s = []" by (simp add: heard_ok_def)
    with assms(2) show False by simp
  qed
  with assms(1) obtain a where a: "closed_head a" "h = a @ m_response s @ etcp_client.rx s 1" "h \<noteq> []"
    unfolding heard_ok_def by metis
  have "h @ x = a @ m_response t @ etcp_client.rx t 1" "On_connect \<in> set (calls t)" "h @ x \<noteq> []"
    using a(2,3) c assms(3-5) by (simp, simp, blast)
  with a(1) assms(6,7) show ?thesis unfolding heard_ok_def by (metis one_neq_zero)
qed

lemma heard_ok_step:
  assumes st: "orderly_step little s e t" and ok: "client_ok s" "m_request s \<noteq> []" "heard_ok s h"
  shows "heard_ok t (h @ client_input e)"
proof -
  from st have c: "client_step little s e t" "gen t \<le> 1" "e \<noteq> Call_exit"
    by (simp_all add: orderly_step_def)
  from c(1) show ?thesis
  proof cases
    case c_connect
    then show ?thesis
      using posts_only(1) [of s] ok(3) heard_ok_cong [of t s h] by auto
  next
    case c_close
    then show ?thesis
      using posts_only(2) [of s] ok(3) heard_ok_cong [of t s h] by auto
  next
    case (c_send p)
    then show ?thesis
      using posts_only(3) [of p s] ok(3) heard_ok_cong [of t s h] by auto
  next
    case c_exit
    with c(3) show ?thesis by simp
  next
    case (c_task k ts)
    then show ?thesis
      using ok(3) c(2) heard_ok_cong [of t s h]
      by (cases k) (auto simp: run_task_def close_task_def real_connect_def)
  next
    case (c_connect_ok g)
    then have "dials s \<noteq> []" by auto
    with c_connect_ok ok show ?thesis
      using heard_ok_cong [of t s h] by (simp add: connect_ok_def do_proxy_def)
  next
    case (c_connect_err g m)
    then have "dials s \<noteq> []" by auto
    with c_connect_err ok show ?thesis
      using heard_ok_cong [of t s h] by (simp add: connect_err_def)
  next
    case (c_request_ok g)
    then have "dials s \<noteq> []" by auto
    with c_request_ok ok show ?thesis
      using heard_ok_cong [of t s h] by (simp add: request_ok_def)
  next
    case (c_request_err g x m)
    then have "dials s \<noteq> []" by auto
    with c_request_err ok show ?thesis
      using heard_ok_cong [of t s h] by (simp add: request_err_def)
  next
    case (c_response_ok g bs)
    then show ?thesis using heard_response [OF ok(1,3)] by simp
  next
    case (c_response_err g bs m)
    then have "(g, Dial_response) \<in> set (dials s)" by simp
    with c_response_err(2) ok(3) dialing [OF ok(1) this] show ?thesis
      by (auto simp: heard_ok_def response_err_def fresh_reader_def c_response_err(1))
  next
    case (c_write_ok g d)
    then show ?thesis
      using ok(3) heard_ok_cong [of t s h] by (auto simp: Etcp_Client.write_ok_def Let_def)
  next
    case (c_write_err g d x)
    then show ?thesis
      using ok(3) heard_ok_cong [of t s h] by (auto simp: Etcp_Client.write_err_def)
  next
    case (c_head_ok g x)
    then have m: "(g, Read_head) \<in> set (etcp_client.reads s)" by simp
    show ?thesis
      unfolding c_head_ok(1) client_input.simps
      by (rule heard_read [OF ok(3) m])
        (use reading [OF ok(1) m] in \<open>simp_all add: c_head_ok(2) Etcp_Client.read_head_def Let_def\<close>)
  next
    case (c_head_err g)
    then have m: "(g, Read_head) \<in> set (etcp_client.reads s)" by simp
    with c_head_err ok(3) reading [OF ok(1) m] show ?thesis
      using heard_ok_cong [of t s h] by (simp add: Etcp_Client.read_head_err_def)
  next
    case (c_body_ok g b)
    then have m: "(g, Read_body (length b)) \<in> set (etcp_client.reads s)" by simp
    show ?thesis
      unfolding c_body_ok(1) client_input.simps
      by (rule heard_read [OF ok(3) m])
        (use reading [OF ok(1) m] in \<open>simp_all add: c_body_ok(2) Etcp_Client.read_body_def Let_def\<close>)
  next
    case (c_body_err g k)
    then have m: "(g, Read_body k) \<in> set (etcp_client.reads s)" by simp
    with c_body_err ok(3) reading [OF ok(1) m] show ?thesis
      using heard_ok_cong [of t s h] by (simp add: Etcp_Client.read_body_err_def)
  qed
qed

text \<open>Before the client is connected it has written nothing but its request.\<close>

lemma client_out_request:
  assumes "client_ok c" "m_request c \<noteq> []" "On_connect \<notin> set (calls c)"
  shows "prefix (client_out c) (m_request c)"
proof -
  have w: "etcp_client.writes c = []" "prefix (etcp_client.wire c 1) (m_request c)"
    using assms by (auto simp: client_ok_def request_first_def)
  show ?thesis
  proof (cases "(1, Dial_request) \<in> set (dials c)")
    case True
    with assms w dialing_wire(1) [OF assms(1) True] show ?thesis by (simp add: client_out_def)
  qed (use w in \<open>simp add: client_out_def\<close>)
qed

lemma client_out_stream:
  assumes "client_ok c" "m_request c \<noteq> []" "On_connect \<in> set (calls c)"
  shows "client_out c = m_request c @ on_wire (Etcp_Client.snd_of c)"
proof -
  have w: "prefix (m_request c) (etcp_client.wire c 1)"
    using assms by (simp add: client_ok_def request_first_def)
  have "(1, Dial_request) \<notin> set (dials c)"
    using dialing(4) [OF assms(1)] assms(3) by (auto simp: fresh_reader_def)
  with w show ?thesis by (auto simp: client_out_def on_wire_def Etcp_Client.snd_of_def prefix_def)
qed

section \<open>The gateway takes exactly the request\<close>

text \<open>
  While the gateway reads the request, the client has not been answered, so the bytes the
  gateway finds are those of the request; when the relay takes over, the request has been
  read and nothing behind it.
\<close>

definition tunnel_ok :: "bytes \<Rightarrow> tunnel \<Rightarrow> bool" where
  "tunnel_ok req s \<longleftrightarrow>
     unread (shaking s) = [] \<and> (offered s = [] \<or> closed_head (offered s)) \<and>
     (case copying s of
        Some r \<Rightarrow> relay_ok r \<and> taken s = req @ got r False \<and> closed_head (offered s) \<and>
          (\<exists>e. progress (shaking s) = Relaying e)
      | None \<Rightarrow>
          (case progress (shaking s) of
             Reading_head \<Rightarrow> taken s = [] \<and> offered s = []
           | Reading_body \<Rightarrow> taken s = take 7 req \<and> offered s = []
           | Relaying e \<Rightarrow> False
           | Ended \<Rightarrow> True
           | _ \<Rightarrow> taken s = req \<and> closed_head (offered s)))"

text \<open>A request as the gateway needs it: the word CONNECT, and an end at the first empty line.\<close>

definition plain_request :: "bytes \<Rightarrow> bool" where
  "plain_request req \<longleftrightarrow> take 7 req = ascii ''CONNECT'' \<and> closed_head (drop 7 req)"

lemma plain_proxy_request:
  assumes "32 \<notin> set th" "13 \<notin> set th" "13 \<notin> set cd"
  shows "plain_request (proxy_request th tp cd)"
  using request_rest_end [OF assms(2,3)]
  by (simp add: plain_request_def closed_head_def proxy_request_split)

lemma prefix_take_eq: "prefix bs req \<Longrightarrow> length bs = n \<Longrightarrow> bs = take n req"
  by (auto simp: prefix_def)

lemma tunnel_head:
  assumes "tunnel_ok req s" "plain_request req" "copying s = None" "progress (shaking s) = Reading_head"
    "length bs = 7" "prefix bs req"
  shows "tunnel_ok req ((shaken (head_handler little bs (shaking s)) s)\<lparr>taken := taken s @ bs\<rparr>)"
proof -
  have "bs = ascii ''CONNECT''"
    using assms(2,5) prefix_take_eq [OF assms(6,5)] by (simp add: plain_request_def)
  then have "recv_head little bs = None" "take 7 req = bs"
    using prefix_take_eq [OF assms(6,5)] by (simp_all add: recv_head_def)
  with assms(1,3,4) show ?thesis
    by (simp add: tunnel_ok_def shaken_def head_handler_def do_recv_body_def)
qed

lemma tunnel_body:
  assumes "tunnel_ok req s" "plain_request req" "copying s = None" "progress (shaking s) = Reading_body"
    "head_end data \<noteq> None" "body_handler resolve data (shaking s) = Some h" "prefix (take 7 req @ data) req"
  shows "tunnel_ok req ((shaken h s)\<lparr>taken := taken s @ data\<rparr>)"
proof -
  have d: "prefix data (drop 7 req)"
    using assms(7) by (metis append_take_drop_id same_prefix_prefix)
  from assms(5) obtain k where k: "head_end data = Some k" by auto
  have "prefix (drop 7 req) data"
    using closed_head_unique [OF _ d _ k] assms(2) by (simp add: plain_request_def)
  with d have data: "data = drop 7 req" by (rule prefix_order.antisym)
  have "taken s = take 7 req" using assms(1,3,4) by (simp add: tunnel_ok_def)
  then have "taken s @ data = req" by (simp add: data)
  moreover have "unread h = []"
    using assms(2,6) by (auto simp: body_handler_def do_send_result_def plain_request_def closed_head_def data
        split: option.split_asm)
  ultimately show ?thesis
    using assms(1,6) answers_closed [of resolve data]
    by (auto simp: tunnel_ok_def shaken_def body_handler_def do_send_result_def split: option.split_asm)
qed

lemma relay_input:
  "relay_step r e t \<Longrightarrow> got t d = got r d @ copy_input d e"
  by (erule relay_step.cases)
    (auto simp: recv_ok_def recv_err_def send_ok_def send_err_def do_recv_def Let_def)

lemma tunnel_ok_step:
  assumes "tunnel_next little resolve e s = Some t" "tunnel_ok req s" "plain_request req"
    and "to_peer s = [] \<Longrightarrow> prefix (taken t) req"
  shows "tunnel_ok req t"
proof (cases e)
  case (Copy a)
  with assms(1) obtain r q where r: "copying s = Some r" "relay_step r a q"
    "t = s\<lparr>copying := Some q, taken := taken s @ copy_input False a\<rparr>"
    by (auto simp: tunnel_next_def relay_step_iff split: option.split_asm)
  with assms(2) relay_ok_step [OF r(2)] relay_input [OF r(2), of False] show ?thesis
    by (simp add: tunnel_ok_def)
next
  case (Shake a)
  with assms(1) obtain h where h: "copying s = None" "handshake_step little resolve (shaking s) a h"
    "t = (shaken h s)\<lparr>taken := taken s @ shake_input a\<rparr>"
    by (auto simp: tunnel_next_def handshake_step_iff split: option.split_asm)
  have q: "to_peer s = offered s" using h(1) by (simp add: to_peer_def)
  from h(2) show ?thesis
  proof cases
    case (h_head bs)
    with h(1) assms(2) have "taken s = []" "offered s = []" by (simp_all add: tunnel_ok_def)
    with assms(4) q h(3) h_head(1) have "prefix bs req" by simp
    with tunnel_head [OF assms(2,3) h(1)] h_head h(3) show ?thesis by simp
  next
    case (h_body data)
    with h(1) assms(2) have "taken s = take 7 req" "offered s = []" by (simp_all add: tunnel_ok_def)
    with assms(4) q h(3) h_body(1) have "prefix (take 7 req @ data) req" by simp
    with tunnel_body [OF assms(2,3) h(1)] h_body h(3) show ?thesis by simp
  next
    case (h_sent r b x)
    with h assms(2) show ?thesis by (simp add: tunnel_ok_def shaken_def sent_handler_def Let_def)
  next
    case (h_connected x)
    with h assms(2) show ?thesis
      by (simp add: tunnel_ok_def shaken_def connected_handler_def relay_ok_start)
        (simp add: start_def do_recv_def TcpGatewaySession_def)
  next
    case h_failed
    with h assms(2) show ?thesis by (simp add: tunnel_ok_def shaken_def)
  qed
qed

section \<open>The network keeps all of it\<close>

definition network_ok :: "hosts \<Rightarrow> bytes \<Rightarrow> network \<Rightarrow> bool" where
  "network_ok h req n \<longleftrightarrow>
     client.endpoint_inv (client_little h) (net_client n) \<and> m_request (net_client n) = req \<and>
     heard_ok (net_client n) (heard n) \<and>
     session.endpoint_inv (server_little h) (net_server n) \<and>
     tunnel_ok req (net_tunnel n) \<and> causal n"

lemma endpoint_client_ok: "client.endpoint_inv little c \<Longrightarrow> client_ok c"
  by (simp add: client.endpoint_inv_def)

lemma unanswered:
  assumes "network_ok h req n" "req \<noteq> []" "to_peer (net_tunnel n) = []"
  shows "prefix (client_out (net_client n)) req"
proof -
  have "heard n = []" using assms(1,3) by (simp add: network_ok_def causal_def)
  then have "On_connect \<notin> set (calls (net_client n))"
    using assms(1) by (simp add: network_ok_def heard_ok_def)
  with client_out_request [of "net_client n"] assms(1,2) show ?thesis
    by (auto simp: network_ok_def endpoint_client_ok)
qed

lemma network_ok_step:
  assumes st: "network_step h n e n'" and ok: "network_ok h req n" "plain_request req"
  shows "network_ok h req n'"
proof -
  have req: "req \<noteq> []" using ok(2) by (auto simp: plain_request_def)
  from st show ?thesis
  proof (cases rule: network_cases)
    case (client a c)
    have "client.endpoint_inv (client_little h) c"
      using client.inv.step_inv [OF client(2)] ok(1) by (simp add: network_ok_def)
    moreover have "m_request c = req"
      using request_constant [OF run_Cons [of "orderly_step (client_little h)", OF client(2) run_Nil]] ok(1) by (simp add: network_ok_def)
    moreover have "heard_ok c (heard n @ client_input a)"
      using heard_ok_step [OF client(2) endpoint_client_ok [of "client_little h"]] ok(1) req
      by (auto simp: network_ok_def)
    ultimately show ?thesis using ok(1) client(3,4) by (simp add: network_ok_def)
  next
    case (gateway a t)
    have "tunnel_ok req t"
    proof (rule tunnel_ok_step [OF gateway(2) _ ok(2)])
      show "tunnel_ok req (net_tunnel n)" using ok(1) by (simp add: network_ok_def)
      assume "to_peer (net_tunnel n) = []"
      from unanswered [OF ok(1) req this] gateway(3,4) show "prefix (taken t) req"
        by (auto simp: causal_def intro: prefix_order.trans)
    qed
    with ok(1) gateway(3,4) show ?thesis by (simp add: network_ok_def)
  next
    case (server a s)
    with session.inv.step_inv [OF server(2)] ok(1) show ?thesis by (simp add: network_ok_def)
  qed
qed

definition network :: "etcp_client \<Rightarrow> network" where
  "network c = \<lparr>net_client = c, net_tunnel = accepted_tunnel, net_server = EtcpSession True, heard = []\<rparr>"

lemma network_ok_start:
  assumes i: "Etcp_Client.init valid True th tp gh gp cd EtcpClientImpl = (Some True, c)"
  shows "network_ok h (m_request c) (network c)"
proof -
  have "client.endpoint_inv (client_little h) c"
    using init_endpoint [OF i run_Nil] .
  moreover have "heard_ok c []"
    by (subst init_fields [OF i]) (simp add: heard_ok_def EtcpClientImpl_def)
  moreover have "session.endpoint_inv (server_little h) (EtcpSession True)"
    using session_run_endpoint [OF run_Nil] .
  moreover have "etcp_session.rx (EtcpSession True) = []" by (simp add: EtcpSession_def)
  ultimately show ?thesis
    by (simp add: network_ok_def network_def accepted_tunnel_def do_recv_head_def tunnel_ok_def causal_def
        to_peer_def to_target_def from_target_def)
qed

lemma network_runs:
  assumes "Etcp_Client.init valid True th tp gh gp cd EtcpClientImpl = (Some True, c)"
    and "plain_request (m_request c)" and "run (network_step h) (network c) es n"
  shows "network_ok h (m_request c) n"
proof -
  have keep: "network_ok h (m_request c) t" if "run (network_step h) s fs t" "network_ok h (m_request c) s" for s fs t
    using that
    by (induction rule: run.induct) (blast intro: network_ok_step assms(2))+
  show ?thesis by (rule keep [OF assms(3) network_ok_start [OF assms(1)]])
qed

lemma request_of_init:
  assumes "Etcp_Client.init valid True th tp gh gp cd EtcpClientImpl = (Some True, c)" "m_request c \<noteq> []"
  shows "m_request c = proxy_request th tp cd"
  using assms by (auto simp: Etcp_Client.init_def Etcp_Client.exit_def EtcpClientImpl_def Let_def split: if_split_asm)

text \<open>The bytes at both ends, behind request and answer.\<close>

lemma upstream:
  assumes "network_ok h req n" "req \<noteq> []"
  shows "prefix (etcp_session.rx (net_server n)) (on_wire (Etcp_Client.snd_of (net_client n)))"
proof (cases "copying (net_tunnel n)")
  case None
  with assms(1) show ?thesis by (simp add: network_ok_def causal_def to_target_def)
next
  case (Some r)
  with assms(1) have r: "relay_ok r" "prefix (req @ got r False) (client_out (net_client n))"
    "prefix (etcp_session.rx (net_server n)) (onward r False)"
    by (auto simp: network_ok_def causal_def tunnel_ok_def to_target_def)
  have c: "client_ok (net_client n)" "m_request (net_client n) = req"
    using assms(1) by (auto simp: network_ok_def endpoint_client_ok)
  have "prefix (got r False) (on_wire (Etcp_Client.snd_of (net_client n)))"
  proof (cases "On_connect \<in> set (calls (net_client n))")
    case True
    with r(2) client_out_stream [OF c(1)] c(2) assms(2) show ?thesis by simp
  next
    case False
    have "prefix (client_out (net_client n)) req"
      using client_out_request [OF c(1) _ False] c(2) assms(2) by simp
    with r(2) have "prefix (req @ got r False) req" by (rule prefix_order.trans)
    from prefix_length_le [OF this] have "got r False = []" by simp
    then show ?thesis by simp
  qed
  with r(1,3) onward_prefix [of False r] show ?thesis
    by (auto simp: relay_ok_def intro: prefix_order.trans)
qed

lemma downstream:
  assumes "network_ok h req n" "m_response (net_client n) = []"
  shows "prefix (etcp_client.rx (net_client n) 1) (on_wire (Etcp_Session.snd_of (net_server n)))"
proof (cases "On_connect \<in> set (calls (net_client n))")
  case False
  with assms(1) show ?thesis by (simp add: network_ok_def heard_ok_def)
next
  case True
  with assms obtain a where a: "closed_head a" "heard n = a @ etcp_client.rx (net_client n) 1"
    by (auto simp: network_ok_def heard_ok_def)
  have p: "prefix (heard n) (to_peer (net_tunnel n))" "tunnel_ok req (net_tunnel n)"
    using assms(1) by (simp_all add: network_ok_def causal_def)
  then have "offered (net_tunnel n) \<noteq> []"
  proof (cases "copying (net_tunnel n)")
    case None
    with p(1) a show ?thesis by (auto simp: to_peer_def closed_head_def)
  qed (auto simp: tunnel_ok_def closed_head_def)
  with p(2) have o: "closed_head (offered (net_tunnel n))" by (auto simp: tunnel_ok_def)
  have w: "prefix a (to_peer (net_tunnel n))" "prefix (offered (net_tunnel n)) (to_peer (net_tunnel n))"
    using p(1) a(2) by (auto simp: to_peer_def intro: prefix_order.trans [of a "heard n"])
  have "a = offered (net_tunnel n)"
    using closed_head_unique [OF o w] closed_head_unique [OF a(1) w(2,1)] o a(1)
    by (auto simp: closed_head_def intro: prefix_order.antisym)
  with p(1) a(2) have x: "prefix (etcp_client.rx (net_client n) 1)
      (case copying (net_tunnel n) of None \<Rightarrow> [] | Some r \<Rightarrow> onward r True)"
    by (simp add: to_peer_def)
  show ?thesis
  proof (cases "copying (net_tunnel n)")
    case (Some r)
    with assms(1) have "relay_ok r" "prefix (got r True) (on_wire (Etcp_Session.snd_of (net_server n)))"
      by (auto simp: network_ok_def causal_def tunnel_ok_def from_target_def)
    with x Some onward_prefix [of True r] show ?thesis
      by (auto simp: relay_ok_def intro: prefix_order.trans)
  qed (use x in simp)
qed

section \<open>Demonstration\<close>

definition demo_hosts :: hosts where
  "demo_hosts = \<lparr>client_little = True, gateway_little = True, server_little = False,
     resolver = (\<lambda>h p. Some [(V4 7, 80)])\<rparr>"

text \<open>The handshake, and the first bytes of both ends, before the relay has started.\<close>

definition demo_opening :: "network_event list" where
  "demo_opening =
     [Client Call_connect, Client Run_task, Client (Connect_ok 1),
      Gateway (Shake (Head (take 7 (m_request demo_proxied)))),
      Gateway (Shake (Body (drop 7 (m_request demo_proxied)))),
      Gateway (Shake Sent), Client (Request_ok 1),
      Client (Response_ok 1 (http_response ''200 Connection Established'')),
      Client (Call_send [1, 2, 3]), Client Run_task, Client (Write_ok 1 (packet_head True 3)),
      Server (session_event.Start ([49], 1) ([50], 2)), Server (session_event.Call_send [7, 8]),
      Server session_event.Run_task, Server (session_event.Write_ok (packet_head False 2))]"

definition demo_up :: bytes where "demo_up = [69, 84, 0, 0, 0, 3, 1, 2, 3]"
definition demo_down :: bytes where "demo_down = [69, 84, 0, 0, 0, 2, 7, 8]"

text \<open>What the two ends make of the bytes, and what they have written meanwhile.\<close>

definition client_reads :: "etcp_client \<Rightarrow> bool" where
  "client_reads c \<longleftrightarrow> client_out c = m_request demo_proxied @ demo_up \<and>
     (case orderly_next True (Etcp_Client.Head_ok 1 [69, 84, 0, 0, 0, 2]) c of
        None \<Rightarrow> False
      | Some c1 \<Rightarrow> client_out c1 = m_request demo_proxied @ demo_up \<and>
          (case orderly_next True (Etcp_Client.Body_ok 1 [7, 8]) c1 of
             None \<Rightarrow> False
           | Some c2 \<Rightarrow> client_out c2 = m_request demo_proxied @ demo_up \<and> m_response c2 = [] \<and>
               etcp_client.queued c2 = [[1, 2, 3]] \<and> Etcp_Client.received c2 = [[7, 8]]))"

definition server_reads :: "etcp_session \<Rightarrow> bool" where
  "server_reads s \<longleftrightarrow> on_wire (Etcp_Session.snd_of s) = demo_down \<and> etcp_session.rx s = [] \<and>
     (case session_next False (session_event.Head_ok [69, 84, 0, 0, 0, 3]) s of
        None \<Rightarrow> False
      | Some s1 \<Rightarrow> on_wire (Etcp_Session.snd_of s1) = demo_down \<and> etcp_session.rx s1 = [69, 84, 0, 0, 0, 3] \<and>
          (case session_next False (session_event.Body_ok [1, 2, 3]) s1 of
             None \<Rightarrow> False
           | Some s2 \<Rightarrow> on_wire (Etcp_Session.snd_of s2) = demo_down \<and> etcp_session.rx s2 = demo_up \<and>
               etcp_session.queued s2 = [[7, 8]] \<and> Etcp_Session.received s2 = [[1, 2, 3]]))"

lemma demo_opened:
  "\<exists>n. run (network_step demo_hosts) (network demo_proxied) demo_opening n \<and>
     (client_reads (net_client n) \<and> server_reads (net_server n) \<and> copying (net_tunnel n) = None \<and>
      progress (shaking (net_tunnel n)) = Connecting (V4 7, 80) \<and> taken (net_tunnel n) = m_request demo_proxied \<and>
      offered (net_tunnel n) = heard n)"
  by (rule network_exec.exec_ex) code_simp

lemma demo_relay:
  "\<exists>r q. relay_next (Recv_ok False demo_up) (start TcpGatewaySession) = Some r \<and>
     relay_next (Recv_ok True demo_down) r = Some q \<and>
     got r True = [] \<and> got r False = demo_up \<and> onward r False = demo_up \<and> onward r True = [] \<and>
     got q True = demo_down \<and> got q False = demo_up \<and> onward q False = demo_up \<and> onward q True = demo_down"
  by (simp add: relay_next_def recv_ok_def do_recv_def start_def TcpGatewaySession_def onward_def ops_def
      recv_buffer_def set_recv_buffer_def buffer_size_def demo_up_def demo_down_def)

definition demo_relaying :: "network_event list" where
  "demo_relaying =
     [Gateway (Shake Connected), Gateway (Copy (Recv_ok False demo_up)), Gateway (Copy (Recv_ok True demo_down)),
      Server (session_event.Head_ok [69, 84, 0, 0, 0, 3]), Server (session_event.Body_ok [1, 2, 3]),
      Client (Etcp_Client.Head_ok 1 [69, 84, 0, 0, 0, 2]), Client (Etcp_Client.Body_ok 1 [7, 8])]"

lemma demo_relayed:
  assumes "client_reads (net_client n)" "server_reads (net_server n)" "copying (net_tunnel n) = None"
    "progress (shaking (net_tunnel n)) = Connecting (V4 7, 80)" "taken (net_tunnel n) = m_request demo_proxied"
    "offered (net_tunnel n) = heard n"
  shows "\<exists>m. run (network_step demo_hosts) n demo_relaying m \<and>
    (m_response (net_client m) = [] \<and>
     etcp_client.queued (net_client m) = [[1, 2, 3]] \<and> Etcp_Client.received (net_client m) = [[7, 8]] \<and>
     etcp_session.queued (net_server m) = [[7, 8]] \<and> Etcp_Session.received (net_server m) = [[1, 2, 3]])"
proof -
  obtain r q where r: "relay_next (Recv_ok False demo_up) (start TcpGatewaySession) = Some r"
      "relay_next (Recv_ok True demo_down) r = Some q" "got r True = []" "got r False = demo_up"
      "onward r False = demo_up" "onward r True = []" "got q True = demo_down" "got q False = demo_up"
      "onward q False = demo_up" "onward q True = demo_down"
    using demo_relay by blast
  have b: "prefix [69, 84, 0, 0, 0, 3] demo_up" "prefix [69, 84, 0, 0, 0, 2] demo_down"
    "prefix [69, 84, 0, 0, 0, 2, 7, 8] demo_down"
    by (simp_all add: demo_up_def demo_down_def)
  have z: "onward (start TcpGatewaySession) d = []" "got (start TcpGatewaySession) d = []" for d
    by (simp_all add: onward_def ops_def start_def do_recv_def TcpGatewaySession_def)
  show ?thesis
    unfolding demo_relaying_def
    by (rule network_exec.exec_ex, insert assms r b z)
      (auto simp: network_next_def tunnel_next_def demo_hosts_def shaken_def causal_def handshake_next_def
        connected_handler_def to_peer_def to_target_def from_target_def client_reads_def server_reads_def
        split: option.split_asm)
qed

section \<open>Properties\<close>



end
