(* ===== verification/Spec2Isabelle.thy ===== *)
theory Spec2Isabelle
  imports String_Codec Etcp_Session Etcp_Client_Api Etcp_Server Tcp_Forward Proxy_Handshake End_To_End
    Multicast_Group Wutnet_Client Http_Client Json_Helper Http_Quiescence
    Websocket_Quiescence Enet_Quiescence Gateway_Tunnel
begin

text \<open>
  A model of network_utility, a C++ library of network clients and servers over asio,
  websocketpp and ENet, and the theorems that make it correct. Only the repository's own
  code (src/src, the directories named below) is modelled; the vendored libraries appear
  through what the code relies on.

  THE PROGRAM. \<open>etcp_client\<close> and \<open>etcp_server\<close> speak ETCP, packets framed by a six-byte
  header on a TCP connection. A client that is given a gateway dials it and sends an HTTP
  CONNECT request; \<open>tcp_gateway_server\<close> answers, connects to the target and relays bytes.
  \<open>tcp_forward_server\<close> opens local ports whose connections it relays to a gateway, behind a
  message of seven obfuscated bytes. \<open>websocket_client\<close> and \<open>enet_client\<close> are clients of two
  other transports, and \<open>wutnet_client\<close> is one interface over the three.
  \<open>multicast_helper\<close> sends and receives datagrams, \<open>http_client\<close> runs HTTP requests on the
  thread pool \<open>task_actuator\<close>; \<open>string_codec\<close>, \<open>json_helper\<close> and \<open>base\<close> are helpers.

  HOW CODE AND MODEL CORRESPOND. A class is a record with its fields under their names in
  the code; what no theorem could tell apart (locks held by nobody, log texts) is left
  out, and ghost fields record what happened: bytes on the wire, packets accepted, calls
  of the user's sink. A function is a definition of the same name that returns the new
  state. A completion handler (a lambda passed to asio) is a definition of its own, named
  after the operation that it ends (\<open>write_ok\<close>, \<open>write_err\<close>, ...). An event of a class is
  a call of its user, the completion of an operation that is outstanding, the execution
  of a posted handler, or a step of one of its threads; the step relation says which
  events are possible in a state, and a run is a list of events, so that a theorem about
  all runs is one about every order and interleaving. Calls whose result the
  outside decides (binding, resolving, connecting, what a peer sends) take it as an
  argument or from the event. Integers have the width of the code; C strings are optional
  byte strings, where \<open>None\<close> is a null pointer; \<open>little\<close> is the byte order of a host.

  THEORIES.
  \<open>Prelude\<close>: bytes, C strings and lists; \<open>run\<close> and \<open>exec\<close>, the runs of a step relation and
  how to compute one; the locales \<open>step_invariant\<close>, \<open>executable_steps\<close>, \<open>registry\<close> (a map with
  one insertion and one removal), \<open>round_robin\<close> and \<open>text_codec\<close>.
  \<open>Base\<close>: base/base.cpp; byte order, clocks, the line buffer of the log.
  \<open>String_Codec\<close>: string_codec/string_codec.cpp; hexadecimal and base64, each decoder the
  inverse of its encoder, the base64 encoder equal to the bit-group text of RFC 4648, and
  exactly which texts the decoders accept.
  \<open>Etcp_Frame\<close>: the header and the framing; framed packets are read back on a host of any
  byte order. \<open>Etcp_Channel\<close>: the contract of one end of a connection (locale
  \<open>etcp_endpoint\<close>), a sending machine with one write outstanding and a receiving machine that
  alternates headers and bodies, and what follows from it; \<open>live_endpoint\<close> adds the progress
  of an open connection: it can write all it was given and read all that arrives.
  \<open>Etcp_Session\<close>: etcp_server/etcp_session; \<open>Etcp_Client\<close>: etcp_client/etcp_client_impl. Both
  interpret the two contracts; in addition the order of the sink's calls over the life of a
  session, and what goes wrong at reconnects, failed connections and a second \<open>connect\<close>.
  \<open>Etcp_Client_Api\<close>: etcp_client/etcp_client.cpp.
  \<open>Etcp_Server_Impl\<close>: etcp_server/etcp_server_impl with the sessions of all its threads: the
  map holds the open sessions, and \<open>exit\<close> returns, unless a session is closed between its
  announcement and its registration. \<open>Etcp_Server\<close>: the public classes.
  \<open>Tcp_Relay\<close>: tcp_gateway_session.cpp and tcp_forward_session.cpp, which are the same code;
  every direction is copied unchanged. \<open>Tcp_Gateway\<close>: tcp_gateway_server_impl.cpp; the request
  parser stays in bounds and gives the answers the request deserves. \<open>Tcp_Forward\<close>:
  tcp_forward_acceptor.cpp and tcp_forward_server_impl.cpp on a heap of acceptors; which
  ports are registered, and the use of a released acceptor.
  \<open>Proxy_Handshake\<close>: client and gateway understand each other. \<open>End_To_End\<close>: client, any
  number of relays and session together; packets arrive in order, complete and unchanged,
  and from every state reached all of them can still be brought to the other end.
  \<open>Gateway_Tunnel\<close>: the client, one connection of the gateway from its handshake to its
  relay, and the session behind it as one system whose components take their steps in any
  order; the gateway loses no byte behind the request, because the client writes packets
  only after it has been answered.
  \<open>Task_Actuator\<close>: task_actuator/task_actuator.hpp statement by statement; tasks run once, none is
  stranded, destruction terminates, or hangs after a lost wakeup. \<open>Task_Quiescence\<close>: left
  alone, the pool comes to rest whatever the scheduler does, with every task finished.
  \<open>Consumer\<close>: the loop of a thread that waits for a list of elements, which
  \<open>Multicast\<close> (multicast_helper), \<open>Enet_Client\<close> (enet_client/enet_client_impl.cpp) and
  \<open>Websocket_Session\<close> (the template in websocket_client/websocket_client_impl.h) share; each has its
  invariants of order, delivery and reports, and its ways to hang; left alone, the loop comes
  to rest with an empty list. \<open>Websocket_Quiescence\<close>, \<open>Enet_Quiescence\<close>: the threads of a
  client come to rest, every report delivered, and no operation left half way but the one
  wait of a second websocket connect for the first. \<open>Multicast_Group\<close>: two members of a
  group, of any byte orders. \<open>Enet_Client_Api\<close>, \<open>Websocket_Client\<close>: the public classes.
  \<open>Wutnet_Client\<close>: wutnet_client over the three public classes (locale \<open>wutnet_base\<close>, interpreted
  for each). \<open>Http_Client\<close>: http_client over \<open>Task_Actuator\<close>, with httplib, the servers
  behind it and the file system as the functions of \<open>world\<close>; \<open>Http_Quiescence\<close>: every
  request is answered, with the outcome of that very request. \<open>Json_Helper\<close>: json_helper.

  BOUNDS. No definition uses fuel: every loop of the code is a structural recursion, a
  recursion with a measure, or a sequence of steps. The capacities of the code (the log
  line, the 32 KiB relay buffers, the datagram of 1472 bytes, 32-bit lengths) are kept.
  Time is a 64-bit number of milliseconds, and the ping timer is correct before its sums
  wrap around.

  NOT MODELLED. The vendored asio, websocketpp, ENet, httplib and nlohmann json. Memory
  exhaustion and the failure to create a thread. Socket options, TLS contexts and
  timeouts, which are only handed on. Tasks of the thread pool return; their futures are
  not modelled. Races on fields the code reads without a lock are resolved in some order:
  every statement that touches shared fields is one step, torn reads do not occur.
  \<open>http_request\<close> (an abstract class whose only function calls a pure virtual one, without
  derived class) and \<open>singleton\<close> have no behaviour of their own; the programs under
  src/test drive the library by hand.
\<close>

end
